(* ===== verification/Go_Base.thy ===== *)
theory Go_Base
  imports Main "HOL-Library.Word"
begin

text \<open>
  The prelude of the development: what every component needs of the Go language.

  A Go function that may panic returns a value of type \<open>'a go\<close>: \<open>Ret v\<close> when it returns,
  \<open>Panic p\<close> when it stops with a run-time panic. An ordinary Go error result is a sum
  \<open>'e + 'a\<close>, with \<open>Inl\<close> for the error. Slice reads and writes, \<open>make\<close> and \<open>%\<close> are
  written with the checks the Go run time makes, so that the absence of a panic is a theorem
  of each component and not an assumption of the model.
\<close>

named_theorems go_simps \<open>unfolding rules for the Go primitives\<close>

subsection \<open>Panics\<close>

datatype go_panic = DivideByZero | IndexOutOfRange | MakeSliceLen | PanicCalled

datatype 'a go = Panic go_panic | Ret 'a

primrec go_bind :: "'a go \<Rightarrow> ('a \<Rightarrow> 'b go) \<Rightarrow> 'b go" where
  "go_bind (Panic p) f = Panic p"
| "go_bind (Ret a) f = f a"

lemma go_bind_Ret_right [simp]: "go_bind m Ret = m"
  by (cases m) simp_all

lemma go_bind_assoc: "go_bind (go_bind m f) g = go_bind m (\<lambda>a. go_bind (f a) g)"
  by (cases m) simp_all

lemma go_bind_eq_Ret_iff: "go_bind m f = Ret b \<longleftrightarrow> (\<exists>a. m = Ret a \<and> f a = Ret b)"
  by (cases m) auto

text \<open>
  Go's \<open>int\<close> is modelled as \<open>int\<close>; the components prove that the values they compute stay
  within 64 bits. \<open>%\<close> truncates towards zero and panics on a zero divisor.
\<close>

definition go_mod :: "int \<Rightarrow> int \<Rightarrow> int go" where
  "go_mod a b = (if b = 0 then Panic DivideByZero else Ret (sgn a * (\<bar>a\<bar> mod \<bar>b\<bar>)))"

lemma go_mod_nonneg [go_simps]: "0 \<le> a \<Longrightarrow> 0 < b \<Longrightarrow> go_mod a b = Ret (a mod b)"
  by (cases "a = 0") (auto simp: go_mod_def)

lemma go_mod_zero [go_simps]: "go_mod a 0 = Panic DivideByZero"
  by (simp add: go_mod_def)

lemma go_mod_int: "0 < b \<Longrightarrow> go_mod (int a) (int b) = Ret (int (a mod b))"
  by (simp add: go_mod_nonneg zmod_int)

lemma go_mod_int_Suc: "0 < b \<Longrightarrow> go_mod (int a + 1) (int b) = Ret (int (Suc a mod b))"
  using go_mod_int [of b "Suc a"] by (simp add: algebra_simps)

subsection \<open>Slices\<close>

text \<open>\<open>make([]T, n)\<close>: panics for a negative length and for one above what the run time allows.\<close>

definition make_slice :: "int \<Rightarrow> int \<Rightarrow> 'a \<Rightarrow> 'a list go" where
  "make_slice max_len n z =
     (if n < 0 \<or> max_len < n then Panic MakeSliceLen else Ret (replicate (nat n) z))"

definition slice_get :: "'a list \<Rightarrow> int \<Rightarrow> 'a go" where
  "slice_get xs i =
     (if 0 \<le> i \<and> i < int (length xs) then Ret (xs ! nat i) else Panic IndexOutOfRange)"

definition slice_set :: "'a list \<Rightarrow> int \<Rightarrow> 'a \<Rightarrow> 'a list go" where
  "slice_set xs i x =
     (if 0 \<le> i \<and> i < int (length xs) then Ret (xs[nat i := x]) else Panic IndexOutOfRange)"

lemma make_slice_ok [go_simps]:
  "0 \<le> n \<Longrightarrow> n \<le> max_len \<Longrightarrow> make_slice max_len n z = Ret (replicate (nat n) z)"
  by (simp add: make_slice_def)

lemma slice_get_ok [go_simps]:
  "0 \<le> i \<Longrightarrow> i < int (length xs) \<Longrightarrow> slice_get xs i = Ret (xs ! nat i)"
  by (simp add: slice_get_def)

lemma slice_set_ok [go_simps]:
  "0 \<le> i \<Longrightarrow> i < int (length xs) \<Longrightarrow> slice_set xs i x = Ret (xs[nat i := x])"
  by (simp add: slice_set_def)

subsection \<open>Range over a map\<close>

text \<open>
  Go visits the entries of a map in an order that is not specified and differs between runs.
  A loop over a map takes the order as an argument, a list of entries; \<open>is_iteration m es\<close>
  says that \<open>es\<close> is one of the orders the run time may choose: every entry once.
\<close>

definition is_iteration :: "('k \<rightharpoonup> 'v) \<Rightarrow> ('k \<times> 'v) list \<Rightarrow> bool" where
  "is_iteration m es \<longleftrightarrow> distinct (map fst es) \<and> map_of es = m"

lemma is_iteration_mem: "is_iteration m es \<Longrightarrow> (k, v) \<in> set es \<longleftrightarrow> m k = Some v"
  by (auto simp: is_iteration_def)

lemma is_iteration_distinct: "is_iteration m es \<Longrightarrow> distinct (map fst es)"
  by (simp add: is_iteration_def)

lemma is_iteration_set: "is_iteration m es \<Longrightarrow> set es = {(k, v). m k = Some v}"
  by (auto simp: is_iteration_mem)

lemma is_iteration_keys: "is_iteration m es \<Longrightarrow> fst ` set es = dom m"
  unfolding is_iteration_def by (metis dom_map_of_conv_image_fst)

text \<open>Every finite map has an order, and every entry may come first.\<close>

lemma map_of_without: "map_of (filter (\<lambda>e. fst e \<noteq> r) es) x = (if x = r then None else map_of es x)"
  by (induction es) auto

lemma iteration_first:
  assumes "is_iteration m es" "m r = Some v"
  obtains es' where "is_iteration m ((r, v) # es')"
proof -
  have d: "distinct (map fst es)" and m: "map_of es = m" using assms(1) by (auto simp: is_iteration_def)
  let ?es' = "filter (\<lambda>e. fst e \<noteq> r) es"
  have "distinct (map fst ?es')" using d by (simp add: distinct_map_filter)
  moreover have "map_of ((r, v) # ?es') = m"
    using m assms(2) by (auto simp: fun_eq_iff map_of_without)
  ultimately show ?thesis using that [of ?es'] by (auto simp: is_iteration_def)
qed

lemma iteration_exists: "finite (dom m) \<Longrightarrow> \<exists>es. is_iteration m es"
proof -
  assume fin: "finite (dom m)"
  obtain ks where ks: "set ks = dom m" "distinct ks" using finite_distinct_list [OF fin] by auto
  let ?es = "map (\<lambda>k. (k, the (m k))) ks"
  have "map_of ?es = m"
  proof
    show "map_of ?es k = m k" for k
      using ks(1) by (cases "m k") (simp_all add: map_of_map_restrict restrict_map_def domIff comp_def)
  qed
  moreover have "distinct (map fst ?es)" using ks by (simp add: comp_def)
  ultimately have "is_iteration m ?es" by (simp add: is_iteration_def comp_def)
  then show ?thesis by (rule exI)
qed

subsection \<open>Time\<close>

text \<open>
  An instant is a number of nanoseconds (\<open>time.Time\<close> reaches far beyond 64 bits of them, so
  it is an \<open>int\<close>); a \<open>time.Duration\<close> is a signed 64-bit number of nanoseconds. \<open>Sub\<close>
  saturates at the ends of the duration range, multiplication of durations wraps around.
\<close>

type_synonym time = int
type_synonym duration = "64 word"

definition max_duration :: int where "max_duration = 2 ^ 63 - 1"

definition min_duration :: int where "min_duration = - (2 ^ 63)"

definition time_Sub :: "time \<Rightarrow> time \<Rightarrow> duration" where
  "time_Sub t u = word_of_int (max min_duration (min max_duration (t - u)))"

definition Second :: duration where "Second = 1000000000"

text \<open>\<open>time.NewTicker\<close> panics for an interval that is not positive.\<close>

definition NewTicker :: "duration \<Rightarrow> unit go" where
  "NewTicker d = (if sint d \<le> 0 then Panic PanicCalled else Ret ())"

lemma NewTicker_simps [simp]:
  "0 < sint d \<Longrightarrow> NewTicker d = Ret ()" "sint d \<le> 0 \<Longrightarrow> NewTicker d = Panic PanicCalled"
  by (simp_all add: NewTicker_def)

lemma sint_word_of_int_64 [go_simps]:
  "min_duration \<le> k \<Longrightarrow> k \<le> max_duration \<Longrightarrow> sint (word_of_int k :: 64 word) = k"
  unfolding min_duration_def max_duration_def
  by (subst signed_of_int) (simp add: signed_take_bit_int_eq_self)

lemma sint_time_Sub: "sint (time_Sub t u) = max min_duration (min max_duration (t - u))"
  unfolding time_Sub_def
  by (rule sint_word_of_int_64) (simp_all add: min_duration_def max_duration_def)

lemma sint_range_64: "min_duration \<le> sint (d :: 64 word)" "sint (d :: 64 word) \<le> max_duration"
  using sint_ge [of d] sint_lt [of d] by (simp_all add: min_duration_def max_duration_def)

subsection \<open>Lists read through a rotation\<close>

text \<open>
  A circular buffer is a list read from its head index, wrapping around: \<open>n\<close> elements from
  index \<open>h\<close> are \<open>take n (rotate h xs)\<close>. The three lemmas are the element-wise content of a
  write at the tail, of a read at the head, and of a whole copy.
\<close>

lemma nth_take_rotate:
  "i < n \<Longrightarrow> n \<le> length xs \<Longrightarrow> take n (rotate h xs) ! i = xs ! ((h + i) mod length xs)"
  by (simp add: nth_rotate)

lemma mod_add_neq:
  assumes "(i::nat) < n" "n < len"
  shows "(h + i) mod len \<noteq> (h + n) mod len"
proof
  assume eq: "(h + i) mod len = (h + n) mod len"
  then have "len dvd (h + n) - (h + i)"
    using assms by (metis mod_eq_dvd_iff_nat add_le_mono order_refl less_imp_le)
  moreover have "(h + n) - (h + i) = n - i" by simp
  ultimately have "len dvd n - i" by simp
  with assms show False by (auto dest: dvd_imp_le)
qed

lemma take_rotate_append:
  assumes "n < length xs"
  shows "take (Suc n) (rotate h (xs[(h + n) mod length xs := x])) = take n (rotate h xs) @ [x]"
proof (rule nth_equalityI)
  show "length (take (Suc n) (rotate h (xs[(h + n) mod length xs := x])))
      = length (take n (rotate h xs) @ [x])"
    using assms by simp
next
  fix i
  assume "i < length (take (Suc n) (rotate h (xs[(h + n) mod length xs := x])))"
  then have i: "i \<le> n" using assms by simp
  have pos: "(h + n) mod length xs < length xs" using assms by (intro mod_less_divisor) linarith
  show "take (Suc n) (rotate h (xs[(h + n) mod length xs := x])) ! i
      = (take n (rotate h xs) @ [x]) ! i"
  proof (cases "i = n")
    case True
    then show ?thesis using assms pos by (simp add: nth_rotate nth_append)
  next
    case False
    with i have "i < n" by simp
    then show ?thesis
      using assms mod_add_neq [of i n "length xs" h] by (simp add: nth_rotate nth_append)
  qed
qed

lemma take_rotate_Cons:
  assumes "0 < n" "n \<le> length xs" "h < length xs"
  shows "take n (rotate h xs) = xs ! h # take (n - 1) (rotate (Suc h) (xs[h := z]))"
proof (rule nth_equalityI)
  show "length (take n (rotate h xs)) = length (xs ! h # take (n - 1) (rotate (Suc h) (xs[h := z])))"
    using assms by simp
next
  fix i
  assume "i < length (take n (rotate h xs))"
  then have i: "i < n" using assms by simp
  show "take n (rotate h xs) ! i = (xs ! h # take (n - 1) (rotate (Suc h) (xs[h := z]))) ! i"
  proof (cases i)
    case 0
    moreover have "xs \<noteq> []" using assms by auto
    ultimately show ?thesis using assms nth_rotate [of 0 xs h] by simp
  next
    case (Suc j)
    have "(h + 0) mod length xs \<noteq> (h + Suc j) mod length xs"
      using i Suc assms by (intro mod_add_neq) auto
    then have "(h + Suc j) mod length xs \<noteq> h" using assms by simp
    then show ?thesis using i Suc assms by (simp add: nth_rotate del: rotate_Suc)
  qed
qed

lemma rotate_mod_length: "length xs = n \<Longrightarrow> rotate (h mod n) xs = rotate h xs"
  using rotate_conv_mod [of h xs] by simp

end
