(* ===== verification/Rabbit_Domain.thy ===== *)
theory Rabbit_Domain
  imports Go_Base
begin

text \<open>
  Baby-Rabbit, package \<open>internal/domain\<close>: the message entity and its expiry test, the queue
  descriptors, the catalogue of business errors, and the two interfaces of the domain as
  records of operations (\<open>domain.Queue\<close> here, the manager in \<open>Rabbit_Manager\<close>). The locale
  \<open>queue_port\<close> states what an implementation of \<open>domain.Queue\<close> promises its clients.
\<close>

subsection \<open>Errors\<close>

text \<open>
  The errors of \<open>errors.go\<close>; \<open>ErrOther\<close> stands for an error value outside the catalogue,
  which the HTTP adapter treats in its default branch.
\<close>

datatype rabbit_error =
    ErrQueueNotFound
  | ErrQueueAlreadyExists
  | ErrQueueFull
  | ErrQueueEmpty
  | ErrInvalidCapacity
  | ErrInvalidName
  | ErrInvalidTTL
  | ErrOther string

fun Error :: "rabbit_error \<Rightarrow> string" where
  "Error ErrQueueNotFound = ''queue not found''"
| "Error ErrQueueAlreadyExists = ''queue already exists''"
| "Error ErrQueueFull = ''queue full''"
| "Error ErrQueueEmpty = ''queue empty''"
| "Error ErrInvalidCapacity = ''invalid capacity''"
| "Error ErrInvalidName = ''invalid queue name''"
| "Error ErrInvalidTTL = ''invalid ttl''"
| "Error (ErrOther s) = s"

subsection \<open>Messages\<close>

record message =
  ID :: string
  Value :: string
  CreatedAt :: time
  TTL :: duration

text \<open>The zero value \<open>domain.Message{}\<close>; the zero \<open>time.Time\<close> is the origin of the time line.\<close>

definition zero_message :: message where
  "zero_message = \<lparr>ID = [], Value = [], CreatedAt = 0, TTL = 0\<rparr>"

definition ExpiredAt :: "message \<Rightarrow> time \<Rightarrow> bool" where
  "ExpiredAt m now =
     (if sint (TTL m) \<le> 0 then False
      else sint (TTL m) \<le> sint (time_Sub now (CreatedAt m)))"

text \<open>
  The saturation of \<open>Sub\<close> never decides the test: a message is expired exactly from the
  instant \<open>CreatedAt + TTL\<close> on, and a message without a positive TTL never is.
\<close>

lemma ExpiredAt_iff: "ExpiredAt m now \<longleftrightarrow> 0 < sint (TTL m) \<and> CreatedAt m + sint (TTL m) \<le> now"
  using sint_range_64 [of "TTL m"]
  by (auto simp: ExpiredAt_def sint_time_Sub min_duration_def max_duration_def)

lemma ExpiredAt_mono: "ExpiredAt m t \<Longrightarrow> t \<le> t' \<Longrightarrow> ExpiredAt m t'"
  by (simp add: ExpiredAt_iff)

lemma ExpiredAt_no_ttl: "TTL m = 0 \<Longrightarrow> \<not> ExpiredAt m now"
  by (simp add: ExpiredAt_def)

subsection \<open>Queue descriptors\<close>

record QueueMetadata =
  md_ID :: string
  md_Name :: string
  md_Capacity :: int

record QueueStatus =
  st_ID :: string
  st_Name :: string
  st_Size :: int
  st_Capacity :: int

subsection \<open>The queue port\<close>

text \<open>
  \<open>domain.Queue\<close>, an interface value: a record of the operations of some implementation with
  state \<open>'q\<close>. \<open>Pop\<close> and \<open>RemoveExpired\<close> read the clock once, under the queue's lock; the
  reading is an argument.
\<close>

record 'q Queue =
  qPush :: "message \<Rightarrow> 'q \<Rightarrow> (rabbit_error option \<times> 'q) go"
  qPop :: "time \<Rightarrow> 'q \<Rightarrow> ((rabbit_error + message) \<times> 'q) go"
  qSize :: "'q \<Rightarrow> int"
  qCapacity :: "'q \<Rightarrow> int"
  qRemoveExpired :: "time \<Rightarrow> 'q \<Rightarrow> (int \<times> 'q) go"

text \<open>
  The abstract FIFO of an implementation: \<open>spec_push\<close>, \<open>spec_pop\<close> and \<open>spec_sweep\<close> are what
  the three operations do on the list of queued messages, oldest first.
\<close>

definition spec_push :: "int \<Rightarrow> message \<Rightarrow> message list \<Rightarrow> rabbit_error option \<times> message list" where
  "spec_push cap m xs = (if int (length xs) = cap then (Some ErrQueueFull, xs) else (None, xs @ [m]))"

definition spec_pop :: "time \<Rightarrow> message list \<Rightarrow> (rabbit_error + message) \<times> message list" where
  "spec_pop now xs =
     (case dropWhile (\<lambda>m. ExpiredAt m now) xs of
        [] \<Rightarrow> (Inl ErrQueueEmpty, [])
      | m # ys \<Rightarrow> (Inr m, ys))"

lemma spec_pop_empty: "dropWhile (\<lambda>m. ExpiredAt m now) xs = [] \<Longrightarrow> spec_pop now xs = (Inl ErrQueueEmpty, [])"
  by (simp only: spec_pop_def list.case)

lemma spec_pop_head: "dropWhile (\<lambda>m. ExpiredAt m now) xs = m # ys \<Longrightarrow> spec_pop now xs = (Inr m, ys)"
  by (simp only: spec_pop_def list.case)

definition spec_sweep :: "time \<Rightarrow> message list \<Rightarrow> int \<times> message list" where
  "spec_sweep now xs =
     (int (length (filter (\<lambda>m. ExpiredAt m now) xs)), filter (\<lambda>m. \<not> ExpiredAt m now) xs)"

text \<open>
  A client's run: a sequence of calls and the answers it sees, on an implementation
  (\<open>queue_run\<close>) and on the abstract FIFO of capacity \<open>cap\<close> (\<open>spec_run\<close>).
\<close>

datatype queue_op = OpPush message | OpPop time | OpRemoveExpired time | OpSize

datatype queue_answer =
    AnsPush "rabbit_error option"
  | AnsPop "rabbit_error + message"
  | AnsRemoved int
  | AnsSize int

fun queue_call :: "'q Queue \<Rightarrow> queue_op \<Rightarrow> 'q \<Rightarrow> (queue_answer \<times> 'q) go" where
  "queue_call Q (OpPush m) q = go_bind (qPush Q m q) (\<lambda>(e, q'). Ret (AnsPush e, q'))"
| "queue_call Q (OpPop now) q = go_bind (qPop Q now q) (\<lambda>(r, q'). Ret (AnsPop r, q'))"
| "queue_call Q (OpRemoveExpired now) q = go_bind (qRemoveExpired Q now q) (\<lambda>(n, q'). Ret (AnsRemoved n, q'))"
| "queue_call Q OpSize q = Ret (AnsSize (qSize Q q), q)"

fun queue_run :: "'q Queue \<Rightarrow> queue_op list \<Rightarrow> 'q \<Rightarrow> queue_answer list go" where
  "queue_run Q [] q = Ret []"
| "queue_run Q (op # ops) q =
     go_bind (queue_call Q op q) (\<lambda>(a, q'). go_bind (queue_run Q ops q') (\<lambda>as. Ret (a # as)))"

fun spec_call :: "int \<Rightarrow> queue_op \<Rightarrow> message list \<Rightarrow> queue_answer \<times> message list" where
  "spec_call cap (OpPush m) xs = (AnsPush (fst (spec_push cap m xs)), snd (spec_push cap m xs))"
| "spec_call cap (OpPop now) xs = (AnsPop (fst (spec_pop now xs)), snd (spec_pop now xs))"
| "spec_call cap (OpRemoveExpired now) xs =
     (AnsRemoved (fst (spec_sweep now xs)), snd (spec_sweep now xs))"
| "spec_call cap OpSize xs = (AnsSize (int (length xs)), xs)"

fun spec_run :: "int \<Rightarrow> queue_op list \<Rightarrow> message list \<Rightarrow> queue_answer list" where
  "spec_run cap [] xs = []"
| "spec_run cap (op # ops) xs =
     fst (spec_call cap op xs) # spec_run cap ops (snd (spec_call cap op xs))"

locale queue_port =
  fixes Q :: "'q Queue"
    and contents :: "'q \<Rightarrow> message list"
    and qinv :: "'q \<Rightarrow> bool"
  assumes push_ok: "qinv q \<Longrightarrow> \<exists>q'. qPush Q m q = Ret (fst (spec_push (qCapacity Q q) m (contents q)), q')
        \<and> qinv q' \<and> qCapacity Q q' = qCapacity Q q
        \<and> contents q' = snd (spec_push (qCapacity Q q) m (contents q))"
    and pop_ok: "qinv q \<Longrightarrow> \<exists>q'. qPop Q now q = Ret (fst (spec_pop now (contents q)), q')
        \<and> qinv q' \<and> qCapacity Q q' = qCapacity Q q \<and> contents q' = snd (spec_pop now (contents q))"
    and sweep_ok: "qinv q \<Longrightarrow> \<exists>q'. qRemoveExpired Q now q = Ret (fst (spec_sweep now (contents q)), q')
        \<and> qinv q' \<and> qCapacity Q q' = qCapacity Q q \<and> contents q' = snd (spec_sweep now (contents q))"
    and size_ok: "qinv q \<Longrightarrow> qSize Q q = int (length (contents q))"
    and bounded: "qinv q \<Longrightarrow> int (length (contents q)) \<le> qCapacity Q q"

begin

lemma call_refines:
  assumes "qinv q"
  shows "\<exists>q'. queue_call Q op q = Ret (fst (spec_call (qCapacity Q q) op (contents q)), q')
     \<and> qinv q' \<and> qCapacity Q q' = qCapacity Q q
     \<and> contents q' = snd (spec_call (qCapacity Q q) op (contents q))"
proof (cases op)
  case (OpPush m)
  with push_ok [OF assms, of m] show ?thesis by auto
next
  case (OpPop now)
  with pop_ok [OF assms, of now] show ?thesis by auto
next
  case (OpRemoveExpired now)
  with sweep_ok [OF assms, of now] show ?thesis by auto
next
  case OpSize
  with assms size_ok [OF assms] show ?thesis by simp
qed

lemma run_refines:
  "qinv q \<Longrightarrow> queue_run Q ops q = Ret (spec_run (qCapacity Q q) ops (contents q))"
proof (induction ops arbitrary: q)
  case Nil
  then show ?case by simp
next
  case (Cons op ops)
  from call_refines [OF Cons.prems, of op] obtain q' where
    q': "queue_call Q op q = Ret (fst (spec_call (qCapacity Q q) op (contents q)), q')" "qinv q'"
    "qCapacity Q q' = qCapacity Q q" "contents q' = snd (spec_call (qCapacity Q q) op (contents q))"
    by blast
  with Cons.IH [OF q'(2)] show ?case by simp
qed

end

text \<open>Sweeping does not change what later pops deliver, since expiry is permanent.\<close>

lemma dropWhile_filter_imp:
  "(\<And>x. P x \<Longrightarrow> Q x) \<Longrightarrow>
     dropWhile Q (filter (\<lambda>x. \<not> P x) xs) = filter (\<lambda>x. \<not> P x) (dropWhile Q xs)"
  by (induction xs) auto

lemma spec_pop_after_sweep:
  assumes "t \<le> now"
  shows "fst (spec_pop now (snd (spec_sweep t xs))) = fst (spec_pop now xs)
     \<and> snd (spec_pop now (snd (spec_sweep t xs))) = snd (spec_sweep t (snd (spec_pop now xs)))"
proof -
  have imp: "ExpiredAt m t \<Longrightarrow> ExpiredAt m now" for m using assms by (rule ExpiredAt_mono [rotated])
  let ?dw = "dropWhile (\<lambda>m. ExpiredAt m now)"
  have filt: "?dw (snd (spec_sweep t xs)) = filter (\<lambda>m. \<not> ExpiredAt m t) (?dw xs)"
    using imp by (simp add: spec_sweep_def dropWhile_filter_imp)
  show ?thesis
  proof (cases "?dw xs")
    case Nil
    then show ?thesis
      using spec_pop_empty [OF Nil] spec_pop_empty [of now "snd (spec_sweep t xs)"] filt
      by (simp add: spec_sweep_def)
  next
    case (Cons m ys)
    then have "\<not> ExpiredAt m t" using imp by (metis dropWhile_eq_Cons_conv)
    with filt Cons have "?dw (snd (spec_sweep t xs)) = m # filter (\<lambda>m. \<not> ExpiredAt m t) ys" by simp
    from spec_pop_head [OF this] spec_pop_head [OF Cons] show ?thesis by (simp add: spec_sweep_def)
  qed
qed

end
