(* ===== verification/Rabbit_Ring.thy ===== *)
theory Rabbit_Ring
  imports Rabbit_Domain
begin

text \<open>
  Baby-Rabbit, \<open>internal/repository/ring_buffer_queue.go\<close>: the bounded FIFO over a circular
  buffer, with every slice access and every \<open>%\<close> checked as Go checks them. The invariant
  \<open>ring_inv\<close> ties head, tail, size and buffer together; under it no operation panics and each
  one refines its list specification of \<open>Rabbit_Domain\<close>.
\<close>

subsection \<open>State and operations\<close>

record ring =
  rb_buffer :: "message list"
  rb_head :: int
  rb_tail :: int
  rb_size :: int
  rb_capacity :: int

text \<open>\<open>max_len\<close> is the longest message slice the Go run time allocates.\<close>

definition NewRingBufferQueue :: "int \<Rightarrow> int \<Rightarrow> ring go" where
  "NewRingBufferQueue max_len capacity =
     go_bind (make_slice max_len capacity zero_message) (\<lambda>buf.
       Ret \<lparr>rb_buffer = buf, rb_head = 0, rb_tail = 0, rb_size = 0, rb_capacity = capacity\<rparr>)"

definition Push :: "message \<Rightarrow> ring \<Rightarrow> (rabbit_error option \<times> ring) go" where
  "Push msg q =
     (if rb_size q = rb_capacity q then Ret (Some ErrQueueFull, q)
      else go_bind (slice_set (rb_buffer q) (rb_tail q) msg) (\<lambda>buf.
           go_bind (go_mod (rb_tail q + 1) (rb_capacity q)) (\<lambda>t.
           Ret (None, q\<lparr>rb_buffer := buf, rb_tail := t, rb_size := rb_size q + 1\<rparr>))))"

text \<open>
  One turn of the loop of \<open>Pop\<close>: take the message at the head, clear its slot, advance. The
  loop runs while the size is positive, and the size drops by one in every turn.
\<close>

definition pop_turn :: "ring \<Rightarrow> (message \<times> ring) go" where
  "pop_turn q =
     go_bind (slice_get (rb_buffer q) (rb_head q)) (\<lambda>msg.
     go_bind (slice_set (rb_buffer q) (rb_head q) zero_message) (\<lambda>buf.
     go_bind (go_mod (rb_head q + 1) (rb_capacity q)) (\<lambda>h.
     Ret (msg, q\<lparr>rb_buffer := buf, rb_head := h, rb_size := rb_size q - 1\<rparr>))))"

lemma pop_turn_size: "pop_turn q = Ret (msg, q') \<Longrightarrow> rb_size q' = rb_size q - 1"
  by (auto simp: pop_turn_def go_bind_eq_Ret_iff)

function pop_loop :: "time \<Rightarrow> ring \<Rightarrow> ((rabbit_error + message) \<times> ring) go" where
  "pop_loop now q =
     (if rb_size q > 0 then
        (case pop_turn q of
           Panic p \<Rightarrow> Panic p
         | Ret (msg, q') \<Rightarrow> if \<not> ExpiredAt msg now then Ret (Inr msg, q') else pop_loop now q')
      else Ret (Inl ErrQueueEmpty, q))"
  by pat_completeness auto
termination
  by (relation "measure (\<lambda>(now, q). nat (rb_size q))") (auto dest!: pop_turn_size)

declare pop_loop.simps [simp del]

definition Pop :: "time \<Rightarrow> ring \<Rightarrow> ((rabbit_error + message) \<times> ring) go" where
  "Pop now q = pop_loop now q"

definition Size :: "ring \<Rightarrow> int" where
  "Size q = rb_size q"

definition Capacity :: "ring \<Rightarrow> int" where
  "Capacity q = rb_capacity q"

text \<open>
  The copying loop of \<open>RemoveExpired\<close>, from index \<open>i\<close> on, over the new buffer, the next free
  index in it and the count of dropped messages.
\<close>

function sweep_loop ::
  "time \<Rightarrow> ring \<Rightarrow> int \<Rightarrow> message list \<Rightarrow> int \<Rightarrow> int \<Rightarrow> (message list \<times> int \<times> int) go" where
  "sweep_loop now q i newBuffer index removed =
     (if i < rb_size q then
        go_bind (go_mod (rb_head q + i) (rb_capacity q)) (\<lambda>pos.
        go_bind (slice_get (rb_buffer q) pos) (\<lambda>msg.
          if ExpiredAt msg now then sweep_loop now q (i + 1) newBuffer index (removed + 1)
          else go_bind (slice_set newBuffer index msg) (\<lambda>buf.
            sweep_loop now q (i + 1) buf (index + 1) removed)))
      else Ret (newBuffer, index, removed))"
  by pat_completeness auto
termination
  by (relation "measure (\<lambda>(now, q, i, b, x, r). nat (rb_size q - i))") auto

declare sweep_loop.simps [simp del]

text \<open>The buffer allocated by the sweep is as long as the one \<open>New\<close> allocated.\<close>

definition RemoveExpired :: "int \<Rightarrow> time \<Rightarrow> ring \<Rightarrow> (int \<times> ring) go" where
  "RemoveExpired max_len now q =
     go_bind (make_slice max_len (rb_capacity q) zero_message) (\<lambda>newBuffer.
     go_bind (sweep_loop now q 0 newBuffer 0 0) (\<lambda>(buf, index, removed).
     go_bind (go_mod index (rb_capacity q)) (\<lambda>t.
     Ret (removed, q\<lparr>rb_buffer := buf, rb_head := 0, rb_tail := t, rb_size := index\<rparr>))))"

text \<open>The ring buffer as a \<open>domain.Queue\<close>.\<close>

definition ring_queue :: "int \<Rightarrow> ring Queue" where
  "ring_queue max_len =
     \<lparr>qPush = Push, qPop = Pop, qSize = Size, qCapacity = Capacity,
      qRemoveExpired = RemoveExpired max_len\<rparr>"

subsection \<open>Invariant and abstraction\<close>

definition ring_inv :: "int \<Rightarrow> ring \<Rightarrow> bool" where
  "ring_inv max_len q \<longleftrightarrow>
     0 < rb_capacity q \<and> rb_capacity q \<le> max_len \<and>
     int (length (rb_buffer q)) = rb_capacity q \<and>
     0 \<le> rb_head q \<and> rb_head q < rb_capacity q \<and>
     0 \<le> rb_size q \<and> rb_size q \<le> rb_capacity q \<and>
     rb_tail q = (rb_head q + rb_size q) mod rb_capacity q"

definition ring_contents :: "ring \<Rightarrow> message list" where
  "ring_contents q = take (nat (rb_size q)) (rotate (nat (rb_head q)) (rb_buffer q))"

text \<open>
  The same state over natural numbers, where the lemmas on rotations live: \<open>h\<close>, \<open>n\<close> and \<open>c\<close>
  are head, size and capacity.
\<close>

lemma ring_invE:
  assumes "ring_inv max_len q"
  obtains h n c where "rb_head q = int h" "rb_size q = int n" "rb_capacity q = int c"
    "rb_tail q = int ((h + n) mod c)" "length (rb_buffer q) = c" "0 < c" "h < c" "n \<le> c"
    "int c \<le> max_len" "ring_contents q = take n (rotate h (rb_buffer q))"
proof
  show "rb_tail q = int ((nat (rb_head q) + nat (rb_size q)) mod nat (rb_capacity q))"
    using assms by (simp add: ring_inv_def zmod_int)
qed (use assms in \<open>auto simp: ring_inv_def ring_contents_def\<close>)

lemma length_ring_contents: "ring_inv max_len q \<Longrightarrow> int (length (ring_contents q)) = rb_size q"
  by (elim ring_invE) simp

subsection \<open>No panic, and refinement of the list specification\<close>

lemma New_ok:
  assumes "0 < cap" "cap \<le> max_len"
  shows "\<exists>q. NewRingBufferQueue max_len cap = Ret q \<and> ring_inv max_len q \<and> ring_contents q = []
     \<and> rb_capacity q = cap"
  using assms by (auto simp: NewRingBufferQueue_def ring_inv_def ring_contents_def go_simps)

lemma New_panics: "cap < 0 \<or> max_len < cap \<Longrightarrow> NewRingBufferQueue max_len cap = Panic MakeSliceLen"
  by (auto simp: NewRingBufferQueue_def make_slice_def)

lemma Push_full: "rb_size q = rb_capacity q \<Longrightarrow> Push m q = Ret (Some ErrQueueFull, q)"
  by (simp add: Push_def)

lemma Push_room:
  assumes "ring_inv max_len q" "rb_size q < rb_capacity q"
  shows "\<exists>q'. Push m q = Ret (None, q') \<and> ring_inv max_len q' \<and> rb_capacity q' = rb_capacity q
     \<and> ring_contents q' = ring_contents q @ [m]"
proof -
  obtain h n c where q: "rb_head q = int h" "rb_size q = int n" "rb_capacity q = int c"
    "rb_tail q = int ((h + n) mod c)" "length (rb_buffer q) = c" "0 < c" "h < c" "n \<le> c"
    "int c \<le> max_len" "ring_contents q = take n (rotate h (rb_buffer q))"
    using assms(1) by (rule ring_invE)
  have "n < c" using assms(2) q by simp
  define t where "t = (h + n) mod c"
  let ?q' = "q\<lparr>rb_buffer := (rb_buffer q)[t := m], rb_tail := int (Suc t mod c),
    rb_size := int n + 1\<rparr>"
  have t: "t < c" "rb_tail q = int t" using q by (simp_all add: t_def)
  then have "Push m q = Ret (None, ?q')"
    using q \<open>n < c\<close> by (simp add: Push_def slice_set_ok go_mod_int_Suc del: of_nat_Suc)
  moreover have "int (Suc t mod c) = (int h + (int n + 1)) mod int c"
    by (simp add: t_def zmod_int mod_simps algebra_simps)
  then have "ring_inv max_len ?q'"
    using q \<open>n < c\<close> by (simp add: ring_inv_def)
  moreover have "ring_contents ?q' = ring_contents q @ [m]"
    using take_rotate_append [of n "rb_buffer q" h m] q \<open>n < c\<close>
    by (simp add: ring_contents_def t_def nat_add_distrib)
  ultimately show ?thesis by auto
qed

lemma pop_turn_ok:
  assumes "ring_inv max_len q" "0 < rb_size q"
  shows "\<exists>q'. pop_turn q = Ret (hd (ring_contents q), q') \<and> ring_inv max_len q'
     \<and> rb_capacity q' = rb_capacity q \<and> ring_contents q = hd (ring_contents q) # ring_contents q'"
proof -
  obtain h n c where q: "rb_head q = int h" "rb_size q = int n" "rb_capacity q = int c"
    "rb_tail q = int ((h + n) mod c)" "length (rb_buffer q) = c" "0 < c" "h < c" "n \<le> c"
    "int c \<le> max_len" "ring_contents q = take n (rotate h (rb_buffer q))"
    using assms(1) by (rule ring_invE)
  have n: "0 < n" using assms(2) q by simp
  let ?buf = "(rb_buffer q)[h := zero_message]"
  let ?q' = "q\<lparr>rb_buffer := ?buf, rb_head := int (Suc h mod c), rb_size := int n - 1\<rparr>"
  have turn: "pop_turn q = Ret (rb_buffer q ! h, ?q')"
    using q by (simp add: pop_turn_def slice_get_ok slice_set_ok go_mod_int_Suc)
  have nn: "nat (int n - 1) = n - 1" using n by simp
  have "rotate (Suc h mod c) ?buf = rotate (Suc h) ?buf"
    using q by (intro rotate_mod_length) simp
  then have split: "ring_contents q = rb_buffer q ! h # ring_contents ?q'"
    using take_rotate_Cons [of n "rb_buffer q" h zero_message] q n
    by (simp add: ring_contents_def nn del: rotate_Suc)
  have "int ((h + n) mod c) = (int (Suc h mod c) + (int n - 1)) mod int c"
    using mod_add_left_eq [of "int (Suc h)" "int c" "int n - 1"] by (simp add: zmod_int)
  then have "ring_inv max_len ?q'"
    using q n by (simp add: ring_inv_def)
  with turn split show ?thesis by auto
qed

lemma pop_loop_ok:
  assumes "ring_inv max_len q"
  shows "\<exists>q'. pop_loop now q = Ret (fst (spec_pop now (ring_contents q)), q') \<and> ring_inv max_len q'
     \<and> rb_capacity q' = rb_capacity q \<and> ring_contents q' = snd (spec_pop now (ring_contents q))"
  using assms
proof (induction now q rule: pop_loop.induct)
  case (1 now q)
  show ?case
  proof (cases "0 < rb_size q")
    case False
    then have "rb_size q = 0" using "1.prems" by (simp add: ring_inv_def)
    then show ?thesis
      using "1.prems" by (simp add: pop_loop.simps [of now q] ring_contents_def spec_pop_def)
  next
    case True
    obtain q1 where turn: "pop_turn q = Ret (hd (ring_contents q), q1)" and inv1: "ring_inv max_len q1"
      and cap1: "rb_capacity q1 = rb_capacity q"
      and split: "ring_contents q = hd (ring_contents q) # ring_contents q1"
      using pop_turn_ok [OF "1.prems" True] by blast
    show ?thesis
    proof (cases "ExpiredAt (hd (ring_contents q)) now")
      case False
      with True turn inv1 cap1 split show ?thesis
        by (simp add: pop_loop.simps [of now q] spec_pop_def) (metis (no_types, lifting) dropWhile.simps(2)
            fst_conv list.simps(5) snd_conv)
    next
      case expired: True
      have "spec_pop now (ring_contents q) = spec_pop now (ring_contents q1)"
        using split expired by (metis (no_types, lifting) dropWhile.simps(2) spec_pop_def)
      moreover have "pop_loop now q = pop_loop now q1"
        using True turn expired by (simp add: pop_loop.simps [of now q])
      ultimately show ?thesis
        using "1.IH" [OF True turn] expired inv1 cap1 by simp
    qed
  qed
qed

lemma sweep_loop_ok:
  assumes q: "rb_head q = int h" "rb_size q = int n" "rb_capacity q = int c" "0 < c" "n \<le> c"
    "length (rb_buffer q) = c" "xs = take n (rotate h (rb_buffer q))"
  shows "i + length ys = n \<Longrightarrow> ys = drop i xs \<Longrightarrow> x + length ys \<le> length nb \<Longrightarrow>
    \<exists>buf. sweep_loop now q (int i) nb (int x) r =
      Ret (buf, int (x + length (filter (\<lambda>m. \<not> ExpiredAt m now) ys)),
           r + int (length (filter (\<lambda>m. ExpiredAt m now) ys)))
    \<and> length buf = length nb
    \<and> take (x + length (filter (\<lambda>m. \<not> ExpiredAt m now) ys)) buf
        = take x nb @ filter (\<lambda>m. \<not> ExpiredAt m now) ys"
proof (induction ys arbitrary: i x nb r)
  case Nil
  then show ?case using q by (simp add: sweep_loop.simps)
next
  case (Cons y ys)
  have len: "length xs = n" using q by simp
  have i: "i < n" using Cons.prems(1) by simp
  have y: "y = xs ! i" and ys: "ys = drop (Suc i) xs"
    using Cons.prems(2) i len by (simp_all add: Cons_nth_drop_Suc [symmetric])
  have get: "slice_get (rb_buffer q) (int ((h + i) mod c)) = Ret y"
    using q i y by (simp add: slice_get_def nth_rotate)
  have pos: "go_mod (int h + int i) (int c) = Ret (int ((h + i) mod c))"
    using go_mod_int [of c "h + i"] q by simp
  have Suc: "int i + 1 = int (Suc i)" "int x + 1 = int (Suc x)" by simp_all
  show ?case
  proof (cases "ExpiredAt y now")
    case True
    have "sweep_loop now q (int i) nb (int x) r = sweep_loop now q (int (Suc i)) nb (int x) (r + 1)"
      using q i True pos get by (simp add: sweep_loop.simps [of now q "int i"] Suc del: of_nat_Suc)
    then show ?thesis
      using Cons.IH [OF _ ys, of x nb "r + 1"] Cons.prems(1,3) True by (simp add: add.assoc)
  next
    case False
    have x: "x < length nb" using Cons.prems(3) by simp
    have "sweep_loop now q (int i) nb (int x) r
        = sweep_loop now q (int (Suc i)) (nb[x := y]) (int (Suc x)) r"
      using q i False pos get x
      by (simp add: sweep_loop.simps [of now q "int i"] slice_set_ok Suc del: of_nat_Suc)
    then show ?thesis
      using Cons.IH [OF _ ys, of "Suc x" "nb[x := y]" r] Cons.prems(1,3) False x
      by (simp add: take_Suc_conv_app_nth)
  qed
qed

lemma RemoveExpired_ok:
  assumes "ring_inv max_len q"
  shows "\<exists>q'. RemoveExpired max_len now q = Ret (fst (spec_sweep now (ring_contents q)), q')
     \<and> ring_inv max_len q' \<and> rb_capacity q' = rb_capacity q
     \<and> ring_contents q' = snd (spec_sweep now (ring_contents q))"
proof -
  obtain h n c where q: "rb_head q = int h" "rb_size q = int n" "rb_capacity q = int c"
    "rb_tail q = int ((h + n) mod c)" "length (rb_buffer q) = c" "0 < c" "h < c" "n \<le> c"
    "int c \<le> max_len" "ring_contents q = take n (rotate h (rb_buffer q))"
    using assms by (rule ring_invE)
  let ?keep = "filter (\<lambda>m. \<not> ExpiredAt m now) (ring_contents q)"
  let ?drop = "filter (\<lambda>m. ExpiredAt m now) (ring_contents q)"
  obtain buf where loop: "sweep_loop now q 0 (replicate c zero_message) 0 0
      = Ret (buf, int (length ?keep), int (length ?drop))"
    and buf: "length buf = c" "take (length ?keep) buf = ?keep"
    using sweep_loop_ok [OF q(1-3,6,8,5,10), of 0 "ring_contents q" 0 "replicate c zero_message" now 0] q
    by auto
  have le: "length ?keep \<le> c"
    using length_filter_le [of "\<lambda>m. \<not> ExpiredAt m now" "ring_contents q"] q by simp
  let ?q' = "q\<lparr>rb_buffer := buf, rb_head := 0, rb_tail := int (length ?keep mod c),
    rb_size := int (length ?keep)\<rparr>"
  have "RemoveExpired max_len now q = Ret (int (length ?drop), ?q')"
    using q loop by (simp add: RemoveExpired_def make_slice_ok go_mod_int)
  moreover have "ring_inv max_len ?q'"
    using q buf le by (simp add: ring_inv_def zmod_int)
  moreover have "ring_contents ?q' = ?keep"
    using buf by (simp add: ring_contents_def)
  ultimately show ?thesis by (simp add: spec_sweep_def)
qed

text \<open>
  A queue of capacity zero, which the use case never creates, answers \<open>Push\<close> and \<open>Pop\<close> with
  errors, but its sweep divides by zero.
\<close>

lemma zero_capacity_sweep_panics:
  assumes "0 \<le> max_len"
  shows "\<exists>q. NewRingBufferQueue max_len 0 = Ret q \<and> Push m q = Ret (Some ErrQueueFull, q)
     \<and> Pop now q = Ret (Inl ErrQueueEmpty, q) \<and> RemoveExpired max_len now q = Panic DivideByZero"
  using assms
  by (auto simp: NewRingBufferQueue_def Push_def Pop_def RemoveExpired_def go_simps
      pop_loop.simps sweep_loop.simps)

subsection \<open>The ring buffer is a queue\<close>

interpretation ring: queue_port "ring_queue max_len" ring_contents "ring_inv max_len"
proof (unfold_locales, goal_cases)
  case (1 q m)
  show ?case
  proof (cases "rb_size q = rb_capacity q")
    case True
    with 1 show ?thesis
      by (simp add: ring_queue_def Push_full spec_push_def length_ring_contents Capacity_def)
  next
    case False
    then have "rb_size q < rb_capacity q" using 1 by (simp add: ring_inv_def)
    from Push_room [OF 1 this, of m] False show ?thesis
      by (simp add: ring_queue_def spec_push_def length_ring_contents [OF 1] Capacity_def)
  qed
next
  case (2 q now)
  from pop_loop_ok [OF this] show ?case by (simp add: ring_queue_def Pop_def Capacity_def)
next
  case (3 q now)
  from RemoveExpired_ok [OF this] show ?case by (simp add: ring_queue_def Capacity_def)
next
  case (4 q)
  from length_ring_contents [OF this] show ?case by (simp add: ring_queue_def Size_def)
next
  case (5 q)
  from length_ring_contents [OF this] this show ?case
    by (simp add: ring_queue_def Capacity_def ring_inv_def)
qed

end
