(* ===== verification/Rabbit_Manager.thy ===== *)
theory Rabbit_Manager
  imports Rabbit_Ring
begin

text \<open>
  Baby-Rabbit, \<open>internal/repository/queue_manager.go\<close>: the in-memory collection of queues. Queue
  objects are shared by reference (\<open>GetQueue\<close> hands out a pointer that is used after the
  manager's lock is released), so the manager keeps them in a heap and its map holds references.
  The manager is generic in the queue implementation, which an injected factory builds; the
  locale \<open>queue_factory\<close> is the contract of that factory.
\<close>

subsection \<open>State and operations\<close>

record 'q QueueManager =
  qm_factory :: "QueueMetadata \<Rightarrow> 'q go"
  qm_queues :: "string \<rightharpoonup> nat"
  qm_metadata :: "string \<rightharpoonup> QueueMetadata"
  qm_nameIndex :: "string \<rightharpoonup> string"
  qm_heap :: "'q list"

definition RingBufferFactory_New :: "int \<Rightarrow> QueueMetadata \<Rightarrow> ring go" where
  "RingBufferFactory_New max_len meta = NewRingBufferQueue max_len (md_Capacity meta)"

text \<open>A nil factory is replaced by one that builds ring buffers.\<close>

definition NewQueueManager :: "int \<Rightarrow> (QueueMetadata \<Rightarrow> ring go) option \<Rightarrow> ring QueueManager" where
  "NewQueueManager max_len factory =
     \<lparr>qm_factory = (case factory of
        None \<Rightarrow> (\<lambda>meta. NewRingBufferQueue max_len (md_Capacity meta)) | Some f \<Rightarrow> f),
      qm_queues = Map.empty, qm_metadata = Map.empty, qm_nameIndex = Map.empty, qm_heap = []\<rparr>"

definition CreateQueue ::
  "QueueMetadata \<Rightarrow> 'q QueueManager \<Rightarrow> (rabbit_error option \<times> 'q QueueManager) go" where
  "CreateQueue meta m =
     (case qm_nameIndex m (md_Name meta) of
        Some _ \<Rightarrow> Ret (Some ErrQueueAlreadyExists, m)
      | None \<Rightarrow> go_bind (qm_factory m meta) (\<lambda>q.
          Ret (None, m\<lparr>qm_heap := qm_heap m @ [q],
            qm_queues := (qm_queues m)(md_ID meta \<mapsto> length (qm_heap m)),
            qm_metadata := (qm_metadata m)(md_ID meta \<mapsto> meta),
            qm_nameIndex := (qm_nameIndex m)(md_Name meta \<mapsto> md_ID meta)\<rparr>)))"

definition GetQueue :: "string \<Rightarrow> 'q QueueManager \<Rightarrow> rabbit_error + nat" where
  "GetQueue i m = (case qm_queues m i of None \<Rightarrow> Inl ErrQueueNotFound | Some r \<Rightarrow> Inr r)"

definition GetMetadata :: "string \<Rightarrow> 'q QueueManager \<Rightarrow> rabbit_error + QueueMetadata" where
  "GetMetadata i m = (case qm_metadata m i of None \<Rightarrow> Inl ErrQueueNotFound | Some md \<Rightarrow> Inr md)"

text \<open>\<open>es\<close> is the order in which the run time visits the metadata map.\<close>

definition ListQueues :: "(string \<times> QueueMetadata) list \<Rightarrow> QueueMetadata list" where
  "ListQueues es = map snd es"

text \<open>An operation \<open>f\<close> of the queue object behind reference \<open>r\<close>: the object changes in place.\<close>

definition call_queue ::
  "('q \<Rightarrow> ('r \<times> 'q) go) \<Rightarrow> nat \<Rightarrow> 'q QueueManager \<Rightarrow> ('r \<times> 'q QueueManager) go" where
  "call_queue f r m =
     go_bind (f (qm_heap m ! r)) (\<lambda>(x, q). Ret (x, m\<lparr>qm_heap := (qm_heap m)[r := q]\<rparr>))"

subsection \<open>Invariant\<close>

text \<open>
  The three maps agree, every reference points into the heap, no two queues share an object,
  and every object is well formed and has the capacity its descriptor says.
\<close>

definition manager_inv :: "('q \<Rightarrow> bool) \<Rightarrow> ('q \<Rightarrow> int) \<Rightarrow> 'q QueueManager \<Rightarrow> bool" where
  "manager_inv qinv cap m \<longleftrightarrow>
     dom (qm_queues m) = dom (qm_metadata m) \<and>
     (\<forall>i md. qm_metadata m i = Some md \<longrightarrow>
        md_ID md = i \<and> 0 < md_Capacity md \<and> qm_nameIndex m (md_Name md) = Some i) \<and>
     (\<forall>nm i. qm_nameIndex m nm = Some i \<longrightarrow>
        (\<exists>md. qm_metadata m i = Some md \<and> md_Name md = nm)) \<and>
     (\<forall>i j r. qm_queues m i = Some r \<and> qm_queues m j = Some r \<longrightarrow> i = j) \<and>
     (\<forall>i r md. qm_queues m i = Some r \<and> qm_metadata m i = Some md \<longrightarrow>
        r < length (qm_heap m) \<and> qinv (qm_heap m ! r) \<and> cap (qm_heap m ! r) = md_Capacity md)"

lemma manager_invI:
  assumes "dom (qm_queues m) = dom (qm_metadata m)"
    and "\<And>i md. qm_metadata m i = Some md \<Longrightarrow>
       md_ID md = i \<and> 0 < md_Capacity md \<and> qm_nameIndex m (md_Name md) = Some i"
    and "\<And>nm i. qm_nameIndex m nm = Some i \<Longrightarrow> \<exists>md. qm_metadata m i = Some md \<and> md_Name md = nm"
    and "\<And>i j r. qm_queues m i = Some r \<Longrightarrow> qm_queues m j = Some r \<Longrightarrow> i = j"
    and "\<And>i r md. qm_queues m i = Some r \<Longrightarrow> qm_metadata m i = Some md \<Longrightarrow>
       r < length (qm_heap m) \<and> qinv (qm_heap m ! r) \<and> cap (qm_heap m ! r) = md_Capacity md"
  shows "manager_inv qinv cap m"
  unfolding manager_inv_def using assms by blast

lemma manager_inv_same_dom:
  "manager_inv qinv cap m \<Longrightarrow> qm_queues m i = Some r \<Longrightarrow> \<exists>md. qm_metadata m i = Some md"
  by (auto simp: manager_inv_def dom_def set_eq_iff)

lemma manager_inv_same_dom':
  "manager_inv qinv cap m \<Longrightarrow> qm_metadata m i = Some md \<Longrightarrow> \<exists>r. qm_queues m i = Some r"
  by (auto simp: manager_inv_def dom_def set_eq_iff)

lemma manager_inv_object:
  assumes "manager_inv qinv cap m" "qm_queues m i = Some r"
  obtains md where "qm_metadata m i = Some md" "r < length (qm_heap m)" "qinv (qm_heap m ! r)"
    "cap (qm_heap m ! r) = md_Capacity md"
  using manager_inv_same_dom [OF assms] assms that by (auto simp: manager_inv_def)

lemma manager_inv_unshared:
  "manager_inv qinv cap m \<Longrightarrow> qm_queues m i = Some r \<Longrightarrow> qm_queues m j = Some r \<Longrightarrow> i = j"
  by (auto simp: manager_inv_def)

lemma manager_inv_metadata:
  "manager_inv qinv cap m \<Longrightarrow> qm_metadata m i = Some md \<Longrightarrow>
     md_ID md = i \<and> 0 < md_Capacity md \<and> qm_nameIndex m (md_Name md) = Some i"
  by (auto simp: manager_inv_def)

lemma manager_inv_names:
  "manager_inv qinv cap m \<Longrightarrow> qm_nameIndex m nm = Some i \<Longrightarrow>
     \<exists>md. qm_metadata m i = Some md \<and> md_Name md = nm"
  by (auto simp: manager_inv_def)

text \<open>An object may be replaced by any well-formed object of the same capacity.\<close>

lemma manager_inv_heap_update:
  assumes "manager_inv qinv cap m" "qinv q" "cap q = cap (qm_heap m ! r)"
  shows "manager_inv qinv cap (m\<lparr>qm_heap := (qm_heap m)[r := q]\<rparr>)"
proof (rule manager_invI, goal_cases)
  case (5 i r' md)
  then show ?case
    using assms by (cases "r' = r") (auto simp: manager_inv_def)
qed (use assms(1) in \<open>auto simp: manager_inv_def\<close>)

lemma manager_inv_new: "manager_inv qinv cap (NewQueueManager max_len factory)"
  by (simp add: manager_inv_def NewQueueManager_def)

subsection \<open>Creation\<close>

locale queue_factory = queue_port Q contents qinv
  for Q :: "'q Queue" and contents :: "'q \<Rightarrow> message list" and qinv :: "'q \<Rightarrow> bool" +
  fixes factory :: "QueueMetadata \<Rightarrow> 'q go"
  assumes factory_ok: "factory meta = Ret q \<Longrightarrow> 0 < md_Capacity meta \<Longrightarrow>
    qinv q \<and> contents q = [] \<and> qCapacity Q q = md_Capacity meta"
begin

lemma CreateQueue_duplicate:
  "qm_nameIndex m (md_Name meta) = Some i \<Longrightarrow> CreateQueue meta m = Ret (Some ErrQueueAlreadyExists, m)"
  by (simp add: CreateQueue_def)

lemma CreateQueue_inv:
  assumes "manager_inv qinv (qCapacity Q) m" "qm_factory m = factory" "0 < md_Capacity meta"
    and fresh: "qm_metadata m (md_ID meta) = None"
    and new: "CreateQueue meta m = Ret (None, m')"
  shows "manager_inv qinv (qCapacity Q) m'"
proof -
  from new obtain q where nm: "qm_nameIndex m (md_Name meta) = None" and q: "factory meta = Ret q"
    and m': "m' = m\<lparr>qm_heap := qm_heap m @ [q],
            qm_queues := (qm_queues m)(md_ID meta \<mapsto> length (qm_heap m)),
            qm_metadata := (qm_metadata m)(md_ID meta \<mapsto> meta),
            qm_nameIndex := (qm_nameIndex m)(md_Name meta \<mapsto> md_ID meta)\<rparr>"
    using assms(2) by (auto simp: CreateQueue_def go_bind_eq_Ret_iff split: option.splits)
  have ok: "qinv q" "qCapacity Q q = md_Capacity meta"
    using factory_ok [OF q assms(3)] by auto
  have refs: "r < length (qm_heap m)" if "qm_queues m i = Some r" for i r
    using assms(1) that by (rule manager_inv_object)
  have names: "md_Name md \<noteq> md_Name meta" if "qm_metadata m i = Some md" for i md
    using manager_inv_metadata [OF assms(1) that] nm by auto
  have ids: "i \<noteq> md_ID meta" if "qm_nameIndex m nm = Some i" for nm i
    using manager_inv_names [OF assms(1) that] fresh by auto
  show ?thesis
  proof (rule manager_invI, goal_cases)
    case 1
    then show ?case using assms(1) by (simp add: m' manager_inv_def)
  next
    case (2 i md)
    then show ?case
      using manager_inv_metadata [OF assms(1)] assms(3) names by (auto simp: m' split: if_splits)
  next
    case (3 nm i)
    show ?case
    proof (cases "nm = md_Name meta")
      case True
      with 3 show ?thesis by (simp add: m')
    next
      case False
      with 3 have old: "qm_nameIndex m nm = Some i" by (simp add: m')
      from manager_inv_names [OF assms(1) this] ids [OF this] show ?thesis by (simp add: m')
    qed
  next
    case (4 i j r)
    have old: "qm_queues m k = Some s \<and> s < length (qm_heap m)"
      if "qm_queues m' k = Some s" "k \<noteq> md_ID meta" for k s
      using that refs [of k s] by (simp add: m')
    have new: "s = length (qm_heap m)" if "qm_queues m' (md_ID meta) = Some s" for s
      using that by (simp add: m')
    show ?case
      using 4 old [of i r] old [of j r] new [of r] manager_inv_unshared [OF assms(1), of i r j]
      by (metis less_irrefl)
  next
    case (5 i r md)
    show ?case
    proof (cases "i = md_ID meta")
      case True
      with 5 ok show ?thesis by (auto simp: m')
    next
      case False
      with 5 have old: "qm_queues m i = Some r" "qm_metadata m i = Some md" by (simp_all add: m')
      with assms(1) have "r < length (qm_heap m) \<and> qinv (qm_heap m ! r)
          \<and> qCapacity Q (qm_heap m ! r) = md_Capacity md"
        by (auto simp: manager_inv_def)
      then show ?thesis by (auto simp: m' nth_append)
    qed
  qed
qed

end

interpretation ring_factory:
  queue_factory "ring_queue max_len" ring_contents "ring_inv max_len" "RingBufferFactory_New max_len"
proof (unfold_locales, goal_cases)
  case (1 meta q)
  then have "md_Capacity meta \<le> max_len"
    by (auto simp: RingBufferFactory_New_def NewRingBufferQueue_def make_slice_def split: if_splits)
  from New_ok [OF 1(2) this] 1(1) show ?case
    by (auto simp: RingBufferFactory_New_def ring_queue_def Capacity_def)
qed

subsection \<open>Listing\<close>

lemma ListQueues_complete:
  "is_iteration (qm_metadata m) es \<Longrightarrow>
     set (ListQueues es) = {md. \<exists>i. qm_metadata m i = Some md}"
  by (force simp: ListQueues_def is_iteration_set)

lemma ListQueues_distinct:
  assumes "manager_inv qinv cap m" "is_iteration (qm_metadata m) es"
  shows "distinct (map md_ID (ListQueues es))"
proof -
  have "map md_ID (ListQueues es) = map fst es"
    using assms(2) manager_inv_metadata [OF assms(1)]
    by (auto simp: ListQueues_def is_iteration_mem)
  then show ?thesis using assms(2) by (simp add: is_iteration_distinct)
qed

end
