(* ===== verification/Go_Strings.thy ===== *)
theory Go_Strings
  imports Go_Base "HOL-Library.Sublist"
begin

text \<open>
  The functions of Go's package \<open>strings\<close> that the programs call, on byte strings: a Go string
  is a sequence of bytes, so is an Isabelle \<open>string\<close>. Text in UTF-8 is several bytes per rune.
\<close>

subsection \<open>TrimSpace\<close>

text \<open>
  The white space of \<open>unicode.IsSpace\<close>: the six ASCII characters, and the UTF-8 encodings of
  U+0085, U+00A0, U+1680, U+2000 to U+200A, U+2028, U+2029, U+202F, U+205F and U+3000.
\<close>

definition space_encodings :: "string list" where
  "space_encodings =
     [[CHR 0x09], [CHR 0x0A], [CHR 0x0B], [CHR 0x0C], [CHR 0x0D], [CHR 0x20],
      [CHR 0xC2, CHR 0x85], [CHR 0xC2, CHR 0xA0], [CHR 0xE1, CHR 0x9A, CHR 0x80],
      [CHR 0xE2, CHR 0x80, CHR 0x80], [CHR 0xE2, CHR 0x80, CHR 0x81],
      [CHR 0xE2, CHR 0x80, CHR 0x82], [CHR 0xE2, CHR 0x80, CHR 0x83],
      [CHR 0xE2, CHR 0x80, CHR 0x84], [CHR 0xE2, CHR 0x80, CHR 0x85],
      [CHR 0xE2, CHR 0x80, CHR 0x86], [CHR 0xE2, CHR 0x80, CHR 0x87],
      [CHR 0xE2, CHR 0x80, CHR 0x88], [CHR 0xE2, CHR 0x80, CHR 0x89],
      [CHR 0xE2, CHR 0x80, CHR 0x8A], [CHR 0xE2, CHR 0x80, CHR 0xA8],
      [CHR 0xE2, CHR 0x80, CHR 0xA9], [CHR 0xE2, CHR 0x80, CHR 0xAF],
      [CHR 0xE2, CHR 0x81, CHR 0x9F], [CHR 0xE3, CHR 0x80, CHR 0x80]]"

definition leading :: "string list \<Rightarrow> string \<Rightarrow> string option" where
  "leading encs s = find (\<lambda>e. e \<noteq> [] \<and> prefix e s) encs"

lemma leading_Some: "leading encs s = Some e \<Longrightarrow> e \<in> set encs \<and> e \<noteq> [] \<and> prefix e s"
  by (auto simp: leading_def find_Some_iff)

lemma leading_None: "leading encs s = None \<longleftrightarrow> (\<forall>e \<in> set encs. e \<noteq> [] \<longrightarrow> \<not> prefix e s)"
  by (auto simp: leading_def find_None_iff)

function trim_left :: "string list \<Rightarrow> string \<Rightarrow> string" where
  "trim_left encs s =
     (case leading encs s of None \<Rightarrow> s | Some e \<Rightarrow> trim_left encs (drop (length e) s))"
  by pat_completeness auto
termination
  by (relation "measure (\<lambda>(encs, s). length s)") (auto dest!: leading_Some simp: prefix_def)

declare trim_left.simps [simp del]

definition TrimSpace :: "string \<Rightarrow> string" where
  "TrimSpace s =
     rev (trim_left (map rev space_encodings) (rev (trim_left space_encodings s)))"

lemma trim_left_suffix: "suffix (trim_left encs s) s"
proof (induction encs s rule: trim_left.induct)
  case (1 encs s)
  show ?case
  proof (cases "leading encs s")
    case None
    then show ?thesis by (simp add: trim_left.simps [of encs s])
  next
    case (Some e)
    have "suffix (drop (length e) s) s" by (rule suffix_drop)
    with 1 Some show ?thesis
      by (auto simp: trim_left.simps [of encs s] intro: suffix_order.trans)
  qed
qed

lemma trim_left_no_leading: "leading encs (trim_left encs s) = None"
proof (induction encs s rule: trim_left.induct)
  case (1 encs s)
  then show ?case
    by (cases "leading encs s") (simp_all add: trim_left.simps [of encs s])
qed

lemma trim_left_fixed: "leading encs s = None \<Longrightarrow> trim_left encs s = s"
  by (simp add: trim_left.simps [of encs s])

lemma TrimSpace_sublist: "sublist (TrimSpace s) s"
proof -
  let ?t = "trim_left space_encodings s"
  have "suffix (trim_left (map rev space_encodings) (rev ?t)) (rev ?t)" by (rule trim_left_suffix)
  then have "prefix (TrimSpace s) ?t" by (simp add: TrimSpace_def suffix_to_prefix)
  then show ?thesis
    using trim_left_suffix [of space_encodings s]
    by (meson prefix_imp_sublist sublist_order.order.trans suffix_imp_sublist)
qed

text \<open>A trimmed string has no space left on either side, so trimming again changes nothing.\<close>

lemma TrimSpace_idem [simp]: "TrimSpace (TrimSpace s) = TrimSpace s"
proof -
  let ?L = "space_encodings" and ?R = "map rev space_encodings"
  let ?t = "trim_left ?L s"
  have pre: "prefix (TrimSpace s) ?t"
    using trim_left_suffix [of ?R "rev ?t"] by (simp add: TrimSpace_def suffix_to_prefix)
  have "leading ?L (TrimSpace s) = None"
    using trim_left_no_leading [of ?L s] pre unfolding leading_None
    by (meson prefix_order.trans)
  then have left: "trim_left ?L (TrimSpace s) = TrimSpace s"
    by (rule trim_left_fixed)
  have "trim_left ?R (rev (TrimSpace s)) = rev (TrimSpace s)"
    by (simp add: TrimSpace_def trim_left_fixed trim_left_no_leading)
  with left show ?thesis by (simp add: TrimSpace_def [of "TrimSpace s"])
qed

lemma TrimSpace_empty [simp]: "TrimSpace [] = []"
  using TrimSpace_sublist [of "[]"] by simp

end
