(* ===== verification/Rabbit_UseCase.thy ===== *)
theory Rabbit_UseCase
  imports Rabbit_Manager Go_Strings
begin

text \<open>
  Baby-Rabbit, \<open>internal/usecase/queue_usecase.go\<close>: the application service over the manager.
  The identifier generator and the clock are ports; the value each call returns is an argument
  of the model. \<open>broker\<close> is the abstract service, a map from queue identifiers to descriptors and
  message lists, and every operation of the service refines the operation of the same name on it.
\<close>

subsection \<open>Operations\<close>

definition UC_CreateQueue ::
  "string \<Rightarrow> string \<Rightarrow> int \<Rightarrow> 'q QueueManager \<Rightarrow> ((rabbit_error + string) \<times> 'q QueueManager) go" where
  "UC_CreateQueue newID name capacity m =
     (let name = TrimSpace name in
      if name = [] then Ret (Inl ErrInvalidName, m)
      else if capacity \<le> 0 then Ret (Inl ErrInvalidCapacity, m)
      else
        let meta = \<lparr>md_ID = newID, md_Name = name, md_Capacity = capacity\<rparr> in
        go_bind (CreateQueue meta m) (\<lambda>(err, m').
          case err of Some e \<Rightarrow> Ret (Inl e, m') | None \<Rightarrow> Ret (Inr (md_ID meta), m')))"

definition UC_Push ::
  "'q Queue \<Rightarrow> string \<Rightarrow> time \<Rightarrow> string \<Rightarrow> string \<Rightarrow> duration \<Rightarrow> 'q QueueManager
     \<Rightarrow> (rabbit_error option \<times> 'q QueueManager) go" where
  "UC_Push Q newID now queueID value ttl m =
     (if sint ttl < 0 then Ret (Some ErrInvalidTTL, m)
      else case GetQueue queueID m of
        Inl e \<Rightarrow> Ret (Some e, m)
      | Inr r \<Rightarrow>
          call_queue (qPush Q \<lparr>ID = newID, Value = value, CreatedAt = now, TTL = ttl\<rparr>) r m)"

definition UC_Pop ::
  "'q Queue \<Rightarrow> time \<Rightarrow> string \<Rightarrow> 'q QueueManager
     \<Rightarrow> ((rabbit_error + message) \<times> 'q QueueManager) go" where
  "UC_Pop Q now queueID m =
     (case GetQueue queueID m of
        Inl e \<Rightarrow> Ret (Inl e, m)
      | Inr r \<Rightarrow> call_queue (qPop Q now) r m)"

definition UC_Status :: "'q Queue \<Rightarrow> string \<Rightarrow> 'q QueueManager \<Rightarrow> rabbit_error + QueueStatus" where
  "UC_Status Q queueID m =
     (case GetMetadata queueID m of
        Inl e \<Rightarrow> Inl e
      | Inr md \<Rightarrow>
          (case GetQueue queueID m of
             Inl e \<Rightarrow> Inl e
           | Inr r \<Rightarrow> Inr \<lparr>st_ID = md_ID md, st_Name = md_Name md,
               st_Size = qSize Q (qm_heap m ! r), st_Capacity = qCapacity Q (qm_heap m ! r)\<rparr>))"

definition UC_ListQueues :: "(string \<times> QueueMetadata) list \<Rightarrow> QueueMetadata list" where
  "UC_ListQueues es = ListQueues es"

subsection \<open>The abstract broker\<close>

type_synonym broker = "string \<rightharpoonup> QueueMetadata \<times> message list"

definition abs_broker :: "('q \<Rightarrow> message list) \<Rightarrow> 'q QueueManager \<Rightarrow> broker" where
  "abs_broker contents m i =
     (case (qm_metadata m i, qm_queues m i) of
        (Some md, Some r) \<Rightarrow> Some (md, contents (qm_heap m ! r))
      | _ \<Rightarrow> None)"

definition broker_names :: "broker \<Rightarrow> string set" where
  "broker_names b = (\<lambda>(md, xs). md_Name md) ` ran b"

definition broker_create ::
  "string \<Rightarrow> string \<Rightarrow> int \<Rightarrow> broker \<Rightarrow> (rabbit_error + string) \<times> broker" where
  "broker_create newID name cap b =
     (if TrimSpace name = [] then (Inl ErrInvalidName, b)
      else if cap \<le> 0 then (Inl ErrInvalidCapacity, b)
      else if TrimSpace name \<in> broker_names b then (Inl ErrQueueAlreadyExists, b)
      else (Inr newID,
            b(newID \<mapsto> (\<lparr>md_ID = newID, md_Name = TrimSpace name, md_Capacity = cap\<rparr>, []))))"

definition broker_push ::
  "message \<Rightarrow> string \<Rightarrow> broker \<Rightarrow> rabbit_error option \<times> broker" where
  "broker_push msg i b =
     (if sint (TTL msg) < 0 then (Some ErrInvalidTTL, b)
      else case b i of
        None \<Rightarrow> (Some ErrQueueNotFound, b)
      | Some (md, xs) \<Rightarrow>
          (fst (spec_push (md_Capacity md) msg xs),
           b(i \<mapsto> (md, snd (spec_push (md_Capacity md) msg xs)))))"

definition broker_pop :: "time \<Rightarrow> string \<Rightarrow> broker \<Rightarrow> (rabbit_error + message) \<times> broker" where
  "broker_pop now i b =
     (case b i of
        None \<Rightarrow> (Inl ErrQueueNotFound, b)
      | Some (md, xs) \<Rightarrow> (fst (spec_pop now xs), b(i \<mapsto> (md, snd (spec_pop now xs)))))"

definition broker_status :: "string \<Rightarrow> broker \<Rightarrow> rabbit_error + QueueStatus" where
  "broker_status i b =
     (case b i of
        None \<Rightarrow> Inl ErrQueueNotFound
      | Some (md, xs) \<Rightarrow> Inr \<lparr>st_ID = i, st_Name = md_Name md, st_Size = int (length xs),
          st_Capacity = md_Capacity md\<rparr>)"

lemma abs_broker_None:
  "manager_inv qinv cap m \<Longrightarrow> abs_broker contents m i = None \<longleftrightarrow> qm_queues m i = None"
  using manager_inv_same_dom [of qinv cap m i]
  by (cases "qm_queues m i") (auto simp: abs_broker_def split: option.splits)

lemma abs_broker_Some:
  "qm_queues m i = Some r \<Longrightarrow> qm_metadata m i = Some md \<Longrightarrow>
     abs_broker contents m i = Some (md, contents (qm_heap m ! r))"
  by (simp add: abs_broker_def)

lemma broker_names_abs:
  assumes "manager_inv qinv cap m"
  shows "nm \<in> broker_names (abs_broker contents m) \<longleftrightarrow> qm_nameIndex m nm \<noteq> None"
proof
  assume "nm \<in> broker_names (abs_broker contents m)"
  then obtain i md where "qm_metadata m i = Some md" "md_Name md = nm"
    by (auto simp: broker_names_def ran_def abs_broker_def split: option.splits)
  with manager_inv_metadata [OF assms] show "qm_nameIndex m nm \<noteq> None" by auto
next
  assume "qm_nameIndex m nm \<noteq> None"
  then obtain i md where md: "qm_metadata m i = Some md" "md_Name md = nm"
    using manager_inv_names [OF assms] by blast
  obtain r where "qm_queues m i = Some r" using manager_inv_same_dom' [OF assms md(1)] by blast
  from abs_broker_Some [OF this md(1), of contents]
  have "(md, contents (qm_heap m ! r)) \<in> ran (abs_broker contents m)" by (rule ranI)
  with md(2) show "nm \<in> broker_names (abs_broker contents m)"
    by (force simp: broker_names_def)
qed

lemma abs_broker_heap_update:
  assumes "manager_inv qinv cap m" "qm_queues m i = Some r" "qm_metadata m i = Some md"
  shows "abs_broker contents (m\<lparr>qm_heap := (qm_heap m)[r := q]\<rparr>)
    = (abs_broker contents m)(i \<mapsto> (md, contents q))"
proof
  fix j
  have r: "r < length (qm_heap m)" using manager_inv_object [OF assms(1,2)] by blast
  show "abs_broker contents (m\<lparr>qm_heap := (qm_heap m)[r := q]\<rparr>) j
      = ((abs_broker contents m)(i \<mapsto> (md, contents q))) j"
  proof (cases "j = i")
    case True
    with assms r show ?thesis by (simp add: abs_broker_def)
  next
    case False
    then have "qm_queues m j \<noteq> Some r" using manager_inv_unshared [OF assms(1,2)] by blast
    with False show ?thesis by (auto simp: abs_broker_def split: option.splits)
  qed
qed

subsection \<open>Refinement, for any queue implementation\<close>

context queue_factory
begin

lemma call_queue_ok:
  assumes m: "manager_inv qinv (qCapacity Q) m" "qm_queues m i = Some r" "qm_metadata m i = Some md"
    and f: "\<exists>q'. f (qm_heap m ! r) = Ret (x, q') \<and> qinv q' \<and> qCapacity Q q' = qCapacity Q (qm_heap m ! r)
      \<and> contents q' = ys"
  shows "\<exists>m'. call_queue f r m = Ret (x, m') \<and> manager_inv qinv (qCapacity Q) m'
      \<and> abs_broker contents m' = (abs_broker contents m)(i \<mapsto> (md, ys))
      \<and> qm_factory m' = qm_factory m \<and> qm_queues m' = qm_queues m \<and> qm_metadata m' = qm_metadata m"
proof -
  from f obtain q' where q': "f (qm_heap m ! r) = Ret (x, q')" "qinv q'"
    "qCapacity Q q' = qCapacity Q (qm_heap m ! r)" "contents q' = ys" by blast
  then show ?thesis
    using manager_inv_heap_update [where cap = "qCapacity Q", OF m(1) q'(2,3)]
      abs_broker_heap_update [OF m, of contents q']
    by (simp add: call_queue_def)
qed

lemma Push_refines:
  assumes m: "manager_inv qinv (qCapacity Q) m"
    and msg: "msg = \<lparr>ID = newID, Value = value, CreatedAt = now, TTL = ttl\<rparr>"
  shows "\<exists>m'. UC_Push Q newID now i value ttl m
        = Ret (fst (broker_push msg i (abs_broker contents m)), m')
      \<and> manager_inv qinv (qCapacity Q) m'
      \<and> abs_broker contents m' = snd (broker_push msg i (abs_broker contents m))
      \<and> qm_factory m' = qm_factory m \<and> qm_queues m' = qm_queues m \<and> qm_metadata m' = qm_metadata m"
proof (cases "sint ttl < 0 \<or> qm_queues m i = None")
  case True
  with m abs_broker_None [OF m, THEN iffD2] show ?thesis
    by (auto simp: UC_Push_def broker_push_def msg GetQueue_def)
next
  case False
  then obtain r where r: "qm_queues m i = Some r" by auto
  obtain md where md: "qm_metadata m i = Some md" and ok: "qinv (qm_heap m ! r)"
    and cap: "qCapacity Q (qm_heap m ! r) = md_Capacity md"
    using manager_inv_object [OF m r] by blast
  show ?thesis
    using call_queue_ok [where f = "qPush Q msg", OF m r md push_ok [OF ok]] False
    by (simp add: UC_Push_def broker_push_def msg [symmetric] GetQueue_def r cap
        abs_broker_Some [OF r md]) (simp add: msg)
qed

lemma Pop_refines:
  assumes m: "manager_inv qinv (qCapacity Q) m"
  shows "\<exists>m'. UC_Pop Q now i m = Ret (fst (broker_pop now i (abs_broker contents m)), m')
      \<and> manager_inv qinv (qCapacity Q) m'
      \<and> abs_broker contents m' = snd (broker_pop now i (abs_broker contents m))
      \<and> qm_factory m' = qm_factory m \<and> qm_queues m' = qm_queues m \<and> qm_metadata m' = qm_metadata m"
proof (cases "qm_queues m i")
  case None
  with m abs_broker_None [OF m, THEN iffD2, OF None] show ?thesis
    by (simp add: UC_Pop_def broker_pop_def GetQueue_def)
next
  case (Some r)
  obtain md where md: "qm_metadata m i = Some md" and ok: "qinv (qm_heap m ! r)"
    using manager_inv_object [OF m Some] by blast
  show ?thesis
    using call_queue_ok [where f = "qPop Q now", OF m Some md pop_ok [OF ok]]
    by (simp add: UC_Pop_def broker_pop_def GetQueue_def Some abs_broker_Some [OF Some md])
qed

lemma Status_refines:
  assumes m: "manager_inv qinv (qCapacity Q) m"
  shows "UC_Status Q i m = broker_status i (abs_broker contents m)"
proof (cases "qm_queues m i")
  case None
  with manager_inv_same_dom' [OF m, of i] have "qm_metadata m i = None"
    by (cases "qm_metadata m i") auto
  with None m show ?thesis
    by (simp add: UC_Status_def broker_status_def GetMetadata_def GetQueue_def abs_broker_def)
next
  case (Some r)
  obtain md where md: "qm_metadata m i = Some md" and ok: "qinv (qm_heap m ! r)"
    and cap: "qCapacity Q (qm_heap m ! r) = md_Capacity md"
    using manager_inv_object [OF m Some] by blast
  with manager_inv_metadata [OF m md] size_ok [OF ok] show ?thesis
    by (simp add: UC_Status_def broker_status_def GetMetadata_def GetQueue_def Some
        abs_broker_Some [OF Some md])
qed

text \<open>
  A creation that does not panic refines \<open>broker_create\<close>, provided the new identifier is unused.
\<close>

lemma Create_refines:
  assumes m: "manager_inv qinv (qCapacity Q) m" "qm_factory m = factory"
    and fresh: "abs_broker contents m newID = None"
    and run: "UC_CreateQueue newID name cap m = Ret (res, m')"
  shows "res = fst (broker_create newID name cap (abs_broker contents m))
      \<and> abs_broker contents m' = snd (broker_create newID name cap (abs_broker contents m))
      \<and> manager_inv qinv (qCapacity Q) m' \<and> qm_factory m' = factory"
proof (cases "TrimSpace name = [] \<or> cap \<le> 0 \<or> qm_nameIndex m (TrimSpace name) \<noteq> None")
  case True
  with run m show ?thesis
    by (auto simp: UC_CreateQueue_def broker_create_def CreateQueue_def broker_names_abs [OF m(1)]
        split: if_splits)
next
  case False
  let ?meta = "\<lparr>md_ID = newID, md_Name = TrimSpace name, md_Capacity = cap\<rparr>"
  from False run m(2) obtain q where q: "factory ?meta = Ret q" and res: "res = Inr newID"
    and new: "CreateQueue ?meta m = Ret (None, m')"
    and m': "m' = m\<lparr>qm_heap := qm_heap m @ [q], qm_queues := (qm_queues m)(newID \<mapsto> length (qm_heap m)),
            qm_metadata := (qm_metadata m)(newID \<mapsto> ?meta),
            qm_nameIndex := (qm_nameIndex m)(TrimSpace name \<mapsto> newID)\<rparr>"
    by (auto simp: UC_CreateQueue_def CreateQueue_def Let_def go_bind_eq_Ret_iff)
  have none: "qm_queues m newID = None" "qm_metadata m newID = None"
    using fresh abs_broker_None [OF m(1)] manager_inv_same_dom' [OF m(1), of newID]
    by (metis, metis option.exhaust option.distinct(1))
  have "manager_inv qinv (qCapacity Q) m'"
    using CreateQueue_inv [OF m _ _ new] False none by simp
  moreover have "abs_broker contents m' = (abs_broker contents m)(newID \<mapsto> (?meta, []))"
  proof
    fix j
    have "qm_queues m j = Some r \<Longrightarrow> r < length (qm_heap m)" for r
      using manager_inv_object [OF m(1)] by blast
    then show "abs_broker contents m' j = ((abs_broker contents m)(newID \<mapsto> (?meta, []))) j"
      using factory_ok [OF q] False
      by (auto simp: m' abs_broker_def nth_append split: option.splits)
  qed
  ultimately show ?thesis
    using False res m by (auto simp: broker_create_def broker_names_abs [OF m(1)] m')
qed

end

end
