(* ===== verification/Rabbit_Cleaner.thy ===== *)
theory Rabbit_Cleaner
  imports Rabbit_UseCase
begin

text \<open>
  Baby-Rabbit, \<open>internal/service/ttl_cleaner.go\<close>: the background worker that asks every queue to
  drop its expired messages. \<open>run\<close> follows the events the \<open>select\<close> of the worker's loop receives;
  a tick carries the order in which the metadata map is visited and the clock readings of the
  sweeps, by queue identifier.
\<close>

subsection \<open>The logger port\<close>

datatype log_line =
    Debugf_removed int string   \<comment> \<open>ttl cleaner removed \%d expired messages from \%s\<close>
  | Infof_stopped               \<comment> \<open>ttl cleaner stopped\<close>

datatype Logger = Nop | Sink

fun log_to :: "Logger \<Rightarrow> log_line \<Rightarrow> log_line list" where
  "log_to Nop l = []"
| "log_to Sink l = [l]"

subsection \<open>The cleaner\<close>

record TTLCleaner =
  cl_log :: Logger
  cl_interval :: duration

definition NewTTLCleaner :: "Logger option \<Rightarrow> duration \<Rightarrow> TTLCleaner" where
  "NewTTLCleaner log interval =
     \<lparr>cl_log = (case log of None \<Rightarrow> Nop | Some l \<Rightarrow> l),
      cl_interval = (if sint interval \<le> 0 then Second else interval)\<rparr>"

fun sweep_queues ::
  "'q Queue \<Rightarrow> TTLCleaner \<Rightarrow> (string \<Rightarrow> time) \<Rightarrow> QueueMetadata list \<Rightarrow> 'q QueueManager
     \<Rightarrow> (log_line list \<times> 'q QueueManager) go" where
  "sweep_queues Q c clk [] m = Ret ([], m)"
| "sweep_queues Q c clk (meta # metas) m =
     (case GetQueue (md_ID meta) m of
        Inl _ \<Rightarrow> sweep_queues Q c clk metas m
      | Inr r \<Rightarrow>
          go_bind (call_queue (qRemoveExpired Q (clk (md_ID meta))) r m) (\<lambda>(removed, m1).
          go_bind (sweep_queues Q c clk metas m1) (\<lambda>(log, m2).
            Ret ((if removed > 0 then log_to (cl_log c) (Debugf_removed removed (md_Name meta))
                  else []) @ log, m2))))"

definition sweep ::
  "'q Queue \<Rightarrow> TTLCleaner \<Rightarrow> (string \<times> QueueMetadata) list \<Rightarrow> (string \<Rightarrow> time) \<Rightarrow> 'q QueueManager
     \<Rightarrow> (log_line list \<times> 'q QueueManager) go" where
  "sweep Q c es clk m = sweep_queues Q c clk (ListQueues es) m"

datatype cleaner_event = CtxDone | Tick "(string \<times> QueueMetadata) list" "string \<Rightarrow> time"

text \<open>The flag of the result says whether the worker has returned.\<close>

fun run_events ::
  "'q Queue \<Rightarrow> TTLCleaner \<Rightarrow> cleaner_event list \<Rightarrow> 'q QueueManager
     \<Rightarrow> (bool \<times> log_line list \<times> 'q QueueManager) go" where
  "run_events Q c [] m = Ret (False, [], m)"
| "run_events Q c (CtxDone # evs) m = Ret (True, log_to (cl_log c) Infof_stopped, m)"
| "run_events Q c (Tick es clk # evs) m =
     go_bind (sweep Q c es clk m) (\<lambda>(log, m1).
     go_bind (run_events Q c evs m1) (\<lambda>(stopped, log', m2). Ret (stopped, log @ log', m2)))"

definition run ::
  "'q Queue \<Rightarrow> TTLCleaner \<Rightarrow> cleaner_event list \<Rightarrow> 'q QueueManager
     \<Rightarrow> (bool \<times> log_line list \<times> 'q QueueManager) go" where
  "run Q c evs m = go_bind (NewTicker (cl_interval c)) (\<lambda>_. run_events Q c evs m)"

lemma cleaner_interval_positive: "0 < sint (cl_interval (NewTTLCleaner log d))"
  by (simp add: NewTTLCleaner_def Second_def)

subsection \<open>What a sweep does to the broker\<close>

definition broker_sweep :: "(string \<Rightarrow> time) \<Rightarrow> string set \<Rightarrow> broker \<Rightarrow> broker" where
  "broker_sweep clk is b =
     (\<lambda>i. if i \<in> is then map_option (\<lambda>(md, xs). (md, snd (spec_sweep (clk i) xs))) (b i) else b i)"

context queue_factory
begin

lemma sweep_queues_ok:
  assumes "manager_inv qinv (qCapacity Q) m" "distinct (map md_ID metas)"
  shows "\<exists>log m'. sweep_queues Q c clk metas m = Ret (log, m') \<and> manager_inv qinv (qCapacity Q) m'
     \<and> abs_broker contents m' = broker_sweep clk (md_ID ` set metas) (abs_broker contents m)
     \<and> qm_factory m' = qm_factory m \<and> qm_queues m' = qm_queues m \<and> qm_metadata m' = qm_metadata m"
  using assms
proof (induction metas arbitrary: m)
  case Nil
  then show ?case by (simp add: broker_sweep_def)
next
  case (Cons meta metas)
  let ?i = "md_ID meta"
  show ?case
  proof (cases "qm_queues m ?i")
    case None
    obtain log m' where m': "sweep_queues Q c clk metas m = Ret (log, m')"
      "manager_inv qinv (qCapacity Q) m'" "qm_factory m' = qm_factory m"
      "abs_broker contents m' = broker_sweep clk (md_ID ` set metas) (abs_broker contents m)"
      "qm_queues m' = qm_queues m" "qm_metadata m' = qm_metadata m"
      using Cons.IH [OF Cons.prems(1)] Cons.prems(2) by auto
    have "abs_broker contents m ?i = None"
      using abs_broker_None [OF Cons.prems(1), THEN iffD2, OF None] .
    then have "broker_sweep clk (md_ID ` set (meta # metas)) (abs_broker contents m)
        = broker_sweep clk (md_ID ` set metas) (abs_broker contents m)"
      by (auto simp: broker_sweep_def)
    with m' None show ?thesis by (simp add: GetQueue_def)
  next
    case (Some r)
    obtain md where md: "qm_metadata m ?i = Some md" and ok: "qinv (qm_heap m ! r)"
      using manager_inv_object [OF Cons.prems(1) Some] by blast
    let ?now = "clk ?i" and ?xs = "contents (qm_heap m ! r)"
    obtain m1 where m1: "call_queue (qRemoveExpired Q ?now) r m = Ret (fst (spec_sweep ?now ?xs), m1)"
      "manager_inv qinv (qCapacity Q) m1" "qm_factory m1 = qm_factory m"
      "abs_broker contents m1 = (abs_broker contents m)(?i \<mapsto> (md, snd (spec_sweep ?now ?xs)))"
      "qm_queues m1 = qm_queues m" "qm_metadata m1 = qm_metadata m"
      using call_queue_ok [where f = "qRemoveExpired Q ?now", OF Cons.prems(1) Some md sweep_ok [OF ok]]
      by blast
    obtain log m' where m': "sweep_queues Q c clk metas m1 = Ret (log, m')"
      "manager_inv qinv (qCapacity Q) m'" "qm_factory m' = qm_factory m1"
      "abs_broker contents m' = broker_sweep clk (md_ID ` set metas) (abs_broker contents m1)"
      "qm_queues m' = qm_queues m1" "qm_metadata m' = qm_metadata m1"
      using Cons.IH [OF m1(2)] Cons.prems(2) by auto
    have "?i \<notin> md_ID ` set metas" using Cons.prems(2) by auto
    then have "abs_broker contents m'
        = broker_sweep clk (md_ID ` set (meta # metas)) (abs_broker contents m)"
      unfolding m'(4) m1(4) using abs_broker_Some [OF Some md, of contents]
      by (auto simp: broker_sweep_def)
    with m1 m' show ?thesis by (simp add: GetQueue_def Some)
  qed
qed

lemma sweep_ok_all:
  assumes m: "manager_inv qinv (qCapacity Q) m" and es: "is_iteration (qm_metadata m) es"
  shows "\<exists>log m'. sweep Q c es clk m = Ret (log, m') \<and> manager_inv qinv (qCapacity Q) m'
     \<and> abs_broker contents m' = broker_sweep clk UNIV (abs_broker contents m)
     \<and> qm_factory m' = qm_factory m \<and> qm_queues m' = qm_queues m \<and> qm_metadata m' = qm_metadata m"
proof -
  have "broker_sweep clk (md_ID ` set (ListQueues es)) (abs_broker contents m)
      = broker_sweep clk UNIV (abs_broker contents m)"
  proof
    fix i
    have "i \<in> md_ID ` set (ListQueues es)" if "qm_metadata m i = Some md" for md
      using ListQueues_complete [OF es] manager_inv_metadata [OF m that] that by force
    then show "broker_sweep clk (md_ID ` set (ListQueues es)) (abs_broker contents m) i
        = broker_sweep clk UNIV (abs_broker contents m) i"
      by (cases "qm_metadata m i") (auto simp: broker_sweep_def abs_broker_def)
  qed
  with sweep_queues_ok [OF m ListQueues_distinct [OF m es], of c clk] show ?thesis
    by (auto simp: sweep_def)
qed

end

end
