(* ===== verification/Go_Process.thy ===== *)
theory Go_Process
  imports Main
begin

text \<open>
  The life of a program that serves HTTP until a signal, as the three servers of the repository write
  it: a goroutine serves and ends the process when serving fails, the main goroutine waits for the
  signal and shuts the server down. The events are the ends of \<open>ListenAndServe\<close>, with an error or
  closed, and the signal with the result of \<open>Shutdown\<close>; the result is what is logged and the exit
  code, none while the program still serves.
\<close>

datatype server_event = ServeFailed string | ServerClosed | Signalled "string option"

definition serve_until_signal ::
  "string list \<Rightarrow> (string \<Rightarrow> string) \<Rightarrow> string list \<Rightarrow> (string \<Rightarrow> string) \<Rightarrow> server_event list
     \<Rightarrow> string list \<times> nat option" where
  "serve_until_signal start fatal stopping failed events =
     (case dropWhile (\<lambda>e. e = ServerClosed) events of
        ServeFailed err # _ \<Rightarrow> (start @ [fatal err], Some 1)
      | Signalled r # _ \<Rightarrow>
          (start @ stopping @ (case r of None \<Rightarrow> [] | Some err \<Rightarrow> [failed err]), Some 0)
      | _ \<Rightarrow> (start, None))"

text \<open>Only a failure to serve ends the process with an error; a clean run ends with a signal.\<close>

lemma exit_code:
  "snd (serve_until_signal start fatal stopping failed events) = Some 0
     \<longleftrightarrow> (\<exists>r rest. dropWhile (\<lambda>e. e = ServerClosed) events = Signalled r # rest)"
proof (cases "dropWhile (\<lambda>e. e = ServerClosed) events")
  case (Cons e rest)
  then show ?thesis
    using hd_dropWhile [of "\<lambda>e. e = ServerClosed" events]
    by (cases e) (simp_all add: serve_until_signal_def)
qed (simp only: serve_until_signal_def list.case, simp)

lemma serving_prefix:
  "fst (serve_until_signal start fatal stopping failed (e # events)) =
     (if e = ServerClosed then fst (serve_until_signal start fatal stopping failed events)
      else fst (serve_until_signal start fatal stopping failed [e]))"
  by (cases e) (auto simp: serve_until_signal_def)

end
