(* ===== verification/Go_Text.thy ===== *)
theory Go_Text
  imports Go_Strings "HOL-Library.Char_ord"
begin

text \<open>
  Go's \<open>strconv\<close> for decimal integers, UTF-8 (package \<open>utf8\<close> and the conversions between strings
  and runes), and \<open>encoding/json\<close> between JSON values and the fields of a struct.
\<close>

subsection \<open>Decimal integers\<close>

definition digit :: "nat \<Rightarrow> char" where
  "digit d = char_of (48 + d)"

lemma digit_simps [simp]:
  "digit 0 = CHR ''0''" "digit 1 = CHR ''1''" "digit 2 = CHR ''2''" "digit 3 = CHR ''3''"
  "digit 4 = CHR ''4''" "digit 5 = CHR ''5''" "digit 6 = CHR ''6''" "digit 7 = CHR ''7''"
  "digit 8 = CHR ''8''" "digit 9 = CHR ''9''" "digit (Suc 0) = CHR ''1''"
  by (simp_all add: digit_def char_of_def bit_0)

fun digits :: "nat \<Rightarrow> string" where
  "digits n = (if n < 10 then [digit n] else digits (n div 10) @ [digit (n mod 10)])"

declare digits.simps [simp del]

text \<open>\<open>strconv.FormatInt(i, 10)\<close> and \<open>strconv.Itoa\<close>.\<close>

definition FormatInt :: "int \<Rightarrow> string" where
  "FormatInt i = (if i < 0 then CHR ''-'' # digits (nat (- i)) else digits (nat i))"

definition digit_value :: "char \<Rightarrow> nat option" where
  "digit_value c =
     (let n = of_char c :: nat in if 48 \<le> n \<and> n \<le> 57 then Some (n - 48) else None)"

fun parse_digits :: "nat \<Rightarrow> string \<Rightarrow> nat option" where
  "parse_digits acc [] = Some acc"
| "parse_digits acc (c # cs) =
     (case digit_value c of None \<Rightarrow> None | Some d \<Rightarrow> parse_digits (10 * acc + d) cs)"

text \<open>\<open>strconv.ParseInt(s, 10, 64)\<close> and \<open>strconv.Atoi\<close> on a 64-bit machine: an optional sign, at least one digit, in range.\<close>

definition ParseInt :: "string \<Rightarrow> int option" where
  "ParseInt s =
     (let neg = (s \<noteq> [] \<and> hd s = CHR ''-'');
          body = (if s \<noteq> [] \<and> (hd s = CHR ''-'' \<or> hd s = CHR ''+'') then tl s else s) in
      if body = [] then None
      else case parse_digits 0 body of
        None \<Rightarrow> None
      | Some n \<Rightarrow>
          let i = (if neg then - int n else int n) in
          if - (2 ^ 63) \<le> i \<and> i < 2 ^ 63 then Some i else None)"

lemma digit_value_digit [simp]: "d < 10 \<Longrightarrow> digit_value (digit d) = Some d"
  by (simp add: digit_value_def digit_def)

lemma digit_not_sign: "d < 10 \<Longrightarrow> digit d \<noteq> CHR ''-'' \<and> digit d \<noteq> CHR ''+''"
proof
  assume d: "d < 10"
  show "digit d \<noteq> CHR ''-''"
  proof
    assume "digit d = CHR ''-''"
    then have "(of_char (digit d) :: nat) = of_char (CHR ''-'')" by simp
    with d show False by (simp add: digit_def)
  qed
  show "digit d \<noteq> CHR ''+''"
  proof
    assume "digit d = CHR ''+''"
    then have "(of_char (digit d) :: nat) = of_char (CHR ''+'')" by simp
    with d show False by (simp add: digit_def)
  qed
qed

lemma parse_digits_append:
  "parse_digits acc (xs @ ys) = (case parse_digits acc xs of None \<Rightarrow> None | Some n \<Rightarrow> parse_digits n ys)"
  by (induction acc xs rule: parse_digits.induct) (simp_all split: option.split)

lemma parse_digits_digits: "parse_digits 0 (digits n) = Some n"
proof (induction n rule: digits.induct)
  case (1 n)
  then show ?case
    by (cases "n < 10") (simp_all add: digits.simps [of n] parse_digits_append)
qed

lemma digits_decimal: "digits n \<noteq> [] \<and> (\<forall>c \<in> set (digits n). \<exists>d < 10. c = digit d)"
proof (induction n rule: digits.induct)
  case (1 n)
  show ?case
  proof (cases "n < 10")
    case True
    then show ?thesis by (auto simp: digits.simps [of n])
  next
    case False
    with 1 show ?thesis
      by (auto simp: digits.simps [of n] intro: exI [of _ "n mod 10"])
  qed
qed

theorem ParseInt_FormatInt:
  assumes "- (2 ^ 63) \<le> i" "i < 2 ^ 63"
  shows "ParseInt (FormatInt i) = Some i"
proof (cases "i < 0")
  case True
  then show ?thesis
    using assms digits_decimal [of "nat (- i)"]
    by (simp add: ParseInt_def FormatInt_def parse_digits_digits Let_def)
next
  case False
  have "hd (digits (nat i)) \<in> set (digits (nat i))" using digits_decimal by simp
  then have "hd (digits (nat i)) \<noteq> CHR ''-'' \<and> hd (digits (nat i)) \<noteq> CHR ''+''"
    using digits_decimal digit_not_sign by metis
  then show ?thesis
    using False assms digits_decimal [of "nat i"]
    by (simp add: ParseInt_def FormatInt_def parse_digits_digits Let_def)
qed

subsection \<open>UTF-8\<close>

type_synonym rune = nat

definition RuneError :: rune where "RuneError = 0xFFFD"

definition in_range :: "char \<Rightarrow> nat \<Rightarrow> nat \<Rightarrow> bool" where
  "in_range c lo hi \<longleftrightarrow> lo \<le> (of_char c :: nat) \<and> (of_char c :: nat) \<le> hi"

abbreviation tail_byte :: "char \<Rightarrow> bool" where
  "tail_byte c \<equiv> in_range c 0x80 0xBF"

text \<open>
  \<open>utf8.DecodeRuneInString\<close>: the rune at the start of a string and its width. An invalid or
  incomplete sequence gives the replacement rune and width one.
\<close>

definition second_byte_range :: "nat \<Rightarrow> nat \<times> nat" where
  "second_byte_range b =
     (if b = 0xE0 then (0xA0, 0xBF) else if b = 0xED then (0x80, 0x9F)
      else if b = 0xF0 then (0x90, 0xBF) else if b = 0xF4 then (0x80, 0x8F) else (0x80, 0xBF))"

fun decode_rune :: "char \<Rightarrow> string \<Rightarrow> rune \<times> nat" where
  "decode_rune c0 cs =
     (let b = (of_char c0 :: nat); (lo, hi) = second_byte_range b in
      if b < 0x80 then (b, 1)
      else if 0xC2 \<le> b \<and> b \<le> 0xDF then
        (case cs of c1 # _ \<Rightarrow>
           if in_range c1 lo hi then ((b - 0xC0) * 64 + (of_char c1 - 0x80), 2) else (RuneError, 1)
         | _ \<Rightarrow> (RuneError, 1))
      else if 0xE0 \<le> b \<and> b \<le> 0xEF then
        (case cs of c1 # c2 # _ \<Rightarrow>
           if in_range c1 lo hi \<and> tail_byte c2
           then ((b - 0xE0) * 4096 + (of_char c1 - 0x80) * 64 + (of_char c2 - 0x80), 3)
           else (RuneError, 1)
         | _ \<Rightarrow> (RuneError, 1))
      else if 0xF0 \<le> b \<and> b \<le> 0xF4 then
        (case cs of c1 # c2 # c3 # _ \<Rightarrow>
           if in_range c1 lo hi \<and> tail_byte c2 \<and> tail_byte c3
           then ((b - 0xF0) * 262144 + (of_char c1 - 0x80) * 4096 + (of_char c2 - 0x80) * 64
                 + (of_char c3 - 0x80), 4)
           else (RuneError, 1)
         | _ \<Rightarrow> (RuneError, 1))
      else (RuneError, 1))"

lemma decode_width: "0 < snd (decode_rune c cs)"
  by (simp add: Let_def split: prod.split list.split)

text \<open>The runes a \<open>range\<close> loop over a string visits.\<close>

function runes :: "string \<Rightarrow> rune list" where
  "runes [] = []"
| "runes (c # cs) =
     (case decode_rune c cs of (r, w) \<Rightarrow> r # runes (drop (w - 1) cs))"
  by pat_completeness auto
termination
  by (relation "measure length") auto

text \<open>\<open>utf8.AppendRune\<close>: surrogates and values above the last rune become the replacement rune.\<close>

definition valid_rune :: "rune \<Rightarrow> bool" where
  "valid_rune r \<longleftrightarrow> r < 0xD800 \<or> 0xE000 \<le> r \<and> r \<le> 0x10FFFF"

definition encode_rune :: "rune \<Rightarrow> string" where
  "encode_rune r0 =
     (let r = (if valid_rune r0 then r0 else RuneError) in
      if r < 0x80 then [char_of r]
      else if r < 0x800 then [char_of (0xC0 + r div 64), char_of (0x80 + r mod 64)]
      else if r < 0x10000 then
        [char_of (0xE0 + r div 4096), char_of (0x80 + r div 64 mod 64), char_of (0x80 + r mod 64)]
      else
        [char_of (0xF0 + r div 262144), char_of (0x80 + r div 4096 mod 64),
         char_of (0x80 + r div 64 mod 64), char_of (0x80 + r mod 64)])"

text \<open>A string as valid UTF-8, every invalid byte replaced, as \<open>json.Marshal\<close> writes it.\<close>

definition to_valid :: "string \<Rightarrow> string" where
  "to_valid s = concat (map encode_rune (runes s))"

definition ascii :: "string \<Rightarrow> bool" where
  "ascii s \<longleftrightarrow> (\<forall>c \<in> set s. (of_char c :: nat) < 0x80)"

lemma runes_ascii: "ascii s \<Longrightarrow> runes s = map of_char s"
  by (induction s) (simp_all add: ascii_def)

lemma to_valid_ascii [simp]: "ascii s \<Longrightarrow> to_valid s = s"
  unfolding to_valid_def
  by (induction s)
    (simp_all add: ascii_def encode_rune_def valid_rune_def Let_def)

lemma ascii_append [simp]: "ascii (xs @ ys) \<longleftrightarrow> ascii xs \<and> ascii ys"
  by (auto simp: ascii_def)

lemma ascii_digits: "ascii (digits n)"
proof -
  have "(of_char (digit d) :: nat) < 0x80" if "d < 10" for d
    using that by (simp add: digit_def)
  then show ?thesis using digits_decimal [of n] by (auto simp: ascii_def)
qed

lemma ascii_FormatInt [simp]: "ascii (FormatInt i)"
  using ascii_digits [of "nat i"] ascii_digits [of "nat (- i)"]
  by (simp add: FormatInt_def ascii_def)

subsection \<open>JSON values\<close>

text \<open>
  \<open>encoding/json\<close> is modelled between Go structs and JSON values; the text of a value (white
  space, escapes, the order PostgreSQL's \<open>jsonb\<close> keeps the fields in) is not. A number is
  kept as its text.
\<close>

datatype json =
    JNull
  | JBool bool
  | JNum string
  | JStr string
  | JArr "json list"
  | JObj "(string \<times> json) list"

text \<open>
  A key of an object selects a field when the two are equal up to case folding, which for the
  ASCII field names used here adds the long s and the Kelvin sign to the ASCII letters.
\<close>

definition fold_char :: "char \<Rightarrow> char" where
  "fold_char c = (if in_range c 0x41 0x5A then char_of (of_char c + 32 :: nat) else c)"

fun fold_name :: "string \<Rightarrow> string" where
  "fold_name [] = []"
| "fold_name [c] = [fold_char c]"
| "fold_name [c, d] =
     (if c = CHR 0xC5 \<and> d = CHR 0xBF then ''s'' else [fold_char c, fold_char d])"
| "fold_name (c # d # e # cs) =
     (if c = CHR 0xC5 \<and> d = CHR 0xBF then CHR ''s'' # fold_name (e # cs)
      else if c = CHR 0xE2 \<and> d = CHR 0x84 \<and> e = CHR 0xAA then CHR ''k'' # fold_name cs
      else fold_char c # fold_name (d # e # cs))"

definition field_matches :: "string \<Rightarrow> string \<Rightarrow> bool" where
  "field_matches name key \<longleftrightarrow> fold_name key = fold_name name"

text \<open>Decoding into a string field: \<open>null\<close> leaves it as it is, any other kind is an error.\<close>

fun json_string :: "json \<Rightarrow> string \<Rightarrow> string option" where
  "json_string JNull old = Some old"
| "json_string (JStr s) old = Some s"
| "json_string _ old = None"

lemma field_matches_refl [simp]: "field_matches n n"
  by (simp add: field_matches_def)

text \<open>Decoding into an \<open>int\<close> field: \<open>null\<close> leaves it, a number must be a 64-bit integer.\<close>

fun json_int :: "json \<Rightarrow> int \<Rightarrow> int option" where
  "json_int JNull old = Some old"
| "json_int (JNum n) old = ParseInt n"
| "json_int _ old = None"

text \<open>Decoding into a struct: a field of the object goes to the first field of the struct it names.\<close>

fun decode_fields ::
  "(string \<times> (json \<Rightarrow> 'r \<Rightarrow> 'r option)) list \<Rightarrow> (string \<times> json) list \<Rightarrow> 'r \<Rightarrow> 'r option" where
  "decode_fields fs [] r = Some r"
| "decode_fields fs ((k, v) # kvs) r =
     (case find (\<lambda>f. field_matches (fst f) k) fs of
        None \<Rightarrow> decode_fields fs kvs r
      | Some (_, field) \<Rightarrow> (case field v r of None \<Rightarrow> None | Some r' \<Rightarrow> decode_fields fs kvs r'))"

definition decode_struct ::
  "(string \<times> (json \<Rightarrow> 'r \<Rightarrow> 'r option)) list \<Rightarrow> 'r \<Rightarrow> json \<Rightarrow> 'r option" where
  "decode_struct fs zero v =
     (case v of JNull \<Rightarrow> Some zero | JObj kvs \<Rightarrow> decode_fields fs kvs zero | _ \<Rightarrow> None)"

end
