(* ===== verification/Go_Path.thy ===== *)
theory Go_Path
  imports Go_Text
begin

text \<open>
  More of package \<open>strings\<close>, and the packages \<open>path\<close>, \<open>path/filepath\<close> (on Unix) and \<open>net/url\<close> as far
  as the programs call them, on byte strings. Separators and cut sets are single ASCII characters
  here, as in every call.
\<close>

subsection \<open>Prefixes, cut sets, splitting and joining\<close>

definition TrimPrefix :: "string \<Rightarrow> string \<Rightarrow> string" where
  "TrimPrefix s p = (if prefix p s then drop (length p) s else s)"

definition TrimSuffix :: "string \<Rightarrow> string \<Rightarrow> string" where
  "TrimSuffix s p = (if suffix p s then take (length s - length p) s else s)"

definition TrimChar :: "char \<Rightarrow> string \<Rightarrow> string" where
  "TrimChar c s = rev (dropWhile ((=) c) (rev (dropWhile ((=) c) s)))"

text \<open>Replacement of a non-empty string, from the left, without overlaps.\<close>

function ReplaceAll :: "string \<Rightarrow> string \<Rightarrow> string \<Rightarrow> string" where
  "ReplaceAll old new [] = []"
| "ReplaceAll old new (x # xs) =
     (if old \<noteq> [] \<and> prefix old (x # xs) then new @ ReplaceAll old new (drop (length old) (x # xs))
      else x # ReplaceAll old new xs)"
  by pat_completeness auto
termination
  by (relation "measure (\<lambda>(old, new, s). length s)") (auto simp: Suc_le_eq)

lemma ReplaceAll_char: "ReplaceAll [c] new s = concat (map (\<lambda>x. if x = c then new else [x]) s)"
  by (induction s) auto

fun Split :: "char \<Rightarrow> string \<Rightarrow> string list" where
  "Split c [] = [[]]"
| "Split c (x # xs) =
     (if x = c then [] # Split c xs
      else case Split c xs of [] \<Rightarrow> [[x]] | w # ws \<Rightarrow> (x # w) # ws)"

text \<open>At most \<open>n\<close> pieces, the last one unsplit.\<close>

fun SplitN :: "char \<Rightarrow> nat \<Rightarrow> string \<Rightarrow> string list" where
  "SplitN c 0 s = []"
| "SplitN c (Suc 0) s = [s]"
| "SplitN c (Suc (Suc n)) s =
     (case dropWhile ((\<noteq>) c) s of
        [] \<Rightarrow> [s]
      | _ # rest \<Rightarrow> takeWhile ((\<noteq>) c) s # SplitN c (Suc n) rest)"

fun Join :: "string \<Rightarrow> string list \<Rightarrow> string" where
  "Join sep [] = []"
| "Join sep [w] = w"
| "Join sep (w # v # ws) = w @ sep @ Join sep (v # ws)"

lemma Join_map: "Join sep (x # xs) = x @ concat (map ((@) sep) xs)"
  by (induction xs arbitrary: x) simp_all

lemma Split_not_Nil [simp]: "Split c s \<noteq> []"
  by (induction s) (auto split: list.splits)

lemma Split_append: "Split c (a @ c # b) = Split c a @ Split c b"
  by (induction a) (auto split: list.splits)

lemma Split_no_sep: "c \<notin> set s \<Longrightarrow> Split c s = [s]"
  by (induction s) auto

lemma Split_pieces: "w \<in> set (Split c s) \<Longrightarrow> c \<notin> set w"
  by (induction s arbitrary: w) (auto split: list.splits if_splits)

lemma Join_Split: "Join [c] (Split c s) = s"
proof (induction s)
  case (Cons x xs)
  obtain w ws where w: "Split c xs = w # ws" by (cases "Split c xs") simp_all
  with Cons show ?case by (cases ws) auto
qed simp

lemma Split_Join: "ws \<noteq> [] \<Longrightarrow> \<forall>w \<in> set ws. c \<notin> set w \<Longrightarrow> Split c (Join [c] ws) = ws"
  by (induction ws rule: induct_list012) (simp_all add: Split_no_sep Split_append)

subsection \<open>Lower case\<close>

text \<open>\<open>lower\<close> is the table of package \<open>unicode\<close> beyond ASCII. Invalid UTF-8 is replaced.\<close>

definition rune_lower :: "(rune \<Rightarrow> rune) \<Rightarrow> rune \<Rightarrow> rune" where
  "rune_lower lower r = (if r < 0x80 then if 65 \<le> r \<and> r \<le> 90 then r + 32 else r else lower r)"

definition ToLower :: "(rune \<Rightarrow> rune) \<Rightarrow> string \<Rightarrow> string" where
  "ToLower lower s = concat (map (\<lambda>r. encode_rune (rune_lower lower r)) (runes s))"

definition ascii_lower :: "char \<Rightarrow> char" where
  "ascii_lower c = (let n = of_char c :: nat in if 65 \<le> n \<and> n \<le> 90 then char_of (n + 32) else c)"

lemma ToLower_ascii: "ascii s \<Longrightarrow> ToLower lower s = map ascii_lower s"
  unfolding ToLower_def
  by (induction s)
    (auto simp: ascii_def rune_lower_def ascii_lower_def encode_rune_def valid_rune_def Let_def)

subsection \<open>Paths\<close>

text \<open>
  \<open>path.Clean\<close> works through the elements of the path and keeps those of the result on a stack; a
  rooted path drops the \<open>..\<close> above its root, a relative one keeps them in front.
\<close>

fun clean_step :: "bool \<Rightarrow> string list \<Rightarrow> string \<Rightarrow> string list" where
  "clean_step rooted st e =
     (if e = [] \<or> e = ''.'' then st
      else if e = ''..'' then
        (case st of [] \<Rightarrow> if rooted then [] else [''..''] | x # xs \<Rightarrow> if x = ''..'' then ''..'' # st else xs)
      else e # st)"

definition rooted :: "string \<Rightarrow> bool" where
  "rooted p \<longleftrightarrow> prefix ''/'' p"

definition elements :: "string \<Rightarrow> string list" where
  "elements p = rev (foldl (clean_step (rooted p)) [] (Split (CHR ''/'') p))"

definition render_path :: "bool \<Rightarrow> string list \<Rightarrow> string" where
  "render_path r es = (if r then ''/'' @ Join ''/'' es else if es = [] then ''.'' else Join ''/'' es)"

definition Clean :: "string \<Rightarrow> string" where
  "Clean p = render_path (rooted p) (elements p)"

text \<open>\<open>filepath.Join\<close> of two elements, and \<open>filepath.Ext\<close>.\<close>

definition filepath_Join :: "string \<Rightarrow> string \<Rightarrow> string" where
  "filepath_Join a b =
     (if a \<noteq> [] then Clean (a @ ''/'' @ b) else if b \<noteq> [] then Clean b else [])"

definition Ext :: "string \<Rightarrow> string" where
  "Ext p =
     (let base = rev (takeWhile ((\<noteq>) (CHR ''/'')) (rev p)) in
      if CHR ''.'' \<in> set base then ''.'' @ rev (takeWhile ((\<noteq>) (CHR ''.'')) (rev base)) else [])"

lemma clean_step_plain:
  "e \<noteq> ''..'' \<Longrightarrow> clean_step r st e = (if e = [] \<or> e = ''.'' then st else e # st)"
  by simp

lemma foldl_clean_plain:
  "\<forall>e \<in> set es. e \<noteq> ''..'' \<Longrightarrow>
     foldl (clean_step r) st es = rev (filter (\<lambda>e. e \<noteq> [] \<and> e \<noteq> ''.'') es) @ st"
  by (induction es arbitrary: st) auto

text \<open>Without \<open>..\<close> in the second part, joining descends.\<close>

lemma elements_append:
  assumes "a \<noteq> []" "\<forall>e \<in> set (Split (CHR ''/'') b). e \<noteq> ''..''"
  shows "elements (a @ ''/'' @ b) = elements a @ filter (\<lambda>e. e \<noteq> [] \<and> e \<noteq> ''.'') (Split (CHR ''/'') b)"
    "rooted (a @ ''/'' @ b) = rooted a"
proof -
  show r: "rooted (a @ ''/'' @ b) = rooted a" using assms(1) by (cases a) (simp_all add: rooted_def)
  have "Split (CHR ''/'') (a @ ''/'' @ b) = Split (CHR ''/'') a @ Split (CHR ''/'') b"
    using Split_append [of "CHR ''/''" a b] by simp
  then show "elements (a @ ''/'' @ b) = elements a @ filter (\<lambda>e. e \<noteq> [] \<and> e \<noteq> ''.'') (Split (CHR ''/'') b)"
    unfolding elements_def r using foldl_clean_plain [OF assms(2)] by simp
qed

text \<open>The elements of a rooted path are proper names.\<close>

definition proper_name :: "string \<Rightarrow> bool" where
  "proper_name e \<longleftrightarrow> e \<noteq> [] \<and> e \<noteq> ''.'' \<and> e \<noteq> ''..'' \<and> CHR ''/'' \<notin> set e"

lemma clean_step_rooted:
  "list_all proper_name st \<Longrightarrow> CHR ''/'' \<notin> set e \<Longrightarrow> list_all proper_name (clean_step True st e)"
  by (cases st) (simp_all add: proper_name_def)

lemma foldl_clean_rooted:
  "list_all proper_name st \<Longrightarrow> \<forall>e \<in> set es. CHR ''/'' \<notin> set e \<Longrightarrow>
     list_all proper_name (foldl (clean_step True) st es)"
proof (induction es arbitrary: st)
  case (Cons e es)
  have "list_all proper_name (clean_step True st e)" using Cons.prems by (intro clean_step_rooted) simp_all
  with Cons.IH [OF this] Cons.prems show ?case by (simp del: clean_step.simps)
qed simp

lemma elements_rooted: "rooted p \<Longrightarrow> e \<in> set (elements p) \<Longrightarrow> proper_name e"
  using foldl_clean_rooted [of "[]" "Split (CHR ''/'') p"] Split_pieces [of _ "CHR ''/''" p]
  by (simp add: elements_def list_all_iff)

subsection \<open>Escaping\<close>

definition hex_digit :: "nat \<Rightarrow> char" where
  "hex_digit d = ''0123456789ABCDEF'' ! d"

definition unhex :: "char \<Rightarrow> nat option" where
  "unhex c =
     (let n = of_char c :: nat in
      if 48 \<le> n \<and> n \<le> 57 then Some (n - 48)
      else if 97 \<le> n \<and> n \<le> 102 then Some (n - 97 + 10)
      else if 65 \<le> n \<and> n \<le> 70 then Some (n - 65 + 10)
      else None)"

text \<open>What \<open>url.PathEscape\<close> leaves as it is.\<close>

definition path_safe :: "char \<Rightarrow> bool" where
  "path_safe c \<longleftrightarrow> c \<in> set
     ''ABCDEFGHIJKLMNOPQRSTUVWXYZabcdefghijklmnopqrstuvwxyz0123456789-_.~$&+:=@''"

definition escape_char :: "char \<Rightarrow> string" where
  "escape_char c =
     (if path_safe c then [c]
      else let n = of_char c :: nat in [CHR ''%'', hex_digit (n div 16), hex_digit (n mod 16)])"

definition PathEscape :: "string \<Rightarrow> string" where
  "PathEscape s = concat (map escape_char s)"

fun PathUnescape :: "string \<Rightarrow> string option" where
  "PathUnescape [] = Some []"
| "PathUnescape (c # cs) =
     (if c = CHR ''%'' then
        (case cs of
           a # b # rest \<Rightarrow>
             (case unhex a of None \<Rightarrow> None | Some x \<Rightarrow>
                (case unhex b of None \<Rightarrow> None | Some y \<Rightarrow>
                   map_option ((#) (char_of (16 * x + y))) (PathUnescape rest)))
         | _ \<Rightarrow> None)
      else map_option ((#) c) (PathUnescape cs))"

lemma unhex_hex_digit: "d < 16 \<Longrightarrow> unhex (hex_digit d) = Some d"
proof -
  assume "d < 16"
  then have "d \<in> {0, 1, 2, 3, 4, 5, 6, 7, 8, 9, 10, 11, 12, 13, 14, 15}"
    unfolding insert_iff empty_iff by presburger
  then show ?thesis by (auto simp: unhex_def hex_digit_def)
qed

lemma PathUnescape_safe: "c \<noteq> CHR ''%'' \<Longrightarrow> PathUnescape (c # cs) = map_option ((#) c) (PathUnescape cs)"
  by simp

lemma PathUnescape_escape: "PathUnescape (PathEscape s @ t) = map_option ((@) s) (PathUnescape t)"
proof (induction s)
  case Nil
  then show ?case by (simp add: PathEscape_def option.map_ident)
next
  case (Cons c s)
  have step: "PathUnescape (escape_char c @ u) = map_option ((#) c) (PathUnescape u)" for u
  proof (cases "path_safe c")
    case True
    then have "c \<noteq> CHR ''%''" by (auto simp: path_safe_def)
    with True show ?thesis by (simp add: escape_char_def)
  next
    case False
    have n: "(of_char c :: nat) < 256" by simp
    then have "(of_char c :: nat) div 16 < 16" by (simp add: less_mult_imp_div_less)
    with False show ?thesis by (simp add: escape_char_def Let_def unhex_hex_digit)
  qed
  have "PathEscape (c # s) @ t = escape_char c @ (PathEscape s @ t)" by (simp add: PathEscape_def)
  with step [of "PathEscape s @ t"] Cons show ?case by (simp add: option.map_comp comp_def)
qed

lemma PathUnescape_PathEscape: "PathUnescape (PathEscape s) = Some s"
  using PathUnescape_escape [of s "[]"] by simp

text \<open>Escaped text is made of safe characters, percent signs and hexadecimal digits.\<close>

definition url_safe :: "char \<Rightarrow> bool" where
  "url_safe c \<longleftrightarrow> path_safe c \<or> c = CHR ''%''"

lemma hex_digit_safe: "d < 16 \<Longrightarrow> path_safe (hex_digit d)"
proof -
  assume "d < 16"
  then have "d \<in> {0, 1, 2, 3, 4, 5, 6, 7, 8, 9, 10, 11, 12, 13, 14, 15}"
    unfolding insert_iff empty_iff by presburger
  then show ?thesis by (auto simp: path_safe_def hex_digit_def)
qed

lemma PathEscape_safe: "c \<in> set (PathEscape s) \<Longrightarrow> url_safe c"
proof -
  assume "c \<in> set (PathEscape s)"
  then obtain x where x: "c \<in> set (escape_char x)" by (auto simp: PathEscape_def)
  have n: "(of_char x :: nat) < 256" by simp
  then have "(of_char x :: nat) div 16 < 16" by (simp add: less_mult_imp_div_less)
  with x show ?thesis
    by (auto simp: escape_char_def url_safe_def Let_def hex_digit_safe split: if_splits)
qed

end
