(* ===== verification/Go_Json.thy ===== *)
theory Go_Json
  imports Go_Path
begin

text \<open>
  The text side of package \<open>encoding/json\<close>: what \<open>Marshal\<close> writes for a value and how \<open>Unmarshal\<close> and
  \<open>Decoder.Decode\<close> read one. The reader follows the library, a scanner of tokens over a stack of open
  arrays and objects with a limit on its height; it is a state machine over the input and needs no fuel.
\<close>

subsection \<open>Valid UTF-8\<close>

lemma of_char_char_of: "n < 256 \<Longrightarrow> (of_char (char_of n :: char) :: nat) = n"
  by simp

text \<open>An encoded rune is decoded from whatever text it begins.\<close>

lemma decode_encode:
  assumes "valid_rune r"
  shows "\<exists>c cs. encode_rune r = c # cs \<and> decode_rune c (cs @ t) = (r, Suc (length cs))"
proof -
  consider "r < 0x80" | "0x80 \<le> r" "r < 0x800" | "0x800 \<le> r" "r < 0x10000" | "0x10000 \<le> r" by linarith
  then show ?thesis
  proof cases
    case 1
    then show ?thesis by (simp add: encode_rune_def valid_rune_def Let_def split: prod.split)
  next
    case 2
    have "r div 64 < 32" "2 \<le> r div 64" using 2 by simp_all
    then show ?thesis
      using 2 assms
      by (simp add: encode_rune_def Let_def of_char_char_of in_range_def second_byte_range_def split: prod.split)
  next
    case 3
    define a b where "a = r div 4096" and "b = r div 64 mod 64"
    have r: "r = a * 4096 + b * 64 + r mod 64"
    proof -
      have "r = r div 64 * 64 + r mod 64" by simp
      moreover have "r div 64 = r div 64 div 64 * 64 + r div 64 mod 64" by simp
      moreover have "r div 64 div 64 = r div 4096" by (simp add: div_mult2_eq [symmetric])
      ultimately show ?thesis unfolding a_def b_def by linarith
    qed
    have lo: "r mod 64 < 64" "b < 64" "a < 16" using 3 by (simp_all add: a_def b_def less_mult_imp_div_less)
    have b1: "a = 0 \<Longrightarrow> 32 \<le> b" using r 3 lo by linarith
    have b2: "a = 13 \<Longrightarrow> b < 32" using r 3 lo assms unfolding valid_rune_def by linarith
    have e: "encode_rune r = [char_of (0xE0 + a), char_of (0x80 + b), char_of (0x80 + r mod 64)]"
      using 3 assms by (simp add: encode_rune_def a_def b_def)
    have oc: "(of_char (char_of (0xE0 + a) :: char) :: nat) = 0xE0 + a"
      "(of_char (char_of (0x80 + b) :: char) :: nat) = 0x80 + b"
      "(of_char (char_of (0x80 + r mod 64) :: char) :: nat) = 0x80 + r mod 64"
      using lo by (auto intro!: of_char_char_of)
    have sum: "a * 4096 + b * 64 + r mod 64 = r" using r by simp
    show ?thesis
      unfolding e using lo b1 b2 sum
      by (auto simp: Let_def oc in_range_def second_byte_range_def split: prod.split)
  next
    case 4
    define a b d where "a = r div 262144" and "b = r div 4096 mod 64" and "d = r div 64 mod 64"
    have r: "r = a * 262144 + b * 4096 + d * 64 + r mod 64"
    proof -
      have "r = r div 64 * 64 + r mod 64" by simp
      moreover have "r div 64 = r div 4096 * 64 + r div 64 mod 64"
        using div_mult_mod_eq [of "r div 64" 64] by (simp add: div_mult2_eq [symmetric])
      moreover have "r div 4096 = r div 262144 * 64 + r div 4096 mod 64"
        using div_mult_mod_eq [of "r div 4096" 64] by (simp add: div_mult2_eq [symmetric])
      ultimately show ?thesis unfolding a_def b_def d_def by linarith
    qed
    have top: "r \<le> 0x10FFFF" using assms 4 by (simp add: valid_rune_def)
    have lo: "r mod 64 < 64" "b < 64" "d < 64" by (simp_all add: b_def d_def)
    have a: "a \<le> 4" using r top by linarith
    have b1: "a = 0 \<Longrightarrow> 16 \<le> b" using r 4 lo by linarith
    have b2: "a = 4 \<Longrightarrow> b < 16" using r top lo by linarith
    have e: "encode_rune r = [char_of (0xF0 + a), char_of (0x80 + b), char_of (0x80 + d), char_of (0x80 + r mod 64)]"
      using 4 assms by (simp add: encode_rune_def a_def b_def d_def)
    have oc: "(of_char (char_of (0xF0 + a) :: char) :: nat) = 0xF0 + a"
      "(of_char (char_of (0x80 + b) :: char) :: nat) = 0x80 + b"
      "(of_char (char_of (0x80 + d) :: char) :: nat) = 0x80 + d"
      "(of_char (char_of (0x80 + r mod 64) :: char) :: nat) = 0x80 + r mod 64"
      using lo a by (auto intro!: of_char_char_of)
    have sum: "a * 262144 + b * 4096 + d * 64 + r mod 64 = r" using r by simp
    show ?thesis
      unfolding e using lo a b1 b2 sum
      by (auto simp: Let_def oc in_range_def second_byte_range_def split: prod.split)
  qed
qed

lemma encode_rune_fix: "\<exists>r'. valid_rune r' \<and> encode_rune r = encode_rune r'"
  by (rule exI [of _ "if valid_rune r then r else RuneError"])
    (simp add: encode_rune_def valid_rune_def RuneError_def)

lemma runes_encode:
  "\<exists>r'. encode_rune r = encode_rune r' \<and> runes (encode_rune r @ t) = r' # runes t"
proof -
  obtain r' where r': "valid_rune r'" "encode_rune r = encode_rune r'" using encode_rune_fix by blast
  obtain c cs where "encode_rune r' = c # cs" "decode_rune c (cs @ t) = (r', Suc (length cs))"
    using decode_encode [OF r'(1), of t] by blast
  with r' show ?thesis by (auto simp del: decode_rune.simps)
qed

lemma to_valid_encoded: "to_valid (concat (map encode_rune rs) @ t) = concat (map encode_rune rs) @ to_valid t"
proof (induction rs)
  case (Cons r rs)
  obtain r' where "encode_rune r = encode_rune r'"
    "runes (encode_rune r @ concat (map encode_rune rs) @ t) = r' # runes (concat (map encode_rune rs) @ t)"
    using runes_encode by blast
  with Cons show ?case by (simp add: to_valid_def)
qed simp

lemma to_valid_idem [simp]: "to_valid (to_valid s) = to_valid s"
  using to_valid_encoded [of "runes s" "[]"] by (simp add: to_valid_def)

subsection \<open>Writing strings\<close>

definition lower_hex :: "nat \<Rightarrow> char" where
  "lower_hex d = ''0123456789abcdef'' ! d"

text \<open>An ASCII character of a string; \<open><\<close>, \<open>>\<close> and \<open>&\<close> are escaped as for HTML.\<close>

definition json_ascii :: "char \<Rightarrow> string" where
  "json_ascii c =
     (if c = CHR 0x5C \<or> c = CHR 0x22 then [CHR 0x5C, c]
      else if c = CHR 0x08 then [CHR 0x5C, CHR ''b'']
      else if c = CHR 0x0C then [CHR 0x5C, CHR ''f'']
      else if c = CHR 0x0A then [CHR 0x5C, CHR ''n'']
      else if c = CHR 0x0D then [CHR 0x5C, CHR ''r'']
      else if c = CHR 0x09 then [CHR 0x5C, CHR ''t'']
      else let n = of_char c :: nat in
        if n < 0x20 \<or> c = CHR ''<'' \<or> c = CHR ''>'' \<or> c = CHR ''&''
        then [CHR 0x5C, CHR ''u'', CHR ''0'', CHR ''0'', lower_hex (n div 16), lower_hex (n mod 16)]
        else [c])"

function json_chars :: "string \<Rightarrow> string" where
  "json_chars [] = []"
| "json_chars (c # cs) =
     (case decode_rune c cs of (r, w) \<Rightarrow>
        (if (of_char c :: nat) < 0x80 then json_ascii c
         else if r = RuneError \<and> w = 1 then CHR 0x5C # ''ufffd''
         else if r = 0x2028 \<or> r = 0x2029 then CHR 0x5C # ''u202'' @ [lower_hex (r mod 16)]
         else take w (c # cs)) @ json_chars (drop (w - 1) cs))"
  by pat_completeness auto
termination
  by (relation "measure length") auto

definition json_quote :: "string \<Rightarrow> string" where
  "json_quote s = CHR 0x22 # json_chars s @ [CHR 0x22]"

subsection \<open>Writing values\<close>

fun json_text :: "json \<Rightarrow> string" where
  "json_text JNull = ''null''"
| "json_text (JBool b) = (if b then ''true'' else ''false'')"
| "json_text (JNum n) = n"
| "json_text (JStr s) = json_quote s"
| "json_text (JArr xs) = ''['' @ Join '','' (map json_text xs) @ '']''"
| "json_text (JObj kvs) =
     ''{'' @ Join '','' (map (\<lambda>kv. json_quote (fst kv) @ '':'' @ json_text (snd kv)) kvs) @ ''}''"

text \<open>The values of the programs always have a text: \<open>Marshal\<close> fails on values JSON does not have.\<close>

definition json_Marshal :: "json \<Rightarrow> string option" where
  "json_Marshal v = Some (json_text v)"

subsection \<open>Reading strings\<close>

text \<open>\<open>getu4\<close>: four hexadecimal digits.\<close>

definition hex4 :: "string \<Rightarrow> (nat \<times> string) option" where
  "hex4 s =
     (case s of
        a # b # c # d # rest \<Rightarrow>
          (case (unhex a, unhex b, unhex c, unhex d) of
             (Some x, Some y, Some z, Some w) \<Rightarrow> Some (4096 * x + 256 * y + 16 * z + w, rest)
           | _ \<Rightarrow> None)
      | _ \<Rightarrow> None)"

text \<open>The rune after a backslash and \<open>u\<close>: a pair of surrogates is one rune, a lone surrogate the replacement rune.\<close>

definition unicode_escape :: "string \<Rightarrow> (rune \<times> string) option" where
  "unicode_escape s =
     (case hex4 s of
        None \<Rightarrow> None
      | Some (r, rest) \<Rightarrow>
          if r < 0xD800 \<or> 0xE000 \<le> r then Some (r, rest)
          else
            (case rest of
               b # u # rest' \<Rightarrow>
                 if b = CHR 0x5C \<and> u = CHR ''u'' then
                   (case hex4 rest' of
                      Some (r2, rest2) \<Rightarrow>
                        if r < 0xDC00 \<and> 0xDC00 \<le> r2 \<and> r2 < 0xE000
                        then Some (0x10000 + (r - 0xD800) * 1024 + (r2 - 0xDC00), rest2)
                        else Some (RuneError, rest)
                    | None \<Rightarrow> Some (RuneError, rest))
                 else Some (RuneError, rest)
             | _ \<Rightarrow> Some (RuneError, rest)))"

definition simple_escape :: "char \<Rightarrow> char option" where
  "simple_escape c =
     map_of [(CHR 0x22, CHR 0x22), (CHR 0x5C, CHR 0x5C), (CHR ''/'', CHR ''/''), (CHR ''b'', CHR 0x08),
       (CHR ''f'', CHR 0x0C), (CHR ''n'', CHR 0x0A), (CHR ''r'', CHR 0x0D), (CHR ''t'', CHR 0x09)] c"

lemma hex4_length: "hex4 s = Some (r, rest) \<Longrightarrow> length rest < length s"
  by (auto simp: hex4_def split: list.splits option.splits)

lemma unicode_escape_length: "unicode_escape s = Some (r, rest) \<Longrightarrow> length rest < length s"
  by (auto simp: unicode_escape_def dest!: hex4_length split: if_splits list.splits option.splits)

text \<open>One character of a string, an escape or a rune: what it stands for and what follows it.\<close>

definition string_item :: "char \<Rightarrow> string \<Rightarrow> (string \<times> string) option" where
  "string_item c cs =
     (if c = CHR 0x5C then
        (case cs of
           [] \<Rightarrow> None
         | e # ds \<Rightarrow>
             if e = CHR ''u'' then map_option (apfst encode_rune) (unicode_escape ds)
             else map_option (\<lambda>x. ([x], ds)) (simple_escape e))
      else if (of_char c :: nat) < 0x20 then None
      else (case decode_rune c cs of (r, w) \<Rightarrow> Some (encode_rune r, drop (w - 1) cs)))"

lemma string_item_length: "string_item c cs = Some (x, rest) \<Longrightarrow> length rest \<le> length cs"
  by (auto simp: string_item_def simp del: decode_rune.simps dest: unicode_escape_length
      split: if_splits list.splits prod.splits)

text \<open>The contents of a string up to its closing quote, unquoted.\<close>

function scan_string :: "string \<Rightarrow> (string \<times> string) option" where
  "scan_string [] = None"
| "scan_string (c # cs) =
     (if c = CHR 0x22 then Some ([], cs)
      else
        (case string_item c cs of
           None \<Rightarrow> None
         | Some (x, rest) \<Rightarrow> map_option (apfst ((@) x)) (scan_string rest)))"
  by pat_completeness auto
termination
  by (relation "measure length") (auto simp: less_Suc_eq_le dest: string_item_length)

lemma scan_string_length: "scan_string s = Some (x, rest) \<Longrightarrow> length rest < length s"
proof (induction s arbitrary: x rule: scan_string.induct)
  case (2 c cs)
  show ?case
  proof (cases "c = CHR 0x22")
    case False
    then obtain y r z where y: "string_item c cs = Some (y, r)" "scan_string r = Some (z, rest)"
      using "2.prems" by (auto split: option.splits)
    have "length rest < length r" using "2.IH" [OF False y(1) refl y(2)] .
    with string_item_length [OF y(1)] show ?thesis by simp
  qed (use "2.prems" in simp)
qed simp

subsection \<open>Tokens\<close>

definition json_digit :: "char \<Rightarrow> bool" where
  "json_digit c \<longleftrightarrow> (let n = of_char c :: nat in 48 \<le> n \<and> n \<le> 57)"

text \<open>A number: its integer part, its fraction and its exponent, each as long as it goes.\<close>

definition scan_int :: "string \<Rightarrow> (string \<times> string) option" where
  "scan_int s =
     (case s of
        [] \<Rightarrow> None
      | c # cs \<Rightarrow>
          if c = CHR ''0'' then Some ([c], cs)
          else if json_digit c then Some (c # takeWhile json_digit cs, dropWhile json_digit cs)
          else None)"

definition scan_frac :: "string \<Rightarrow> (string \<times> string) option" where
  "scan_frac s =
     (case s of
        [] \<Rightarrow> Some ([], [])
      | c # cs \<Rightarrow>
          if c = CHR ''.'' then
            (if takeWhile json_digit cs = [] then None
             else Some (c # takeWhile json_digit cs, dropWhile json_digit cs))
          else Some ([], s))"

definition scan_sign :: "string \<Rightarrow> string \<times> string" where
  "scan_sign s =
     (case s of
        [] \<Rightarrow> ([], [])
      | c # cs \<Rightarrow> if c = CHR ''+'' \<or> c = CHR ''-'' then ([c], cs) else ([], s))"

definition scan_exp :: "string \<Rightarrow> (string \<times> string) option" where
  "scan_exp s =
     (case s of
        [] \<Rightarrow> Some ([], [])
      | c # cs \<Rightarrow>
          if c = CHR ''e'' \<or> c = CHR ''E'' then
            (case scan_sign cs of (sg, ds) \<Rightarrow>
               if takeWhile json_digit ds = [] then None
               else Some (c # sg @ takeWhile json_digit ds, dropWhile json_digit ds))
          else Some ([], s))"

definition scan_minus :: "string \<Rightarrow> string \<times> string" where
  "scan_minus s = (case s of [] \<Rightarrow> ([], []) | c # cs \<Rightarrow> if c = CHR ''-'' then ([c], cs) else ([], s))"

definition scan_number :: "string \<Rightarrow> (string \<times> string) option" where
  "scan_number s0 =
     (case scan_minus s0 of (m, s1) \<Rightarrow>
        (case scan_int s1 of None \<Rightarrow> None | Some (i, s2) \<Rightarrow>
        (case scan_frac s2 of None \<Rightarrow> None | Some (f, s3) \<Rightarrow>
        (case scan_exp s3 of None \<Rightarrow> None | Some (e, s4) \<Rightarrow> Some (m @ i @ f @ e, s4)))))"

datatype token =
    TStr string
  | TLit json
  | TNum string
  | TOpenArr | TCloseArr | TOpenObj | TCloseObj | TComma | TColon

definition json_space :: "char \<Rightarrow> bool" where
  "json_space c \<longleftrightarrow> c \<in> {CHR '' '', CHR 0x09, CHR 0x0A, CHR 0x0D}"

definition word_token :: "string \<Rightarrow> (token \<times> string) option" where
  "word_token s =
     (if prefix ''null'' s then Some (TLit JNull, drop 4 s)
      else if prefix ''true'' s then Some (TLit (JBool True), drop 4 s)
      else if prefix ''false'' s then Some (TLit (JBool False), drop 5 s)
      else map_option (apfst TNum) (scan_number s))"

definition punctuation :: "char \<Rightarrow> token option" where
  "punctuation c =
     map_of [(CHR ''['', TOpenArr), (CHR '']'', TCloseArr), (CHR ''{'', TOpenObj), (CHR ''}'', TCloseObj),
       (CHR '','', TComma), (CHR '':'', TColon)] c"

definition next_token :: "string \<Rightarrow> (token \<times> string) option" where
  "next_token s0 =
     (case dropWhile json_space s0 of
        [] \<Rightarrow> None
      | c # cs \<Rightarrow>
          if c = CHR 0x22 then map_option (apfst TStr) (scan_string cs)
          else
            (case punctuation c of
               Some t \<Rightarrow> Some (t, cs)
             | None \<Rightarrow> word_token (c # cs)))"

lemma scan_number_length: "scan_number s = Some (n, rest) \<Longrightarrow> length rest < length s"
proof -
  assume s: "scan_number s = Some (n, rest)"
  have int: "scan_int t = Some (i, u) \<Longrightarrow> length u < length t" for t i u
    by (auto simp: scan_int_def less_Suc_eq_le length_dropWhile_le split: list.splits if_splits)
  have frac: "scan_frac t = Some (i, u) \<Longrightarrow> length u \<le> length t" for t i u
    by (auto simp: scan_frac_def le_SucI length_dropWhile_le split: list.splits if_splits)
  have sgn: "scan_sign t = (i, u) \<Longrightarrow> length u \<le> length t" for t i u
    by (auto simp: scan_sign_def split: list.splits if_splits)
  have exp: "scan_exp t = Some (i, u) \<Longrightarrow> length u \<le> length t" for t i u
    by (auto simp: scan_exp_def split: list.splits if_splits prod.splits dest!: sgn
        intro: le_SucI le_trans [OF length_dropWhile_le])
  have mns: "scan_minus t = (i, u) \<Longrightarrow> length u \<le> length t" for t i u
    by (auto simp: scan_minus_def split: list.splits if_splits)
  obtain m s1 i s2 f s3 e where p: "scan_minus s = (m, s1)" "scan_int s1 = Some (i, s2)"
    "scan_frac s2 = Some (f, s3)" "scan_exp s3 = Some (e, rest)"
    using s by (auto simp: scan_number_def split: option.splits prod.splits)
  show ?thesis using mns [OF p(1)] int [OF p(2)] frac [OF p(3)] exp [OF p(4)] by simp
qed

lemma next_token_length: "next_token s = Some (t, rest) \<Longrightarrow> length rest < length s"
proof -
  assume t: "next_token s = Some (t, rest)"
  then obtain c cs where d: "dropWhile json_space s = c # cs"
    by (auto simp: next_token_def split: list.splits)
  have "length rest < length (c # cs)"
    using t d
    by (auto simp: next_token_def word_token_def less_Suc_eq split: if_splits option.splits
        dest: scan_string_length scan_number_length)
  also have "\<dots> \<le> length s" unfolding d [symmetric] by (rule length_dropWhile_le)
  finally show ?thesis .
qed

subsection \<open>Reading values\<close>

text \<open>The open arrays and objects, innermost first, with what they hold; a field waits for its value.\<close>

datatype frame = FArr "json list" | FObj "(string \<times> json) list" | FField "(string \<times> json) list" string

datatype mode = AnyValue | ValueOrEnd | Key | KeyOrEnd | Colon | Next

datatype outcome = Bad | More mode "frame list" | Done json

definition maxNestingDepth :: nat where "maxNestingDepth = 10000"

fun complete_value :: "json \<Rightarrow> frame list \<Rightarrow> outcome" where
  "complete_value v [] = Done v"
| "complete_value v (FArr xs # st) = More Next (FArr (xs @ [v]) # st)"
| "complete_value v (FField kvs k # st) = More Next (FObj (kvs @ [(k, v)]) # st)"
| "complete_value v (FObj kvs # st) = Bad"

definition open_frame :: "mode \<Rightarrow> frame \<Rightarrow> frame list \<Rightarrow> outcome" where
  "open_frame m f st = (if length st < maxNestingDepth then More m (f # st) else Bad)"

definition begin_value :: "token \<Rightarrow> frame list \<Rightarrow> outcome" where
  "begin_value t st =
     (case t of
        TStr s \<Rightarrow> complete_value (JStr s) st
      | TLit v \<Rightarrow> complete_value v st
      | TNum n \<Rightarrow> complete_value (JNum n) st
      | TOpenArr \<Rightarrow> open_frame ValueOrEnd (FArr []) st
      | TOpenObj \<Rightarrow> open_frame KeyOrEnd (FObj []) st
      | _ \<Rightarrow> Bad)"

definition close_array :: "frame list \<Rightarrow> outcome" where
  "close_array st = (case st of FArr xs # st' \<Rightarrow> complete_value (JArr xs) st' | _ \<Rightarrow> Bad)"

definition close_object :: "frame list \<Rightarrow> outcome" where
  "close_object st = (case st of FObj kvs # st' \<Rightarrow> complete_value (JObj kvs) st' | _ \<Rightarrow> Bad)"

definition object_key :: "string \<Rightarrow> frame list \<Rightarrow> outcome" where
  "object_key k st = (case st of FObj kvs # st' \<Rightarrow> More Colon (FField kvs k # st') | _ \<Rightarrow> Bad)"

definition after_comma :: "frame list \<Rightarrow> outcome" where
  "after_comma st = (case st of FArr xs # st' \<Rightarrow> More AnyValue st | FObj kvs # st' \<Rightarrow> More Key st | _ \<Rightarrow> Bad)"

definition json_step :: "token \<Rightarrow> mode \<Rightarrow> frame list \<Rightarrow> outcome" where
  "json_step t m st =
     (case m of
        AnyValue \<Rightarrow> begin_value t st
      | ValueOrEnd \<Rightarrow> if t = TCloseArr then close_array st else begin_value t st
      | Key \<Rightarrow> (case t of TStr k \<Rightarrow> object_key k st | _ \<Rightarrow> Bad)
      | KeyOrEnd \<Rightarrow> (case t of TStr k \<Rightarrow> object_key k st | TCloseObj \<Rightarrow> close_object st | _ \<Rightarrow> Bad)
      | Colon \<Rightarrow> if t = TColon then More AnyValue st else Bad
      | Next \<Rightarrow>
          (case t of
             TComma \<Rightarrow> after_comma st
           | TCloseArr \<Rightarrow> close_array st
           | TCloseObj \<Rightarrow> close_object st
           | _ \<Rightarrow> Bad))"

text \<open>A value from the start of a text, and the rest of it: \<open>Decoder.Decode\<close> on a body that is complete.\<close>

function json_run :: "mode \<Rightarrow> frame list \<Rightarrow> string \<Rightarrow> (json \<times> string) option" where
  "json_run m st s =
     (case next_token s of
        None \<Rightarrow> None
      | Some (t, rest) \<Rightarrow>
          (case json_step t m st of
             Bad \<Rightarrow> None
           | Done v \<Rightarrow> Some (v, rest)
           | More m' st' \<Rightarrow> json_run m' st' rest))"
  by pat_completeness auto
termination
  by (relation "measure (\<lambda>(m, st, s). length s)") (auto dest: next_token_length)

declare json_run.simps [simp del]

definition json_Decode :: "string \<Rightarrow> json option" where
  "json_Decode s = map_option fst (json_run AnyValue [] s)"

text \<open>\<open>Unmarshal\<close>: the whole text is one value.\<close>

definition json_Unmarshal :: "string \<Rightarrow> json option" where
  "json_Unmarshal s =
     (case json_run AnyValue [] s of
        None \<Rightarrow> None
      | Some (v, rest) \<Rightarrow> if list_all json_space rest then Some v else None)"

subsection \<open>What is written is read back\<close>

lemma unhex_lower_hex: "d < 16 \<Longrightarrow> unhex (lower_hex d) = Some d"
proof -
  assume "d < 16"
  then have "d \<in> {0, 1, 2, 3, 4, 5, 6, 7, 8, 9, 10, 11, 12, 13, 14, 15}"
    unfolding insert_iff empty_iff by presburger
  then show ?thesis by (auto simp: unhex_def lower_hex_def)
qed

lemma unhex_chars [simp]:
  "unhex (CHR ''0'') = Some 0" "unhex (CHR ''2'') = Some 2" "unhex (CHR ''d'') = Some 13"
  "unhex (CHR ''f'') = Some 15"
  by (simp_all add: unhex_def)

text \<open>Decoding looks at the bytes of the rune only.\<close>

lemma decode_rune_local:
  assumes "decode_rune c cs = (r, w)" "\<not> (r = RuneError \<and> w = 1)"
  shows "w - 1 \<le> length cs" "decode_rune c (take (w - 1) cs @ x) = (r, w)"
  using assms
  by (auto simp: Let_def split: if_splits prod.splits list.splits)

lemma to_valid_Cons:
  "decode_rune c cs = (r, w) \<Longrightarrow> to_valid (c # cs) = encode_rune r @ to_valid (drop (w - 1) cs)"
  by (simp add: to_valid_def del: decode_rune.simps)

lemma scan_string_item:
  "c \<noteq> CHR 0x22 \<Longrightarrow> string_item c ds = Some (x, rest) \<Longrightarrow>
     scan_string (c # ds) = map_option (apfst ((@) x)) (scan_string rest)"
  by simp

lemma string_item_ascii:
  assumes "(of_char c :: nat) < 0x80"
  shows "\<exists>d ds. json_ascii c = d # ds \<and> d \<noteq> CHR 0x22 \<and> string_item d (ds @ t) = Some ([c], t)"
proof (cases "json_ascii c = [c]")
  case True
  then have "\<not> (of_char c :: nat) < 0x20" "c \<noteq> CHR 0x22" "c \<noteq> CHR 0x5C"
    by (auto simp: json_ascii_def Let_def split: if_splits)
  moreover have "decode_rune c t = (of_char c, 1)" using assms by (simp add: Let_def split: prod.split)
  ultimately show ?thesis
    using True assms by (simp add: string_item_def encode_rune_def valid_rune_def del: decode_rune.simps)
next
  case False
  have n: "(of_char c :: nat) div 16 < 16" using assms by (simp add: less_mult_imp_div_less)
  have esc: "unicode_escape (CHR ''0'' # CHR ''0'' # lower_hex (of_char c div 16) # lower_hex (of_char c mod 16) # t)
      = Some (of_char c, t)"
    using assms n by (simp add: unicode_escape_def hex4_def unhex_lower_hex)
  show ?thesis
    using False assms esc
    by (auto simp: json_ascii_def string_item_def simple_escape_def encode_rune_def valid_rune_def Let_def
        split: if_splits)
qed

lemma scan_json_chars: "scan_string (json_chars s @ CHR 0x22 # t) = Some (to_valid s, t)"
proof (induction s rule: json_chars.induct)
  case (2 c cs)
  obtain r w where d: "decode_rune c cs = (r, w)" by (metis surj_pair)
  let ?rest = "json_chars (drop (w - 1) cs) @ CHR 0x22 # t"
  have step: "\<exists>e ds. json_chars (c # cs) @ CHR 0x22 # t = e # ds \<and> e \<noteq> CHR 0x22
      \<and> string_item e ds = Some (encode_rune r, ?rest)"
  proof (cases "(of_char c :: nat) < 0x80")
    case True
    then have r: "r = of_char c" "w = 1" using d by (simp_all add: Let_def split: prod.splits)
    then have "encode_rune r = [c]" using True by (simp add: encode_rune_def valid_rune_def)
    then show ?thesis
      using string_item_ascii [OF True, of ?rest] True d r by (auto simp del: decode_rune.simps)
  next
    case high: False
    consider (err) "r = RuneError" "w = 1" | (sep) "r = 0x2028 \<or> r = 0x2029" "\<not> (r = RuneError \<and> w = 1)"
      | (copy) "\<not> (r = 0x2028 \<or> r = 0x2029)" "\<not> (r = RuneError \<and> w = 1)" by blast
    then show ?thesis
    proof cases
      case err
      have "string_item (CHR 0x5C) (''ufffd'' @ ?rest) = Some (encode_rune r, ?rest)"
        using err by (simp add: string_item_def unicode_escape_def hex4_def RuneError_def)
      then show ?thesis using high d err by (simp del: decode_rune.simps)
    next
      case sep
      have "string_item (CHR 0x5C) (''u202'' @ lower_hex (r mod 16) # ?rest) = Some (encode_rune r, ?rest)"
        using sep(1) unhex_lower_hex [of 8] unhex_lower_hex [of 9]
        by (auto simp: string_item_def unicode_escape_def hex4_def)
      then show ?thesis using high d sep by (auto simp: RuneError_def simp del: decode_rune.simps)
    next
      case copy
      have w: "w = Suc (w - 1)" using decode_width [of c cs] d by simp
      have tk: "take w (c # cs) = c # take (w - 1) cs" using w by (metis take_Suc_Cons)
      have "string_item c (take (w - 1) cs @ ?rest) = Some (encode_rune r, ?rest)"
        using high decode_rune_local [OF d copy(2)]
        by (auto simp: string_item_def simp del: decode_rune.simps)
      moreover have "c \<noteq> CHR 0x22" using high by auto
      ultimately show ?thesis using high d copy tk by (auto simp del: decode_rune.simps)
    qed
  qed
  have ih: "scan_string ?rest = Some (to_valid (drop (w - 1) cs), t)" using "2.IH" d by simp
  from step obtain e ds where e: "json_chars (c # cs) @ CHR 0x22 # t = e # ds" "e \<noteq> CHR 0x22"
    "string_item e ds = Some (encode_rune r, ?rest)" by blast
  show ?case
    unfolding e(1) scan_string_item [OF e(2,3)] ih to_valid_Cons [OF d] by simp
qed (simp add: to_valid_def)

subsection \<open>Values\<close>

text \<open>A value as it is read back: strings and keys as valid UTF-8.\<close>

fun valid_json :: "json \<Rightarrow> json" where
  "valid_json (JStr s) = JStr (to_valid s)"
| "valid_json (JArr xs) = JArr (map valid_json xs)"
| "valid_json (JObj kvs) = JObj (map (\<lambda>kv. (to_valid (fst kv), valid_json (snd kv))) kvs)"
| "valid_json v = v"

text \<open>Numbers are number literals.\<close>

definition number_literal :: "string \<Rightarrow> bool" where
  "number_literal n \<longleftrightarrow> scan_number n = Some (n, [])"

fun json_ok :: "json \<Rightarrow> bool" where
  "json_ok (JNum n) \<longleftrightarrow> number_literal n"
| "json_ok (JArr xs) \<longleftrightarrow> list_all json_ok xs"
| "json_ok (JObj kvs) \<longleftrightarrow> list_all (\<lambda>kv. json_ok (snd kv)) kvs"
| "json_ok v \<longleftrightarrow> True"

fun json_depth :: "json \<Rightarrow> nat" where
  "json_depth (JArr xs) = Suc (foldr max (map json_depth xs) 0)"
| "json_depth (JObj kvs) = Suc (foldr max (map (\<lambda>kv. json_depth (snd kv)) kvs) 0)"
| "json_depth v = 0"

lemma foldr_max_le: "x \<in> set xs \<Longrightarrow> x \<le> foldr max xs (0::nat)"
  by (induction xs) auto

text \<open>What may follow a number.\<close>

definition number_end :: "string \<Rightarrow> bool" where
  "number_end t \<longleftrightarrow>
     (case t of [] \<Rightarrow> True | c # _ \<Rightarrow> \<not> json_digit c \<and> c \<notin> {CHR ''.'', CHR ''e'', CHR ''E''})"

lemma digits_append:
  assumes "number_end t"
  shows "takeWhile json_digit (s @ t) = takeWhile json_digit s"
    "dropWhile json_digit (s @ t) = dropWhile json_digit s @ t"
  using assms by (induction s) (auto simp: number_end_def split: list.splits)

lemma scan_number_append:
  assumes "scan_number n = Some (n, [])" "number_end t"
  shows "scan_number (n @ t) = Some (n, t)"
proof -
  obtain m s1 i s2 f s3 e where p: "scan_minus n = (m, s1)" "scan_int s1 = Some (i, s2)"
    "scan_frac s2 = Some (f, s3)" "scan_exp s3 = Some (e, [])" and n: "n = m @ i @ f @ e"
    using assms(1) by (auto simp: scan_number_def split: option.splits prod.splits)
  note da = digits_append [OF assms(2)]
  have "s1 \<noteq> []" using p(2) by (auto simp: scan_int_def)
  then have "scan_minus (n @ t) = (m, s1 @ t)"
    using p(1) by (auto simp: scan_minus_def split: list.splits if_splits)
  moreover have "scan_int (s1 @ t) = Some (i, s2 @ t)"
    using p(2) da by (auto simp: scan_int_def split: list.splits if_splits)
  moreover have "scan_frac (s2 @ t) = Some (f, s3 @ t)"
    using p(3) da assms(2) by (auto simp: scan_frac_def number_end_def split: list.splits if_splits)
  moreover have "scan_exp (s3 @ t) = Some (e, t)"
  proof (cases s3)
    case Nil
    then show ?thesis
      using p(4) assms(2) by (auto simp: scan_exp_def number_end_def split: list.splits)
  next
    case (Cons c cs)
    have sgn: "ds \<noteq> [] \<Longrightarrow> scan_sign cs = (sg, ds) \<Longrightarrow> scan_sign (cs @ t) = (sg, ds @ t)" for sg ds
      by (auto simp: scan_sign_def split: list.splits if_splits)
    obtain sg ds where sd: "scan_sign cs = (sg, ds)" by (cases "scan_sign cs")
    show ?thesis
    proof (cases "c = CHR ''e'' \<or> c = CHR ''E''")
      case True
      then have "takeWhile json_digit ds \<noteq> []" "dropWhile json_digit ds = []"
        "e = c # sg @ takeWhile json_digit ds"
        using p(4) Cons sd by (auto simp: scan_exp_def split: if_splits)
      moreover then have "ds \<noteq> []" by auto
      ultimately show ?thesis using True Cons sgn [OF _ sd] da [of ds] by (simp add: scan_exp_def)
    next
      case False
      then show ?thesis using p(4) Cons by (simp add: scan_exp_def)
    qed
  qed
  ultimately show ?thesis unfolding scan_number_def n by simp
qed

subsection \<open>Tokens of written values\<close>

lemma next_token_quote: "next_token (json_quote s @ t) = Some (TStr (to_valid s), t)"
  by (simp add: next_token_def json_quote_def json_space_def scan_json_chars)

lemma next_token_punct [simp]:
  "next_token (CHR ''['' # t) = Some (TOpenArr, t)" "next_token (CHR '']'' # t) = Some (TCloseArr, t)"
  "next_token (CHR ''{'' # t) = Some (TOpenObj, t)" "next_token (CHR ''}'' # t) = Some (TCloseObj, t)"
  "next_token (CHR '','' # t) = Some (TComma, t)" "next_token (CHR '':'' # t) = Some (TColon, t)"
  by (simp_all add: next_token_def punctuation_def json_space_def)

lemma next_token_literal [simp]:
  "next_token (CHR ''n'' # CHR ''u'' # CHR ''l'' # CHR ''l'' # t) = Some (TLit JNull, t)"
  "next_token (CHR ''t'' # CHR ''r'' # CHR ''u'' # CHR ''e'' # t) = Some (TLit (JBool True), t)"
  "next_token (CHR ''f'' # CHR ''a'' # CHR ''l'' # CHR ''s'' # CHR ''e'' # t) = Some (TLit (JBool False), t)"
  by (simp_all add: next_token_def word_token_def punctuation_def json_space_def)

lemma number_literal_hd:
  assumes "number_literal n"
  obtains c cs where "n = c # cs" "json_digit c \<or> c = CHR ''-''"
  using assms that
  by (auto simp: number_literal_def scan_number_def scan_minus_def scan_int_def json_digit_def
      split: list.splits if_splits option.splits)

lemma next_token_number:
  assumes "number_literal n" "number_end t"
  shows "next_token (n @ t) = Some (TNum n, t)"
proof -
  obtain c cs where c: "n = c # cs" "json_digit c \<or> c = CHR ''-''" by (rule number_literal_hd [OF assms(1)])
  have "c \<noteq> CHR 0x22" "punctuation c = None" "\<not> json_space c" "c \<notin> {CHR ''n'', CHR ''t'', CHR ''f''}"
    using c(2) by (auto simp: json_digit_def punctuation_def json_space_def)
  moreover have "scan_number (c # cs @ t) = Some (n, t)"
    using scan_number_append [OF assms(1) [unfolded number_literal_def] assms(2)] c(1) by simp
  ultimately show ?thesis using c(1) by (auto simp: next_token_def word_token_def)
qed

subsection \<open>The round trip\<close>

definition go_on :: "outcome \<Rightarrow> string \<Rightarrow> (json \<times> string) option" where
  "go_on out t = (case out of Bad \<Rightarrow> None | Done v \<Rightarrow> Some (v, t) | More m st \<Rightarrow> json_run m st t)"

lemma json_run_token: "next_token s = Some (t, rest) \<Longrightarrow> json_run m st s = go_on (json_step t m st) rest"
  by (simp add: json_run.simps [of m st s] go_on_def)

lemma go_on_More [simp]: "go_on (More m st) t = json_run m st t"
  by (simp add: go_on_def)

lemmas json_step_simps = json_step_def begin_value_def open_frame_def close_array_def close_object_def
  object_key_def after_comma_def

lemma array_rest:
  assumes "\<And>x t st m. x \<in> set xs \<Longrightarrow> number_end t \<Longrightarrow> m \<in> {AnyValue, ValueOrEnd} \<Longrightarrow> length st = k \<Longrightarrow>
      json_run m st (json_text x @ t) = go_on (complete_value (valid_json x) st) t"
    and "Suc (length st) = k"
  shows "json_run Next (FArr ys # st) (concat (map (\<lambda>x. '','' @ json_text x) xs) @ '']'' @ t)
    = go_on (complete_value (JArr (ys @ map valid_json xs)) st) t"
  using assms(1)
proof (induction xs arbitrary: ys)
  case Nil
  then show ?case by (simp add: json_run_token json_step_simps)
next
  case (Cons x xs)
  let ?rest = "concat (map (\<lambda>x. '','' @ json_text x) xs) @ '']'' @ t"
  have ne: "number_end ?rest" by (cases xs) (simp_all add: number_end_def json_digit_def)
  have "json_run Next (FArr ys # st) ('','' @ json_text x @ ?rest) = json_run AnyValue (FArr ys # st) (json_text x @ ?rest)"
    by (simp add: json_run_token json_step_simps)
  also have "\<dots> = json_run Next (FArr (ys @ [valid_json x]) # st) ?rest"
    using Cons.prems [of x ?rest AnyValue "FArr ys # st"] ne assms(2) by simp
  also have "\<dots> = go_on (complete_value (JArr ((ys @ [valid_json x]) @ map valid_json xs)) st) t"
    by (rule Cons.IH) (use Cons.prems in simp)
  finally show ?case by simp
qed

lemma object_field:
  assumes "\<And>t st m. number_end t \<Longrightarrow> m \<in> {AnyValue, ValueOrEnd} \<Longrightarrow> length st = k \<Longrightarrow>
      json_run m st (json_text v @ t) = go_on (complete_value (valid_json v) st) t"
    and "Suc (length st) = k" "number_end t" "m = Key \<or> m = KeyOrEnd"
  shows "json_run m (FObj ys # st) (json_quote n @ '':'' @ json_text v @ t)
    = json_run Next (FObj (ys @ [(to_valid n, valid_json v)]) # st) t"
  using assms(2-4) assms(1) [of t AnyValue "FField ys (to_valid n) # st"]
  by (auto simp: json_run_token [OF next_token_quote] json_run_token [of "CHR '':'' # s" for s] json_step_simps)

lemma object_rest:
  assumes "\<And>kv t st m. kv \<in> set kvs \<Longrightarrow> number_end t \<Longrightarrow> m \<in> {AnyValue, ValueOrEnd} \<Longrightarrow> length st = k \<Longrightarrow>
      json_run m st (json_text (snd kv) @ t) = go_on (complete_value (valid_json (snd kv)) st) t"
    and "Suc (length st) = k"
  shows "json_run Next (FObj ys # st)
      (concat (map (\<lambda>kv. '','' @ json_quote (fst kv) @ '':'' @ json_text (snd kv)) kvs) @ ''}'' @ t)
    = go_on (complete_value (JObj (ys @ map (\<lambda>kv. (to_valid (fst kv), valid_json (snd kv))) kvs)) st) t"
  using assms(1)
proof (induction kvs arbitrary: ys)
  case Nil
  then show ?case by (simp add: json_run_token json_step_simps)
next
  case (Cons kv kvs)
  let ?rest = "concat (map (\<lambda>kv. '','' @ json_quote (fst kv) @ '':'' @ json_text (snd kv)) kvs) @ ''}'' @ t"
  have ne: "number_end ?rest" by (cases kvs) (simp_all add: number_end_def json_digit_def)
  have "json_run Next (FObj ys # st) ('','' @ json_quote (fst kv) @ '':'' @ json_text (snd kv) @ ?rest)
      = json_run Key (FObj ys # st) (json_quote (fst kv) @ '':'' @ json_text (snd kv) @ ?rest)"
    by (simp add: json_run_token json_step_simps)
  also have "\<dots> = json_run Next (FObj (ys @ [(to_valid (fst kv), valid_json (snd kv))]) # st) ?rest"
    by (rule object_field [where k = k]) (use Cons.prems assms(2) ne in auto)
  also have "\<dots> = go_on (complete_value (JObj ((ys @ [(to_valid (fst kv), valid_json (snd kv))])
      @ map (\<lambda>kv. (to_valid (fst kv), valid_json (snd kv))) kvs)) st) t"
    by (rule Cons.IH) (use Cons.prems in simp)
  finally show ?case by simp
qed

lemma json_run_text:
  "json_ok j \<Longrightarrow> json_depth j + length st \<le> maxNestingDepth \<Longrightarrow> number_end t \<Longrightarrow>
   m = AnyValue \<or> m = ValueOrEnd \<Longrightarrow>
   json_run m st (json_text j @ t) = go_on (complete_value (valid_json j) st) t"
proof (induction j arbitrary: st t m)
  case (JArr xs)
  then have room: "length st < maxNestingDepth" by simp
  show ?case
  proof (cases xs)
    case Nil
    then show ?thesis using JArr.prems(4) room by (auto simp: json_run_token json_step_simps)
  next
    case (Cons x ys)
    let ?rest = "concat (map (\<lambda>x. '','' @ json_text x) ys) @ '']'' @ t"
    have elem: "json_run m' st' (json_text z @ u) = go_on (complete_value (valid_json z) st') u"
      if z: "z \<in> set xs" and "number_end u" "m' \<in> {AnyValue, ValueOrEnd}" and k: "length st' = Suc (length st)"
      for z u st' m'
    proof (rule JArr.IH [OF z])
      have "json_depth z \<le> foldr max (map json_depth xs) 0" using z by (intro foldr_max_le) simp
      then show "json_depth z + length st' \<le> maxNestingDepth" using JArr.prems(2) k by simp
      show "json_ok z" using JArr.prems(1) z by (simp add: list_all_iff)
    qed (use that in auto)
    have ne: "number_end ?rest" by (cases ys) (simp_all add: number_end_def json_digit_def)
    have "json_text (JArr xs) @ t = ''['' @ json_text x @ ?rest"
      using Cons by (simp add: Join_map comp_def)
    then have "json_run m st (json_text (JArr xs) @ t)
        = json_run ValueOrEnd (FArr [] # st) (json_text x @ ?rest)"
      using JArr.prems(4) room by (auto simp: json_run_token json_step_simps)
    also have "\<dots> = json_run Next (FArr ([] @ [valid_json x]) # st) ?rest"
      using elem [of x ?rest ValueOrEnd "FArr [] # st"] ne Cons by simp
    also have "\<dots> = go_on (complete_value (JArr (([] @ [valid_json x]) @ map valid_json ys)) st) t"
      by (rule array_rest [where k = "Suc (length st)"]) (use elem Cons in auto)
    finally show ?thesis using Cons by simp
  qed
next
  case (JObj kvs)
  then have room: "length st < maxNestingDepth" by simp
  show ?case
  proof (cases kvs)
    case Nil
    then show ?thesis using JObj.prems(4) room by (auto simp: json_run_token json_step_simps)
  next
    case (Cons kv ys)
    let ?rest = "concat (map (\<lambda>kv. '','' @ json_quote (fst kv) @ '':'' @ json_text (snd kv)) ys) @ ''}'' @ t"
    have elem: "json_run m' st' (json_text (snd z) @ u) = go_on (complete_value (valid_json (snd z)) st') u"
      if z: "z \<in> set kvs" and "number_end u" "m' \<in> {AnyValue, ValueOrEnd}" and k: "length st' = Suc (length st)"
      for z u st' m'
    proof (rule JObj.IH [OF z])
      show "snd z \<in> Basic_BNFs.snds z" by (simp add: snds.simps)
      have "json_depth (snd z) \<le> foldr max (map (\<lambda>kv. json_depth (snd kv)) kvs) 0"
        using z by (intro foldr_max_le) simp
      then show "json_depth (snd z) + length st' \<le> maxNestingDepth" using JObj.prems(2) k by simp
      show "json_ok (snd z)" using JObj.prems(1) z by (simp add: list_all_iff)
    qed (use that in auto)
    have ne: "number_end ?rest" by (cases ys) (simp_all add: number_end_def json_digit_def)
    have "json_text (JObj kvs) @ t = ''{'' @ json_quote (fst kv) @ '':'' @ json_text (snd kv) @ ?rest"
      using Cons by (simp add: Join_map comp_def)
    then have "json_run m st (json_text (JObj kvs) @ t)
        = json_run KeyOrEnd (FObj [] # st) (json_quote (fst kv) @ '':'' @ json_text (snd kv) @ ?rest)"
      using JObj.prems(4) room by (auto simp: json_run_token json_step_simps)
    also have "\<dots> = json_run Next (FObj ([] @ [(to_valid (fst kv), valid_json (snd kv))]) # st) ?rest"
      by (rule object_field [where k = "Suc (length st)"]) (use elem [of kv] ne Cons in auto)
    also have "\<dots> = go_on (complete_value (JObj (([] @ [(to_valid (fst kv), valid_json (snd kv))])
        @ map (\<lambda>kv. (to_valid (fst kv), valid_json (snd kv))) ys)) st) t"
      by (rule object_rest [where k = "Suc (length st)"]) (use elem Cons in auto)
    finally show ?thesis using Cons by simp
  qed
qed (auto simp: json_run_token json_step_simps next_token_quote next_token_number json_run_token [OF next_token_number]
    json_run_token [OF next_token_quote])

theorem json_round_trip:
  assumes "json_ok j" "json_depth j \<le> maxNestingDepth"
  shows "json_Unmarshal (json_text j) = Some (valid_json j)" "json_Decode (json_text j @ t) = Some (valid_json j)
    \<or> \<not> number_end t"
proof -
  have run: "number_end u \<Longrightarrow> json_run AnyValue [] (json_text j @ u) = Some (valid_json j, u)" for u
    using json_run_text [of j "[]" u AnyValue] assms by (simp add: go_on_def)
  show "json_Unmarshal (json_text j) = Some (valid_json j)"
    using run [of "[]"] by (simp add: json_Unmarshal_def number_end_def)
  show "json_Decode (json_text j @ t) = Some (valid_json j) \<or> \<not> number_end t"
    using run [of t] by (auto simp: json_Decode_def)
qed

lemmas json_Unmarshal_text = json_round_trip(1)

lemma json_Decode_text: "json_ok j \<Longrightarrow> json_depth j \<le> maxNestingDepth \<Longrightarrow> json_Decode (json_text j) = Some (valid_json j)"
  using json_round_trip(2) [of j "[]"] by (simp add: number_end_def)

text \<open>The numbers the programs write are literals.\<close>

lemma number_literal_FormatInt: "number_literal (FormatInt i)"
proof -
  have digit: "d < 10 \<Longrightarrow> json_digit (digit d)" for d by (simp add: json_digit_def digit_def)
  have all: "takeWhile json_digit (digits n) = digits n" for n
    using digits_decimal [of n] digit by (auto simp: takeWhile_eq_all_conv)
  have hd_digit: "json_digit (hd (digits n))" for n
  proof -
    have "hd (digits n) \<in> set (digits n)" using digits_decimal [of n] by simp
    then show ?thesis using digits_decimal [of n] digit by metis
  qed
  have int: "scan_int (digits n) = Some (digits n, [])" for n
  proof (cases "n = 0")
    case True
    then show ?thesis by (simp add: scan_int_def digits.simps)
  next
    case False
    have "hd (digits n) \<noteq> CHR ''0''" using False
    proof (induction n rule: digits.induct)
      case (1 n)
      show ?case
      proof (cases "n < 10")
        case True
        then have "digits n = [digit n]" by (simp add: digits.simps)
        moreover have "digit n \<noteq> digit 0"
          using True 1(2) digit_value_digit [of n] digit_value_digit [of 0] by (metis option.inject zero_less_numeral)
        ultimately show ?thesis by simp
      next
        case False
        then have "hd (digits n) = hd (digits (n div 10))"
          using digits_decimal [of "n div 10"] by (simp add: digits.simps [of n])
        then show ?thesis using 1(1) False by simp
      qed
    qed
    moreover obtain c cs where "digits n = c # cs" using digits_decimal [of n] by (cases "digits n") auto
    ultimately show ?thesis
      using hd_digit [of n] all [of n] by (auto simp: scan_int_def dest: dropWhile_eq_Nil_conv [THEN iffD2] takeWhile_eq_all_conv [THEN iffD1])
  qed
  have minus: "scan_minus (digits n) = ([], digits n)" for n
    using hd_digit [of n] digits_decimal [of n]
    by (auto simp: scan_minus_def json_digit_def split: list.splits)
  show ?thesis
    by (simp add: number_literal_def FormatInt_def scan_number_def minus int scan_frac_def scan_exp_def)
      (simp add: scan_minus_def int scan_frac_def scan_exp_def)
qed

end
