(* ===== verification/Go_Time.thy ===== *)
theory Go_Time
  imports Go_Json "HOL-Library.Monad_Syntax"
begin

text \<open>
  Package \<open>time\<close>: the date of an instant in a zone of a whole number of minutes, the formats
  \<open>time.RFC3339\<close> and \<open>time.RFC3339Nano\<close>, and the strict form in which \<open>MarshalJSON\<close> writes an instant
  and \<open>UnmarshalJSON\<close> reads it. An instant is a number of nanoseconds since 1970 in UTC.
\<close>

subsection \<open>The calendar\<close>

definition leap_year :: "int \<Rightarrow> bool" where
  "leap_year y \<longleftrightarrow> y mod 4 = 0 \<and> (y mod 100 \<noteq> 0 \<or> y mod 400 = 0)"

text \<open>Days from the first day of year 1 to the first day of year \<open>y\<close>.\<close>

definition days_before_year :: "int \<Rightarrow> int" where
  "days_before_year y = (let k = y - 1 in 365 * k + k div 4 - k div 100 + k div 400)"

text \<open>The year of a day and the day of the year, by cycles of 400, 100, 4 and 1 years.\<close>

definition year_of_day :: "int \<Rightarrow> int \<times> int" where
  "year_of_day d0 =
     (let n400 = d0 div 146097; d1 = d0 mod 146097;
          n100 = d1 div 36524 - d1 div 36524 div 4; d2 = d1 - 36524 * n100;
          n4 = d2 div 1461; d3 = d2 mod 1461;
          n1 = d3 div 365 - d3 div 365 div 4; d4 = d3 - 365 * n1
      in (400 * n400 + 100 * n100 + 4 * n4 + n1 + 1, d4))"

lemma cycle_count:
  fixes d :: int
  assumes n: "n = d div c - d div c div 4" and "0 < c" "0 \<le> d" "d \<le> 4 * c"
  shows "0 \<le> n \<and> n \<le> 3 \<and> 0 \<le> d - c * n \<and> d - c * n \<le> c \<and> (n < 3 \<longrightarrow> d - c * n < c)"
proof -
  have m: "d = c * (d div c) + d mod c" by simp
  have r: "0 \<le> d mod c" "d mod c < c" using assms by simp_all
  have q: "0 \<le> d div c" using assms by (simp add: pos_imp_zdiv_nonneg_iff)
  have "c * (d div c) \<le> c * 4" using m r assms(4) by linarith
  then have q4: "d div c \<le> 4" using assms(2) by simp
  then consider "d div c = 4" | "d div c \<le> 3" by linarith
  then show ?thesis
  proof cases
    case 1
    then have "d = 4 * c" using m r assms(4) by (simp add: mult.commute)
    with 1 show ?thesis using assms by simp
  next
    case 2
    then have z: "d div c div 4 = 0" using q by simp
    have "d - c * (d div c) = d mod c" using m by linarith
    with z 2 q r n show ?thesis by simp
  qed
qed

lemma cycle_div: "k = c * q + r \<Longrightarrow> 0 \<le> r \<Longrightarrow> r < c \<Longrightarrow> k div c = q" for k c q r :: int
  by simp

lemma cycle_mod: "k = c * q + r \<Longrightarrow> 0 \<le> r \<Longrightarrow> r < c \<Longrightarrow> k mod c = r" for k c q r :: int
  by simp

lemma year_of_day_inverse:
  assumes "year_of_day d = (y, n)"
  shows "days_before_year y + n = d" "0 \<le> n" "n < 365 + (if leap_year y then 1 else 0)"
proof -
  define n400 d1 where 1: "n400 = d div 146097" "d1 = d mod 146097"
  define n100 d2 where 2: "n100 = d1 div 36524 - d1 div 36524 div 4" "d2 = d1 - 36524 * n100"
  define n4 d3 where 3: "n4 = d2 div 1461" "d3 = d2 mod 1461"
  define n1 d4 where 4: "n1 = d3 div 365 - d3 div 365 div 4" "d4 = d3 - 365 * n1"
  have yn: "y = 400 * n400 + 100 * n100 + 4 * n4 + n1 + 1" "n = d4"
    using assms [unfolded year_of_day_def Let_def, folded 1, folded 2, folded 3, folded 4] by simp_all
  have d: "d = 146097 * n400 + d1" "0 \<le> d1" "d1 < 146097" unfolding 1 by simp_all
  have a: "0 \<le> n100" "n100 \<le> 3" "0 \<le> d2" "d2 \<le> 36524" "n100 < 3 \<longrightarrow> d2 < 36524"
    using cycle_count [OF 2(1) _ d(2)] d(3) 2(2) by auto
  have b: "d2 = 1461 * n4 + d3" "0 \<le> d3" "d3 < 1461" unfolding 3 by simp_all
  have b': "0 \<le> n4" "n4 \<le> 24" using a b by linarith+
  have c: "0 \<le> n1" "n1 \<le> 3" "0 \<le> d4" "d4 \<le> 365" "n1 < 3 \<longrightarrow> d4 < 365"
    using cycle_count [OF 4(1) _ b(2)] b(3) 4(2) by auto
  have e: "d3 = 365 * n1 + d4" unfolding 4 by simp
  define k where "k = 400 * n400 + 100 * n100 + 4 * n4 + n1"
  have k: "k = 400 * n400 + (100 * n100 + 4 * n4 + n1)" "k = 100 * (4 * n400 + n100) + (4 * n4 + n1)"
    "k = 4 * (100 * n400 + 25 * n100 + n4) + n1"
    unfolding k_def by simp_all
  have div: "k div 400 = n400" "k div 100 = 4 * n400 + n100" "k div 4 = 100 * n400 + 25 * n100 + n4"
    using cycle_div [OF k(1)] cycle_div [OF k(2)] cycle_div [OF k(3)] a b' c by simp_all
  have y: "y = k + 1" using yn k_def by simp
  show "days_before_year y + n = d"
    unfolding days_before_year_def y Let_def add_diff_cancel_right' div yn(2) using d b e 2 k_def by linarith
  show "0 \<le> n" using c yn by simp
  show "n < 365 + (if leap_year y then 1 else 0)"
  proof (cases "d4 = 365")
    case True
    then have n1: "n1 = 3" using c by linarith
    have "n4 = 24 \<longrightarrow> n100 = 3" using a b e True n1 by linarith
    have "leap_year y"
    proof (cases "n4 = 24")
      case True
      then have "y = 400 * (n400 + 1) + 0" using y k_def n1 \<open>n4 = 24 \<longrightarrow> n100 = 3\<close> by simp
      then show ?thesis by (simp add: leap_year_def mod_mult_left_eq [symmetric])
    next
      case False
      have k': "y = 100 * (4 * n400 + n100) + 4 * (n4 + 1)" "y = 4 * (100 * n400 + 25 * n100 + n4 + 1) + 0"
        using y k_def n1 by simp_all
      have "y mod 100 = 4 * (n4 + 1)" "y mod 4 = 0"
        using cycle_mod [OF k'(1)] cycle_mod [OF k'(2)] b' False by simp_all
      then show ?thesis using b' by (simp add: leap_year_def)
    qed
    with True yn show ?thesis by simp
  next
    case False
    then have "d4 < 365" using c by linarith
    then show ?thesis using yn by simp
  qed
qed

definition month_lengths :: "int \<Rightarrow> nat list" where
  "month_lengths y = [31, if leap_year y then 29 else 28, 31, 30, 31, 30, 31, 31, 30, 31, 30, 31]"

text \<open>The month, from 0, and the day in it, from 0.\<close>

fun month_of :: "nat \<Rightarrow> nat list \<Rightarrow> nat \<times> nat" where
  "month_of n [] = (0, n)"
| "month_of n (m # ms) = (if n < m then (0, n) else apfst Suc (month_of (n - m) ms))"

lemma month_of_inverse:
  "n < sum_list ms \<Longrightarrow> month_of n ms = (i, k) \<Longrightarrow> i < length ms \<and> k < ms ! i \<and> sum_list (take i ms) + k = n"
proof (induction ms arbitrary: n i)
  case (Cons m ms)
  show ?case
  proof (cases "n < m")
    case False
    then obtain j where "month_of (n - m) ms = (j, k)" "i = Suc j" using Cons.prems by (auto simp: apfst_def map_prod_def split: prod.splits)
    with Cons.IH [of "n - m" j] Cons.prems False have "j < length ms" "k < ms ! j" "sum_list (take j ms) + k = n - m"
      by auto
    with False \<open>i = Suc j\<close> show ?thesis by simp
  qed (use Cons.prems in auto)
qed simp

lemma sum_month_lengths: "sum_list (month_lengths y) = 365 + (if leap_year y then 1 else 0)"
  by (simp add: month_lengths_def)

text \<open>Day 0 is 1 January 1970; the civil date has its month and day from 1.\<close>

definition civil :: "int \<Rightarrow> int \<times> nat \<times> nat" where
  "civil d =
     (case year_of_day (d + 719162) of (y, n) \<Rightarrow>
        (case month_of (nat n) (month_lengths y) of (m, k) \<Rightarrow> (y, m + 1, k + 1)))"

definition valid_date :: "int \<Rightarrow> nat \<Rightarrow> nat \<Rightarrow> bool" where
  "valid_date y m d \<longleftrightarrow> 1 \<le> m \<and> m \<le> 12 \<and> 1 \<le> d \<and> d \<le> month_lengths y ! (m - 1)"

definition day_of :: "int \<Rightarrow> nat \<Rightarrow> nat \<Rightarrow> int" where
  "day_of y m d = days_before_year y + int (sum_list (take (m - 1) (month_lengths y)) + (d - 1)) - 719162"

lemma civil_inverse:
  assumes "civil n = (y, m, d)"
  shows "valid_date y m d" "day_of y m d = n"
proof -
  obtain k where y: "year_of_day (n + 719162) = (y, k)"
    using assms by (auto simp: civil_def split: prod.splits)
  note inv = year_of_day_inverse [OF y]
  have "nat k < sum_list (month_lengths y)" using inv by (auto simp: sum_month_lengths split: if_splits)
  moreover obtain i j where m: "month_of (nat k) (month_lengths y) = (i, j)" by (metis surj_pair)
  ultimately have i: "i < length (month_lengths y)" "j < month_lengths y ! i"
    "sum_list (take i (month_lengths y)) + j = nat k" using month_of_inverse by blast+
  have md: "m = i + 1" "d = j + 1" using assms y m by (simp_all add: civil_def)
  show "valid_date y m d" using i md by (simp add: valid_date_def month_lengths_def)
  show "day_of y m d = n" using i(3) inv md by (simp add: day_of_def)
qed

lemma civil_year: "days_before_year (fst (civil n)) \<le> n + 719162"
  "n + 719162 < days_before_year (fst (civil n)) + 366"
proof -
  obtain y k where y: "year_of_day (n + 719162) = (y, k)" by fastforce
  then have "fst (civil n) = y" by (simp add: civil_def split: prod.split)
  with year_of_day_inverse [OF y] show "days_before_year (fst (civil n)) \<le> n + 719162"
    "n + 719162 < days_before_year (fst (civil n)) + 366" by (auto split: if_splits)
qed

subsection \<open>Numbers of a fixed width\<close>

fun fixed :: "nat \<Rightarrow> nat \<Rightarrow> string" where
  "fixed 0 n = []"
| "fixed (Suc k) n = fixed k (n div 10) @ [digit (n mod 10)]"

declare fixed.simps [simp del]

lemma fixed_numeral:
  "fixed (numeral k) n = fixed (pred_numeral k) (n div 10) @ [digit (n mod 10)]"
  by (subst numeral_eq_Suc) (rule fixed.simps(2))

lemma fixed_zero: "fixed k 0 = replicate k (CHR ''0'')"
  by (induction k) (simp_all add: fixed.simps replicate_append_same)

lemma length_fixed [simp]: "length (fixed k n) = k"
  by (induction k arbitrary: n) (simp_all add: fixed.simps)

lemma parse_digits_fixed [simp]: "n < 10 ^ k \<Longrightarrow> parse_digits 0 (fixed k n) = Some n"
proof (induction k arbitrary: n)
  case (Suc k)
  then have "n div 10 < 10 ^ k" by (simp add: less_mult_imp_div_less mult.commute)
  with Suc.IH show ?case by (simp add: fixed.simps parse_digits_append)
qed (simp add: fixed.simps)

lemma json_digit_digit: "d < 10 \<Longrightarrow> json_digit (digit d)"
  by (simp add: json_digit_def digit_def)

lemma fixed_digits: "c \<in> set (fixed k n) \<Longrightarrow> json_digit c"
  by (induction k arbitrary: n) (auto simp: fixed.simps json_digit_digit)

lemma ascii_fixed [simp]: "ascii (fixed k n)"
  using fixed_digits [of _ k n] by (fastforce simp: ascii_def json_digit_def Let_def)

text \<open>A number of \<open>k\<close> digits in a range, and the rest of the text.\<close>

definition num :: "nat \<Rightarrow> nat \<Rightarrow> nat \<Rightarrow> string \<Rightarrow> (nat \<times> string) option" where
  "num k lo hi s =
     (if k \<le> length s then
        (case parse_digits 0 (take k s) of
           Some n \<Rightarrow> if lo \<le> n \<and> n \<le> hi then Some (n, drop k s) else None
         | None \<Rightarrow> None)
      else None)"

definition expect :: "char \<Rightarrow> string \<Rightarrow> string option" where
  "expect c s = (case s of [] \<Rightarrow> None | x # xs \<Rightarrow> if x = c then Some xs else None)"

lemma num_fixed [simp]: "lo \<le> n \<Longrightarrow> n \<le> hi \<Longrightarrow> n < 10 ^ k \<Longrightarrow> num k lo hi (fixed k n @ t) = Some (n, t)"
  by (simp add: num_def)

lemma expect_Cons [simp]: "expect c (c # t) = Some t"
  by (simp add: expect_def)

subsection \<open>Writing an instant\<close>

text \<open>The zone is an offset in minutes east of UTC. A year has at least four digits.\<close>

definition year_text :: "int \<Rightarrow> string" where
  "year_text y =
     (let n = nat \<bar>y\<bar> in (if y < 0 then ''-'' else []) @ (if n < 10000 then fixed 4 n else digits n))"

definition local_seconds :: "int \<Rightarrow> time \<Rightarrow> int" where
  "local_seconds z t = t div 1000000000 + 60 * z"

definition date_time_text :: "int \<Rightarrow> time \<Rightarrow> string" where
  "date_time_text z t =
     (let s = local_seconds z t; n = nat (s mod 86400) in
      case civil (s div 86400) of (y, m, d) \<Rightarrow>
        year_text y @ ''-'' @ fixed 2 m @ ''-'' @ fixed 2 d @ ''T'' @
        fixed 2 (n div 3600) @ '':'' @ fixed 2 (n div 60 mod 60) @ '':'' @ fixed 2 (n mod 60))"

definition trim_zeros :: "string \<Rightarrow> string" where
  "trim_zeros s = rev (dropWhile ((=) CHR ''0'') (rev s))"

definition fraction_text :: "time \<Rightarrow> string" where
  "fraction_text t =
     (let n = nat (t mod 1000000000) in if n = 0 then [] else ''.'' @ trim_zeros (fixed 9 n))"

definition zone_text :: "int \<Rightarrow> string" where
  "zone_text z =
     (if z = 0 then ''Z''
      else let n = nat \<bar>z\<bar> in
        (if z < 0 then ''-'' else ''+'') @ fixed 2 (n div 60) @ '':'' @ fixed 2 (n mod 60))"

definition RFC3339 :: "int \<Rightarrow> time \<Rightarrow> string" where
  "RFC3339 z t = date_time_text z t @ zone_text z"

definition RFC3339Nano :: "int \<Rightarrow> time \<Rightarrow> string" where
  "RFC3339Nano z t = date_time_text z t @ fraction_text t @ zone_text z"

definition Year :: "int \<Rightarrow> time \<Rightarrow> int" where
  "Year z t = fst (civil (local_seconds z t div 86400))"

text \<open>\<open>MarshalJSON\<close> refuses a year that has not four digits and an offset of a day or more.\<close>

definition strict_year :: "int \<Rightarrow> time \<Rightarrow> bool" where
  "strict_year z t \<longleftrightarrow> \<bar>z\<bar> < 1440 \<and> 0 \<le> Year z t \<and> Year z t \<le> 9999"

definition time_MarshalJSON :: "int \<Rightarrow> time \<Rightarrow> string option" where
  "time_MarshalJSON z t = (if strict_year z t then Some (RFC3339Nano z t) else None)"

subsection \<open>Reading an instant\<close>

definition daysIn :: "nat \<Rightarrow> nat \<Rightarrow> nat" where
  "daysIn m y = month_lengths (int y) ! (m - 1)"

text \<open>The digits of a fraction beyond the ninth are dropped.\<close>

definition parse_fraction :: "string \<Rightarrow> nat \<times> string" where
  "parse_fraction s =
     (case s of
        c # ds \<Rightarrow>
          if c = CHR ''.'' \<and> takeWhile json_digit ds \<noteq> []
          then (the (parse_digits 0 (take 9 (takeWhile json_digit ds @ replicate 9 (CHR ''0'')))),
                dropWhile json_digit ds)
          else (0, s)
      | [] \<Rightarrow> (0, s))"

definition parse_zone :: "string \<Rightarrow> int option" where
  "parse_zone s =
     (if s = ''Z'' then Some 0
      else
        (case s of
           [] \<Rightarrow> None
         | c # cs \<Rightarrow>
             do {
               (h, s1) \<leftarrow> num 2 0 23 cs;
               s2 \<leftarrow> expect (CHR '':'') s1;
               (m, s3) \<leftarrow> num 2 0 59 s2;
               if s3 \<noteq> [] then None
               else if c = CHR ''+'' then Some (int (60 * h + m))
               else if c = CHR ''-'' then Some (- int (60 * h + m))
               else None }))"

definition instant :: "int \<Rightarrow> nat \<Rightarrow> nat \<Rightarrow> nat \<Rightarrow> nat \<Rightarrow> nat \<Rightarrow> nat \<Rightarrow> int \<Rightarrow> time" where
  "instant y m d h mi sc n z =
     (86400 * day_of y m d + int (3600 * h + 60 * mi + sc) - 60 * z) * 1000000000 + int n"

definition parseRFC3339 :: "string \<Rightarrow> time option" where
  "parseRFC3339 s0 =
     do {
       (y, s1) \<leftarrow> num 4 0 9999 s0;   s2 \<leftarrow> expect (CHR ''-'') s1;
       (m, s3) \<leftarrow> num 2 1 12 s2;     s4 \<leftarrow> expect (CHR ''-'') s3;
       (d, s5) \<leftarrow> num 2 1 (daysIn m y) s4; s6 \<leftarrow> expect (CHR ''T'') s5;
       (h, s7) \<leftarrow> num 2 0 23 s6;     s8 \<leftarrow> expect (CHR '':'') s7;
       (mi, s9) \<leftarrow> num 2 0 59 s8;    s10 \<leftarrow> expect (CHR '':'') s9;
       (sc, s11) \<leftarrow> num 2 0 59 s10;
       (case parse_fraction s11 of (n, s12) \<Rightarrow>
          map_option (instant (int y) m d h mi sc n) (parse_zone s12)) }"

text \<open>\<open>UnmarshalJSON\<close> falls back to the layout parser of the package, which takes more than this form.\<close>

definition time_UnmarshalJSON :: "(string \<Rightarrow> time option) \<Rightarrow> string \<Rightarrow> time option" where
  "time_UnmarshalJSON lenient s = (case parseRFC3339 s of Some t \<Rightarrow> Some t | None \<Rightarrow> lenient s)"

subsection \<open>What is written is read back\<close>

lemma digits_sep:
  assumes "\<forall>c \<in> set ds. json_digit c" "t = [] \<or> \<not> json_digit (hd t)"
  shows "takeWhile json_digit (ds @ t) = ds" "dropWhile json_digit (ds @ t) = t"
proof -
  have "takeWhile json_digit t = []" "dropWhile json_digit t = t" using assms(2) by (cases t; auto)+
  then show "takeWhile json_digit (ds @ t) = ds" "dropWhile json_digit (ds @ t) = t"
    using assms(1) by (simp_all add: takeWhile_append2 dropWhile_append2)
qed

lemma set_trim_zeros: "c \<in> set (trim_zeros s) \<Longrightarrow> c \<in> set s"
  by (auto simp: trim_zeros_def dest: set_dropWhileD)

lemma trim_zeros_pad: "\<exists>k. s = trim_zeros s @ replicate k (CHR ''0'')"
proof -
  have "rev s = takeWhile ((=) CHR ''0'') (rev s) @ dropWhile ((=) CHR ''0'') (rev s)" by simp
  then have "s = trim_zeros s @ rev (takeWhile ((=) CHR ''0'') (rev s))"
    unfolding trim_zeros_def by (metis rev_append rev_rev_ident)
  moreover have "takeWhile ((=) CHR ''0'') (rev s) = replicate (length (takeWhile ((=) CHR ''0'') (rev s))) (CHR ''0'')"
    by (intro replicate_eqI) (auto dest: set_takeWhileD)
  ultimately show ?thesis by (metis rev_replicate)
qed

lemma zone_text_start: "zone_text z = [] \<or> \<not> json_digit (hd (zone_text z)) \<and> hd (zone_text z) \<noteq> CHR ''.''"
  by (simp add: zone_text_def Let_def json_digit_def)

lemma zone_text_sep: "zone_text z = [] \<or> \<not> json_digit (hd (zone_text z))"
  using zone_text_start by blast

lemma parse_fraction_text:
  "parse_fraction (fraction_text t @ zone_text z) = (nat (t mod 1000000000), zone_text z)"
proof (cases "nat (t mod 1000000000) = 0")
  case True
  then show ?thesis
    using zone_text_start [of z] by (auto simp: fraction_text_def parse_fraction_def split: list.split)
next
  case False
  let ?n = "nat (t mod 1000000000)"
  let ?ds = "trim_zeros (fixed 9 ?n)"
  have n: "?n < 10 ^ 9" by simp
  obtain k where k: "fixed 9 ?n = ?ds @ replicate k (CHR ''0'')" using trim_zeros_pad by blast
  have set: "\<forall>c \<in> set ?ds. json_digit c"
    using fixed_digits set_trim_zeros by blast
  have len: "length ?ds + k = 9" using arg_cong [OF k, of length] by simp
  have "?ds \<noteq> []"
  proof
    assume "?ds = []"
    with k len have "fixed 9 ?n = fixed 9 0" unfolding fixed_zero by simp
    then have "parse_digits 0 (fixed 9 ?n) = parse_digits 0 (fixed 9 0)" by simp
    with n False show False by (simp)
  qed
  moreover have "take 9 (?ds @ replicate 9 (CHR ''0'')) = fixed 9 ?n" using len by (subst (2) k) simp
  moreover note digits_sep [OF set zone_text_sep [of z]]
  ultimately show ?thesis
    using False n by (simp add: fraction_text_def parse_fraction_def Let_def)
qed

lemma parse_fraction_none: "parse_fraction (zone_text z) = (0, zone_text z)"
  using zone_text_start [of z] by (auto simp: parse_fraction_def split: list.split)

lemma parse_zone_text: "\<bar>z\<bar> < 1440 \<Longrightarrow> parse_zone (zone_text z) = Some z"
proof -
  assume z: "\<bar>z\<bar> < 1440"
  have last: "num 2 0 59 (fixed 2 n) = Some (n, [])" if "n \<le> 59" for n
    using num_fixed [of 0 n 59 2 "[]"] that by simp
  have h: "nat \<bar>z\<bar> div 60 \<le> 23" "nat \<bar>z\<bar> mod 60 \<le> 59" using z by simp_all
  have "60 * (nat \<bar>z\<bar> div 60) + nat \<bar>z\<bar> mod 60 = nat \<bar>z\<bar>" by simp
  then have sum: "int (60 * (nat \<bar>z\<bar> div 60) + nat \<bar>z\<bar> mod 60) = \<bar>z\<bar>" by simp
  show ?thesis
    using h sum by (simp add: parse_zone_def zone_text_def Let_def last del: of_nat_add of_nat_mult)
qed

lemma year_text_fixed: "0 \<le> y \<Longrightarrow> y \<le> 9999 \<Longrightarrow> year_text y = fixed 4 (nat y)"
proof -
  assume "0 \<le> y" "y \<le> 9999"
  then have "nat \<bar>y\<bar> < 10000" "\<not> y < 0" "\<bar>y\<bar> = y" by simp_all
  then show ?thesis unfolding year_text_def Let_def by simp
qed

lemma clock_digits:
  fixes n :: nat
  shows "3600 * (n div 3600) + 60 * (n div 60 mod 60) + n mod 60 = n"
proof -
  have "n div 60 div 60 = n div 3600" by (simp add: div_mult2_eq [symmetric])
  then show ?thesis using div_mult_mod_eq [of n 60] div_mult_mod_eq [of "n div 60" 60] by linarith
qed

lemma parse_parts:
  assumes "y \<le> 9999" "1 \<le> m" "m \<le> 12" "1 \<le> d" "d \<le> daysIn m y" "d < 100"
    "h \<le> 23" "mi \<le> 59" "sc \<le> 59" "parse_fraction r = (k, r')"
  shows "parseRFC3339 (fixed 4 y @ ''-'' @ fixed 2 m @ ''-'' @ fixed 2 d @ ''T'' @ fixed 2 h @ '':'' @
      fixed 2 mi @ '':'' @ fixed 2 sc @ r) = map_option (instant (int y) m d h mi sc k) (parse_zone r')"
  using assms by (simp add: parseRFC3339_def)

lemma parse_date_time:
  assumes "strict_year z t" "parse_fraction r = (k, zone_text z)"
  shows "parseRFC3339 (date_time_text z t @ r) = Some (t div 1000000000 * 1000000000 + int k)"
proof -
  let ?s = "local_seconds z t"
  let ?n = "nat (?s mod 86400)"
  obtain y m d where c: "civil (?s div 86400) = (y, m, d)" by (metis surj_pair)
  have y: "0 \<le> y" "y \<le> 9999" "\<bar>z\<bar> < 1440" using assms(1) c by (simp_all add: strict_year_def Year_def)
  note inv = civil_inverse [OF c]
  have md: "1 \<le> m" "m \<le> 12" "1 \<le> d" "d \<le> daysIn m (nat y)"
    using inv(1) y by (simp_all add: valid_date_def daysIn_def)
  have "month_lengths y ! (m - 1) \<le> 31"
    using md(1,2) by (auto simp: month_lengths_def nth_Cons' )
  then have d: "d < 100" using md y by (simp add: daysIn_def)
  have n: "?n < 86400" by simp
  then have hms: "?n div 3600 \<le> 23" "?n div 60 mod 60 \<le> 59" "?n mod 60 \<le> 59" by linarith+
  have "instant (int (nat y)) m d (?n div 3600) (?n div 60 mod 60) (?n mod 60) k z
      = (86400 * day_of y m d + int ?n - 60 * z) * 1000000000 + int k"
    unfolding instant_def clock_digits using y by simp
  also have "86400 * day_of y m d + int ?n = ?s" using inv(2) by simp
  finally have "instant (int (nat y)) m d (?n div 3600) (?n div 60 mod 60) (?n mod 60) k z
      = t div 1000000000 * 1000000000 + int k" by (simp add: local_seconds_def)
  moreover have "nat y \<le> 9999" using y by simp
  ultimately show ?thesis
    unfolding date_time_text_def Let_def c prod.case year_text_fixed [OF y(1,2)] append_assoc
      parse_parts [OF \<open>nat y \<le> 9999\<close> md d hms assms(2)] parse_zone_text [OF y(3)] by simp
qed

theorem parse_RFC3339Nano:
  assumes "strict_year z t"
  shows "parseRFC3339 (RFC3339Nano z t) = Some t"
  using parse_date_time [OF assms parse_fraction_text [of t z]] by (simp add: RFC3339Nano_def)

text \<open>Without a fraction the instant is read back to the second.\<close>

theorem parse_RFC3339:
  assumes "strict_year z t"
  shows "parseRFC3339 (RFC3339 z t) = Some (t - t mod 1000000000)"
  using parse_date_time [OF assms parse_fraction_none [of z]]
  by (simp add: RFC3339_def minus_mod_eq_div_mult)

theorem time_json_round_trip: "time_MarshalJSON z t = Some s \<Longrightarrow> time_UnmarshalJSON lenient s = Some t"
  by (auto simp: time_MarshalJSON_def time_UnmarshalJSON_def parse_RFC3339Nano split: if_splits)

lemma ascii_Nil [simp]: "ascii []"
  by (simp add: ascii_def)

lemma ascii_Cons [simp]: "ascii (c # s) \<longleftrightarrow> (of_char c :: nat) < 0x80 \<and> ascii s"
  by (simp add: ascii_def)

lemma ascii_RFC3339 [simp]: "ascii (RFC3339 z t)" "ascii (RFC3339Nano z t)"
proof -
  have z: "ascii (zone_text z)" by (simp add: zone_text_def Let_def)
  have y: "ascii (year_text y)" for y by (simp add: year_text_def Let_def ascii_digits)
  have d: "ascii (date_time_text z t)"
    by (simp add: date_time_text_def Let_def y split: prod.split)
  have "ascii (trim_zeros (fixed 9 n))" for n
    using ascii_fixed [of 9 n] set_trim_zeros unfolding ascii_def list_all_iff by blast
  then have f: "ascii (fraction_text t)" by (simp add: fraction_text_def Let_def)
  show "ascii (RFC3339 z t)" "ascii (RFC3339Nano z t)" using z d f by (simp_all add: RFC3339_def RFC3339Nano_def)
qed

lemma ascii_time_MarshalJSON: "time_MarshalJSON z t = Some s \<Longrightarrow> ascii s"
  by (auto simp: time_MarshalJSON_def split: if_splits)

text \<open>The zero instant of the package, and the instant of the layout itself.\<close>

definition zero_instant :: time where "zero_instant = - 62135596800000000000"

lemmas civil_simps = civil_def year_of_day_def month_lengths_def leap_year_def

lemma civil_examples:
  "civil (- 719162) = (1, 1, 1)" "civil 0 = (1970, 1, 1)" "civil 13150 = (2006, 1, 2)"
  by (simp_all add: civil_simps)

lemmas instant_text_simps = date_time_text_def local_seconds_def year_text_def zone_text_def trim_zeros_def
  fixed_numeral fixed.simps

lemma RFC3339_examples:
  "RFC3339Nano 0 zero_instant = ''0001-01-01T00:00:00Z''"
  "RFC3339Nano (- 420) 1136239445120000000 = ''2006-01-02T15:04:05.12-07:00''"
  by (simp_all add: RFC3339Nano_def zero_instant_def instant_text_simps civil_examples fraction_text_def)

end
