(* ===== verification/Go_Gin.thy ===== *)
theory Go_Gin
  imports Go_Json "HOL-Library.Char_ord" "HOL-Library.List_Lexorder"
begin

text \<open>
  What the programs use of the gin framework, which is not in the repository: the binding of a request
  body. It decodes the body with \<open>encoding/json\<close> and then checks the fields that are tagged as required;
  the text of an error is its own. The interface \<open>json_binder\<close> states that. And \<open>gin.H\<close>, the Go map
  from strings that a response is given as: \<open>encoding/json\<close> writes a map with its keys in byte order.
\<close>

definition gin_H :: "(string \<times> json) list \<Rightarrow> json" where
  "gin_H fields = JObj (sort_key fst fields)"

locale json_binder =
  fixes decode :: "json \<Rightarrow> 'r option" and valid :: "'r \<Rightarrow> bool" and bound :: "string \<Rightarrow> string + 'r"
  assumes binds: "Option.bind (json_Decode body) decode = Some r \<Longrightarrow> valid r \<Longrightarrow> bound body = Inr r"
    and refuses: "(\<And>r. Option.bind (json_Decode body) decode = Some r \<Longrightarrow> \<not> valid r) \<Longrightarrow> isl (bound body)"
begin

text \<open>A request that is bound was decoded and has its fields.\<close>

lemma bound_Inr:
  assumes "bound body = Inr r"
  shows "Option.bind (json_Decode body) decode = Some r" "valid r"
proof -
  have "\<exists>x. Option.bind (json_Decode body) decode = Some x \<and> valid x"
  proof (rule ccontr)
    assume "\<not> ?thesis"
    then have "isl (bound body)" by (intro refuses) auto
    with assms show False by simp
  qed
  with assms binds show "Option.bind (json_Decode body) decode = Some r" "valid r" by fastforce+
qed

text \<open>A value the client writes is bound as it is read back.\<close>

lemma bound_text:
  assumes "json_ok v" "json_depth v \<le> maxNestingDepth" "decode (valid_json v) = Some r"
  shows "valid r \<Longrightarrow> bound (json_text v) = Inr r" "\<not> valid r \<Longrightarrow> isl (bound (json_text v))"
proof -
  have d: "Option.bind (json_Decode (json_text v)) decode = Some r" using assms by (simp add: json_Decode_text)
  show "valid r \<Longrightarrow> bound (json_text v) = Inr r" by (rule binds [OF d])
  show "\<not> valid r \<Longrightarrow> isl (bound (json_text v))" by (rule refuses) (simp add: d)
qed

end

text \<open>Every choice of the error text gives such a binding.\<close>

definition ShouldBindJSON ::
  "(string \<Rightarrow> string) \<Rightarrow> (json \<Rightarrow> 'r option) \<Rightarrow> ('r \<Rightarrow> bool) \<Rightarrow> string \<Rightarrow> string + 'r" where
  "ShouldBindJSON err decode valid body =
     (case Option.bind (json_Decode body) decode of
        None \<Rightarrow> Inl (err body)
      | Some r \<Rightarrow> if valid r then Inr r else Inl (err body))"

interpretation gin: json_binder decode valid "ShouldBindJSON err decode valid" for err decode valid
  by unfold_locales (auto simp: ShouldBindJSON_def split: option.split)

end
