(* ===== verification/Rabbit_Http.thy ===== *)
theory Rabbit_Http
  imports Rabbit_Cleaner Go_Process Go_Time Go_Gin
begin

text \<open>
  Baby-Rabbit, \<open>internal/delivery/http\<close> and \<open>cmd/server\<close>: the handlers over the service, the
  mapping of domain errors to status codes, the route table and the composition root. The framework
  reads a request body with \<open>encoding/json\<close> and then checks the fields tagged as required; the text
  of its errors is a parameter. A response body is what \<open>encoding/json\<close> writes for the response type. Instants are nanoseconds since 1970; a response shows them in UTC, to the second.
\<close>

subsection \<open>Request and response objects\<close>

record createQueueReq =
  cq_Name :: string
  cq_Capacity :: int

text \<open>The \<open>ttl\<close> field is a Go \<open>int\<close>, 64 bits wide.\<close>

record pushReq =
  pr_Value :: string
  pr_TTL :: "64 word"

datatype body =
    errorResp string
  | createQueueResp string string int
  | status_ok
  | messageResp string string string
  | statusResp string string int int
  | queueList "(string \<times> string \<times> int) list"
  | no_body

datatype response = Response (status: nat) (response_body: body)

subsection \<open>Their JSON\<close>

definition decode_createQueueReq :: "json \<Rightarrow> createQueueReq option" where
  "decode_createQueueReq = decode_struct
     [(''name'', \<lambda>v r. map_option (\<lambda>s. r\<lparr>cq_Name := s\<rparr>) (json_string v (cq_Name r))),
      (''capacity'', \<lambda>v r. map_option (\<lambda>n. r\<lparr>cq_Capacity := n\<rparr>) (json_int v (cq_Capacity r)))]
     \<lparr>cq_Name = [], cq_Capacity = 0\<rparr>"

text \<open>Both fields are required, that is not the zero value of their type.\<close>

definition createQueueReq_valid :: "createQueueReq \<Rightarrow> bool" where
  "createQueueReq_valid r \<longleftrightarrow> cq_Name r \<noteq> [] \<and> cq_Capacity r \<noteq> 0"

definition decode_pushReq :: "json \<Rightarrow> pushReq option" where
  "decode_pushReq = decode_struct
     [(''value'', \<lambda>v r. map_option (\<lambda>s. r\<lparr>pr_Value := s\<rparr>) (json_string v (pr_Value r))),
      (''ttl'', \<lambda>v r. map_option (\<lambda>n. r\<lparr>pr_TTL := word_of_int n\<rparr>) (json_int v (sint (pr_TTL r))))]
     \<lparr>pr_Value = [], pr_TTL = 0\<rparr>"

fun body_json :: "body \<Rightarrow> json option" where
  "body_json (errorResp e) = Some (JObj [(''error'', JStr e)])"
| "body_json (createQueueResp i name cap) =
     Some (JObj [(''id'', JStr i), (''name'', JStr name), (''capacity'', JNum (FormatInt cap))])"
| "body_json status_ok = Some (JObj [(''status'', JStr ''ok'')])"
| "body_json (messageResp i v at) =
     Some (JObj [(''id'', JStr i), (''value'', JStr v), (''created_at'', JStr at)])"
| "body_json (statusResp i name n cap) =
     Some (JObj [(''id'', JStr i), (''name'', JStr name), (''size'', JNum (FormatInt n)),
       (''capacity'', JNum (FormatInt cap))])"
| "body_json (queueList qs) =
     Some (JArr (map (\<lambda>(i, name, cap).
       JObj [(''id'', JStr i), (''name'', JStr name), (''capacity'', JNum (FormatInt cap))]) qs))"
| "body_json no_body = None"

definition response_text :: "response \<Rightarrow> string" where
  "response_text r = (case body_json (response_body r) of None \<Rightarrow> [] | Some v \<Rightarrow> json_text v)"

subsection \<open>Error mapping\<close>

definition writeDomainError :: "rabbit_error \<Rightarrow> response" where
  "writeDomainError err =
     (case err of
        ErrQueueNotFound \<Rightarrow> Response 404 (errorResp (Error err))
      | ErrQueueAlreadyExists \<Rightarrow> Response 409 (errorResp (Error err))
      | ErrQueueFull \<Rightarrow> Response 409 (errorResp (Error err))
      | ErrQueueEmpty \<Rightarrow> Response 204 no_body
      | ErrInvalidCapacity \<Rightarrow> Response 400 (errorResp (Error err))
      | ErrInvalidName \<Rightarrow> Response 400 (errorResp (Error err))
      | ErrInvalidTTL \<Rightarrow> Response 400 (errorResp (Error err))
      | ErrOther _ \<Rightarrow> Response 500 (errorResp (Error err)))"

text \<open>An error never answers with one of the success codes of the handlers.\<close>

lemma writeDomainError_status: "status (writeDomainError e) \<in> {204, 400, 404, 409, 500}"
  by (cases e) (simp_all add: writeDomainError_def)

subsection \<open>Handlers\<close>

definition H_CreateQueue ::
  "(string + createQueueReq) \<Rightarrow> string \<Rightarrow> 'q QueueManager \<Rightarrow> (response \<times> 'q QueueManager) go" where
  "H_CreateQueue bound newID m =
     (case bound of
        Inl err \<Rightarrow> Ret (Response 400 (errorResp err), m)
      | Inr req \<Rightarrow>
          go_bind (UC_CreateQueue newID (cq_Name req) (cq_Capacity req) m) (\<lambda>(res, m').
            case res of
              Inl e \<Rightarrow> Ret (writeDomainError e, m')
            | Inr i \<Rightarrow> Ret (Response 201 (createQueueResp i (cq_Name req) (cq_Capacity req)), m')))"

definition H_Push ::
  "'q Queue \<Rightarrow> (string + pushReq) \<Rightarrow> string \<Rightarrow> time \<Rightarrow> string \<Rightarrow> 'q QueueManager
     \<Rightarrow> (response \<times> 'q QueueManager) go" where
  "H_Push Q bound newID now queueID m =
     (case bound of
        Inl err \<Rightarrow> Ret (Response 400 (errorResp err), m)
      | Inr req \<Rightarrow>
          let ttl = pr_TTL req * Second in
          go_bind (UC_Push Q newID now queueID (pr_Value req) ttl m) (\<lambda>(err, m').
            case err of
              Some e \<Rightarrow> Ret (writeDomainError e, m')
            | None \<Rightarrow> Ret (Response 202 status_ok, m')))"

definition H_Pop ::
  "'q Queue \<Rightarrow> time \<Rightarrow> string \<Rightarrow> 'q QueueManager
     \<Rightarrow> (response \<times> 'q QueueManager) go" where
  "H_Pop Q now queueID m =
     go_bind (UC_Pop Q now queueID m) (\<lambda>(res, m').
       case res of
         Inl e \<Rightarrow> Ret (writeDomainError e, m')
       | Inr msg \<Rightarrow> Ret (Response 200 (messageResp (ID msg) (Value msg) (RFC3339 0 (CreatedAt msg))), m'))"

text \<open>The two handlers with a body, on its text; \<open>bound\<close> is the framework's binding.\<close>

definition post_queues ::
  "(string \<Rightarrow> string + createQueueReq) \<Rightarrow> string \<Rightarrow> string \<Rightarrow> 'q QueueManager \<Rightarrow> (response \<times> 'q QueueManager) go" where
  "post_queues bound request newID m = H_CreateQueue (bound request) newID m"

definition post_push ::
  "'q Queue \<Rightarrow> (string \<Rightarrow> string + pushReq) \<Rightarrow> string \<Rightarrow> string \<Rightarrow> time \<Rightarrow> string \<Rightarrow> 'q QueueManager
     \<Rightarrow> (response \<times> 'q QueueManager) go" where
  "post_push Q bound request newID now queueID m = H_Push Q (bound request) newID now queueID m"

text \<open>What a client writes for a request is bound to that request.\<close>

definition createQueue_text :: "string \<Rightarrow> int \<Rightarrow> string" where
  "createQueue_text name cap = json_text (JObj [(''name'', JStr name), (''capacity'', JNum (FormatInt cap))])"

definition push_text :: "string \<Rightarrow> int \<Rightarrow> string" where
  "push_text v ttl = json_text (JObj [(''value'', JStr v), (''ttl'', JNum (FormatInt ttl))])"

lemma request_field_names [simp]:
  "\<not> field_matches ''name'' ''capacity''" "\<not> field_matches ''value'' ''ttl''"
  by (simp_all add: field_matches_def fold_char_def in_range_def)

lemma bind_createQueue_text:
  assumes "json_binder decode_createQueueReq createQueueReq_valid bound" "- (2 ^ 63) \<le> cap" "cap < 2 ^ 63"
  shows "to_valid name = [] \<or> cap = 0 \<Longrightarrow> isl (bound (createQueue_text name cap))"
    "to_valid name \<noteq> [] \<Longrightarrow> cap \<noteq> 0 \<Longrightarrow>
       bound (createQueue_text name cap) = Inr \<lparr>cq_Name = to_valid name, cq_Capacity = cap\<rparr>"
proof -
  let ?v = "JObj [(''name'', JStr name), (''capacity'', JNum (FormatInt cap))]"
  let ?r = "\<lparr>cq_Name = to_valid name, cq_Capacity = cap\<rparr>"
  have "json_ok ?v" "json_depth ?v \<le> maxNestingDepth" "decode_createQueueReq (valid_json ?v) = Some ?r"
    using assms(2,3) by (simp_all add: number_literal_FormatInt maxNestingDepth_def ascii_def
        decode_createQueueReq_def decode_struct_def ParseInt_FormatInt)
  note b = json_binder.bound_text [OF assms(1) this]
  show "to_valid name = [] \<or> cap = 0 \<Longrightarrow> isl (bound (createQueue_text name cap))"
    unfolding createQueue_text_def by (rule b(2)) (simp add: createQueueReq_valid_def)
  show "to_valid name \<noteq> [] \<Longrightarrow> cap \<noteq> 0 \<Longrightarrow> bound (createQueue_text name cap) = Inr ?r"
    unfolding createQueue_text_def by (rule b(1)) (simp add: createQueueReq_valid_def)
qed

lemma bind_push_text:
  assumes "json_binder decode_pushReq (\<lambda>_. True) bound" "- (2 ^ 63) \<le> ttl" "ttl < 2 ^ 63"
  shows "bound (push_text v ttl) = Inr \<lparr>pr_Value = to_valid v, pr_TTL = word_of_int ttl\<rparr>"
  unfolding push_text_def using assms(2,3)
  by (intro json_binder.bound_text(1) [OF assms(1)])
    (simp_all add: number_literal_FormatInt maxNestingDepth_def ascii_def
      decode_pushReq_def decode_struct_def ParseInt_FormatInt)

definition H_Status :: "'q Queue \<Rightarrow> string \<Rightarrow> 'q QueueManager \<Rightarrow> response" where
  "H_Status Q queueID m =
     (case UC_Status Q queueID m of
        Inl e \<Rightarrow> writeDomainError e
      | Inr s \<Rightarrow> Response 200 (statusResp (st_ID s) (st_Name s) (st_Size s) (st_Capacity s)))"

definition H_ListQueues :: "(string \<times> QueueMetadata) list \<Rightarrow> response" where
  "H_ListQueues es =
     Response 200 (queueList (map (\<lambda>md. (md_ID md, md_Name md, md_Capacity md)) (UC_ListQueues es)))"

subsection \<open>Routes and wiring\<close>

datatype route = R_healthz | R_CreateQueue | R_ListQueues | R_Status | R_Push | R_Pop

definition NewRouter :: "(string \<times> string \<times> route) list" where
  "NewRouter =
     [(''GET'', ''/healthz'', R_healthz),
      (''POST'', ''/queues'', R_CreateQueue),
      (''GET'', ''/queues'', R_ListQueues),
      (''GET'', ''/queues/:queue'', R_Status),
      (''POST'', ''/queues/:queue/push'', R_Push),
      (''POST'', ''/queues/:queue/pop'', R_Pop)]"

definition H_healthz :: response where
  "H_healthz = Response 200 status_ok"

text \<open>The composition root: manager over ring buffers, and the cleaner with its interval.\<close>

definition server_manager :: "int \<Rightarrow> ring QueueManager" where
  "server_manager max_len = NewQueueManager max_len (Some (RingBufferFactory_New max_len))"

definition server_cleaner :: TTLCleaner where
  "server_cleaner = NewTTLCleaner (Some Sink) Second"

definition listenAddr :: string where "listenAddr = '':8080''"

text \<open>
  \<open>main\<close>: the manager and the cleaner it builds, none when the logger cannot be built (\<open>logger_err\<close>
  is its error), what it logs and how it ends.
\<close>

definition rabbit_main ::
  "int \<Rightarrow> string option \<Rightarrow> server_event list
     \<Rightarrow> (ring QueueManager \<times> TTLCleaner) option \<times> string list \<times> nat option" where
  "rabbit_main max_len logger_err events =
     (case logger_err of
        Some err \<Rightarrow> (None, [''logger init: '' @ err], Some 1)
      | None \<Rightarrow>
          (Some (server_manager max_len, server_cleaner),
           serve_until_signal [''Baby-Rabbit listening on '' @ listenAddr]
             (\<lambda>err. ''server error: '' @ err) [''shutdown signal received'']
             (\<lambda>err. ''graceful shutdown failed: '' @ err) events))"

subsection \<open>The TTL conversion\<close>

text \<open>The duration of a number of seconds, in nanoseconds: the product wraps around at 64 bits.\<close>

definition seconds_duration :: "int \<Rightarrow> int" where
  "seconds_duration n = (n * 1000000000 + 2 ^ 63) mod 2 ^ 64 - 2 ^ 63"

lemma sint_mult_Second: "sint (d * Second) = seconds_duration (sint d)"
proof -
  have "sint (d * Second) = sint (word_of_int (sint d * 1000000000) :: 64 word)" by (simp add: Second_def)
  also have "\<dots> = signed_take_bit 63 (sint d * 1000000000)" by (subst signed_of_int) simp
  also have "\<dots> = seconds_duration (sint d)"
    unfolding signed_take_bit_eq_take_bit_shift seconds_duration_def by (simp add: take_bit_eq_mod)
  finally show ?thesis .
qed

text \<open>Up to 9223372036 seconds either way the product fits.\<close>

lemma seconds_duration_exact: "\<bar>n\<bar> \<le> 9223372036 \<Longrightarrow> seconds_duration n = n * 1000000000"
  by (simp add: seconds_duration_def)

end
