(* ===== verification/Rabbit_Concurrency.thy ===== *)
theory Rabbit_Concurrency
  imports Rabbit_Http "HOL-Library.Multiset" "HOL-Library.Sublist"
begin

text \<open>
  Baby-Rabbit under concurrent requests. The manager and each queue have a lock of their own, so
  a request is two atomic steps with other steps in between: it looks the queue object up under
  the manager's lock, and later calls the object under the object's lock. \<open>sys_step\<close> is the
  interleaving of any number of requests, creations and sweeps at that granularity.

  The state carries, for each queue object, the history of what was accepted, delivered and
  dropped as expired, with the clock reading of the drop; \<open>history_ok\<close> is what the history and the
  content of the object satisfy at every moment: FIFO order, and conservation of messages.
\<close>

subsection \<open>Requests in flight\<close>

datatype pending =
    PendPush (pend_id: string) (pend_ref: nat) message
  | PendPop (pend_id: string) (pend_ref: nat)
  | PendSweep (pend_id: string) (pend_ref: nat)

record 'q broker_sys =
  bs_mgr :: "'q QueueManager"
  bs_pending :: "pending list"
  bs_pushed :: "nat \<Rightarrow> message list"
  bs_popped :: "nat \<Rightarrow> message list"
  bs_dropped :: "nat \<Rightarrow> (message \<times> time) list"

definition init_sys :: "'q QueueManager \<Rightarrow> 'q broker_sys" where
  "init_sys m = \<lparr>bs_mgr = m, bs_pending = [], bs_pushed = (\<lambda>_. []), bs_popped = (\<lambda>_. []),
     bs_dropped = (\<lambda>_. [])\<rparr>"

definition object :: "'q broker_sys \<Rightarrow> nat \<Rightarrow> 'q" where
  "object s r = qm_heap (bs_mgr s) ! r"

inductive sys_step ::
  "'q Queue \<Rightarrow> ('q \<Rightarrow> message list) \<Rightarrow> 'q broker_sys \<Rightarrow> 'q broker_sys \<Rightarrow> bool"
  for Q contents where
  create: "UC_CreateQueue newID name cap (bs_mgr s) = Ret (res, m') \<Longrightarrow>
      qm_queues (bs_mgr s) newID = None \<Longrightarrow> sys_step Q contents s (s\<lparr>bs_mgr := m'\<rparr>)"
| lookup_push: "0 \<le> sint (TTL msg) \<Longrightarrow> GetQueue i (bs_mgr s) = Inr r \<Longrightarrow>
      sys_step Q contents s (s\<lparr>bs_pending := PendPush i r msg # bs_pending s\<rparr>)"
| lookup_pop: "GetQueue i (bs_mgr s) = Inr r \<Longrightarrow>
      sys_step Q contents s (s\<lparr>bs_pending := PendPop i r # bs_pending s\<rparr>)"
| lookup_sweep: "GetQueue i (bs_mgr s) = Inr r \<Longrightarrow>
      sys_step Q contents s (s\<lparr>bs_pending := PendSweep i r # bs_pending s\<rparr>)"
| do_push: "PendPush i r msg \<in> set (bs_pending s) \<Longrightarrow>
      call_queue (qPush Q msg) r (bs_mgr s) = Ret (err, m') \<Longrightarrow>
      sys_step Q contents s (s\<lparr>bs_mgr := m',
        bs_pending := remove1 (PendPush i r msg) (bs_pending s),
        bs_pushed := (if err = None then (bs_pushed s)(r := bs_pushed s r @ [msg]) else bs_pushed s)\<rparr>)"
| do_pop: "PendPop i r \<in> set (bs_pending s) \<Longrightarrow>
      call_queue (qPop Q now) r (bs_mgr s) = Ret (res, m') \<Longrightarrow>
      sys_step Q contents s (s\<lparr>bs_mgr := m',
        bs_pending := remove1 (PendPop i r) (bs_pending s),
        bs_popped := (case res of Inl _ \<Rightarrow> bs_popped s
          | Inr msg \<Rightarrow> (bs_popped s)(r := bs_popped s r @ [msg])),
        bs_dropped := (bs_dropped s)(r := bs_dropped s r @
          map (\<lambda>m. (m, now)) (takeWhile (\<lambda>m. ExpiredAt m now) (contents (object s r))))\<rparr>)"
| do_sweep: "PendSweep i r \<in> set (bs_pending s) \<Longrightarrow>
      call_queue (qRemoveExpired Q now) r (bs_mgr s) = Ret (removed, m') \<Longrightarrow>
      sys_step Q contents s (s\<lparr>bs_mgr := m',
        bs_pending := remove1 (PendSweep i r) (bs_pending s),
        bs_dropped := (bs_dropped s)(r := bs_dropped s r @
          map (\<lambda>m. (m, now)) (filter (\<lambda>m. ExpiredAt m now) (contents (object s r))))\<rparr>)"

inductive reachable ::
  "'q Queue \<Rightarrow> ('q \<Rightarrow> message list) \<Rightarrow> 'q QueueManager \<Rightarrow> 'q broker_sys \<Rightarrow> bool"
  for Q contents m0 where
  start: "reachable Q contents m0 (init_sys m0)"
| step: "reachable Q contents m0 s \<Longrightarrow> sys_step Q contents s t \<Longrightarrow> reachable Q contents m0 t"

subsection \<open>The history of one queue\<close>

definition history_ok ::
  "message list \<Rightarrow> message list \<Rightarrow> message list \<Rightarrow> (message \<times> time) list \<Rightarrow> bool" where
  "history_ok pushed popped content dropped \<longleftrightarrow>
     subseq (popped @ content) pushed \<and>
     mset pushed = mset popped + mset content + mset (map fst dropped) \<and>
     (\<forall>(m, t) \<in> set dropped. ExpiredAt m t)"

lemma history_ok_init: "history_ok [] [] [] []"
  by (simp add: history_ok_def)

lemma history_ok_push:
  "history_ok pushed popped xs dropped \<Longrightarrow> history_ok (pushed @ [m]) popped (xs @ [m]) dropped"
  using subseq_append [of "popped @ xs" "[m]" pushed] by (simp add: history_ok_def)

lemma history_ok_pop:
  assumes "history_ok pushed popped xs dropped"
  shows "history_ok pushed (case fst (spec_pop now xs) of Inl _ \<Rightarrow> popped | Inr m \<Rightarrow> popped @ [m])
     (snd (spec_pop now xs))
     (dropped @ map (\<lambda>m. (m, now)) (takeWhile (\<lambda>m. ExpiredAt m now) xs))"
proof -
  let ?tw = "takeWhile (\<lambda>m. ExpiredAt m now) xs" and ?dw = "dropWhile (\<lambda>m. ExpiredAt m now) xs"
  have "subseq ?dw (?tw @ ?dw)" by (rule subseq_drop_many) simp
  then have "subseq (popped @ ?dw) (popped @ xs)" by (simp add: subseq_append')
  then have sub: "subseq (popped @ ?dw) pushed"
    using assms by (auto simp: history_ok_def intro: subseq_order.trans)
  have "mset xs = mset ?tw + mset ?dw"
    by (metis mset_append takeWhile_dropWhile_id)
  then have ms: "mset pushed = mset popped + mset ?dw + mset (map fst dropped @ ?tw)"
    using assms by (simp add: history_ok_def)
  have exp: "\<forall>m \<in> set ?tw. ExpiredAt m now" by (auto dest: set_takeWhileD)
  have old: "\<forall>(m, t) \<in> set dropped. ExpiredAt m t" using assms by (simp add: history_ok_def)
  show ?thesis
  proof (cases ?dw)
    case Nil
    note spec_pop_empty [OF Nil]
    with sub ms exp old show ?thesis unfolding Nil by (simp add: history_ok_def comp_def ball_Un)
  next
    case (Cons m ys)
    note spec_pop_head [OF Cons]
    with sub ms exp old show ?thesis unfolding Cons by (simp add: history_ok_def comp_def ball_Un)
  qed
qed

lemma history_ok_sweep:
  assumes "history_ok pushed popped xs dropped"
  shows "history_ok pushed popped (snd (spec_sweep now xs))
     (dropped @ map (\<lambda>m. (m, now)) (filter (\<lambda>m. ExpiredAt m now) xs))"
proof -
  let ?keep = "filter (\<lambda>m. \<not> ExpiredAt m now) xs" and ?drop = "filter (\<lambda>m. ExpiredAt m now) xs"
  have "subseq (popped @ ?keep) (popped @ xs)"
    by (simp add: subseq_append')
  then have sub: "subseq (popped @ ?keep) pushed"
    using assms by (auto simp: history_ok_def intro: subseq_order.trans)
  have "mset xs = mset ?drop + mset ?keep" by (simp add: multiset_partition)
  then have ms: "mset pushed = mset popped + mset ?keep + mset (map fst dropped @ ?drop)"
    using assms by (simp add: history_ok_def)
  have old: "\<forall>(m, t) \<in> set dropped. ExpiredAt m t" using assms by (simp add: history_ok_def)
  have fst: "map fst (dropped @ map (\<lambda>m. (m, now)) ?drop) = map fst dropped @ ?drop"
    by (simp add: comp_def)
  show ?thesis
    unfolding history_ok_def fst using sub ms old by (simp add: spec_sweep_def ball_Un)
qed

subsection \<open>The invariant of the system\<close>

fun pend_valid :: "pending \<Rightarrow> bool" where
  "pend_valid (PendPush i r msg) = (0 \<le> sint (TTL msg))"
| "pend_valid _ = True"

definition sys_inv ::
  "('q \<Rightarrow> bool) \<Rightarrow> 'q Queue \<Rightarrow> ('q \<Rightarrow> message list) \<Rightarrow> 'q broker_sys \<Rightarrow> bool" where
  "sys_inv qinv Q contents s \<longleftrightarrow>
     manager_inv qinv (qCapacity Q) (bs_mgr s) \<and>
     (\<forall>p \<in> set (bs_pending s).
        qm_queues (bs_mgr s) (pend_id p) = Some (pend_ref p) \<and> pend_valid p) \<and>
     (\<forall>r < length (qm_heap (bs_mgr s)).
        history_ok (bs_pushed s r) (bs_popped s r) (contents (object s r)) (bs_dropped s r)) \<and>
     (\<forall>r \<ge> length (qm_heap (bs_mgr s)). bs_pushed s r = [] \<and> bs_popped s r = [] \<and> bs_dropped s r = [])"

lemma sys_inv_pending:
  "sys_inv qinv Q contents s \<Longrightarrow> p \<in> set (bs_pending s) \<Longrightarrow>
     qm_queues (bs_mgr s) (pend_id p) = Some (pend_ref p)"
  by (simp add: sys_inv_def)

lemma sys_inv_valid: "sys_inv qinv Q contents s \<Longrightarrow> p \<in> set (bs_pending s) \<Longrightarrow> pend_valid p"
  by (simp add: sys_inv_def)

lemma sys_inv_manager: "sys_inv qinv Q contents s \<Longrightarrow> manager_inv qinv (qCapacity Q) (bs_mgr s)"
  by (simp add: sys_inv_def)

lemma sys_inv_history:
  "sys_inv qinv Q contents s \<Longrightarrow> r < length (qm_heap (bs_mgr s)) \<Longrightarrow>
     history_ok (bs_pushed s r) (bs_popped s r) (contents (object s r)) (bs_dropped s r)"
  by (simp add: sys_inv_def)

text \<open>A call of one object: its history follows it, everything else stays.\<close>

lemma sys_inv_call:
  assumes s: "sys_inv qinv Q contents s" and p: "qm_queues (bs_mgr s) i = Some r"
    and q': "qinv q'" "qCapacity Q q' = qCapacity Q (object s r)"
    and t: "bs_mgr t = (bs_mgr s)\<lparr>qm_heap := (qm_heap (bs_mgr s))[r := q']\<rparr>"
      "set (bs_pending t) \<subseteq> set (bs_pending s)"
    and h: "history_ok (bs_pushed t r) (bs_popped t r) (contents q') (bs_dropped t r)"
    and frame: "\<And>j. j \<noteq> r \<Longrightarrow> bs_pushed t j = bs_pushed s j \<and> bs_popped t j = bs_popped s j
      \<and> bs_dropped t j = bs_dropped s j"
  shows "sys_inv qinv Q contents t"
proof -
  have r: "r < length (qm_heap (bs_mgr s))"
    using manager_inv_object [OF sys_inv_manager [OF s] p] by blast
  have "manager_inv qinv (qCapacity Q) (bs_mgr t)"
    unfolding t using manager_inv_heap_update [where cap = "qCapacity Q"] sys_inv_manager [OF s] q'
    by (simp add: object_def)
  moreover have "history_ok (bs_pushed t j) (bs_popped t j) (contents (object t j)) (bs_dropped t j)"
    if "j < length (qm_heap (bs_mgr s))" for j
    using that r h frame [of j] sys_inv_history [OF s that] t(1)
    by (cases "j = r") (simp_all add: object_def)
  moreover have "bs_pushed t j = [] \<and> bs_popped t j = [] \<and> bs_dropped t j = []"
    if "length (qm_heap (bs_mgr s)) \<le> j" for j
    using that r s frame [of j] by (simp add: sys_inv_def)
  ultimately show ?thesis
    using s t unfolding sys_inv_def by auto
qed

lemma call_queue_inv:
  "call_queue f r m = Ret (x, m') \<Longrightarrow> \<exists>q'. f (qm_heap m ! r) = Ret (x, q')
     \<and> m' = m\<lparr>qm_heap := (qm_heap m)[r := q']\<rparr>"
  by (auto simp: call_queue_def go_bind_eq_Ret_iff)

context queue_factory
begin

lemma UC_CreateQueue_cases:
  assumes "UC_CreateQueue newID name cap m = Ret (res, m')" "qm_factory m = factory"
  obtains "m' = m"
  | q where "contents q = []" "qm_heap m' = qm_heap m @ [q]"
      "qm_queues m' = (qm_queues m)(newID \<mapsto> length (qm_heap m))"
proof (cases "TrimSpace name = [] \<or> cap \<le> 0 \<or> qm_nameIndex m (TrimSpace name) \<noteq> None")
  case True
  with assms that(1) show ?thesis
    by (auto simp: UC_CreateQueue_def CreateQueue_def Let_def split: if_splits)
next
  case False
  with assms obtain q where
    "factory \<lparr>md_ID = newID, md_Name = TrimSpace name, md_Capacity = cap\<rparr> = Ret q"
    "qm_heap m' = qm_heap m @ [q]" "qm_queues m' = (qm_queues m)(newID \<mapsto> length (qm_heap m))"
    by (auto simp: UC_CreateQueue_def CreateQueue_def Let_def go_bind_eq_Ret_iff)
  with factory_ok False show ?thesis by (intro that(2)) auto
qed

lemma sys_inv_create:
  assumes s: "sys_inv qinv Q contents s" and f: "qm_factory (bs_mgr s) = factory"
    and run: "UC_CreateQueue newID name cap (bs_mgr s) = Ret (res, m')"
    and fresh: "qm_queues (bs_mgr s) newID = None"
  shows "sys_inv qinv Q contents (s\<lparr>bs_mgr := m'\<rparr>)" and "qm_factory m' = factory"
proof -
  have none: "abs_broker contents (bs_mgr s) newID = None"
    using abs_broker_None [OF sys_inv_manager [OF s], THEN iffD2, OF fresh] .
  have m': "manager_inv qinv (qCapacity Q) m'" and f': "qm_factory m' = factory"
    using Create_refines [OF sys_inv_manager [OF s] f none run] by auto
  show "qm_factory m' = factory" by (rule f')
  show "sys_inv qinv Q contents (s\<lparr>bs_mgr := m'\<rparr>)"
    using run f
  proof (cases rule: UC_CreateQueue_cases)
    case 1
    with s show ?thesis by simp
  next
    case (2 q)
    have "qm_queues m' (pend_id p) = Some (pend_ref p) \<and> pend_valid p" if "p \<in> set (bs_pending s)" for p
      using sys_inv_pending [OF s that] sys_inv_valid [OF s that] fresh 2(3) by auto
    moreover have "history_ok (bs_pushed s r) (bs_popped s r) (contents (qm_heap m' ! r)) (bs_dropped s r)"
      if "r < length (qm_heap m')" for r
      using that s 2 history_ok_init sys_inv_history [OF s, of r]
      by (cases "r = length (qm_heap (bs_mgr s))") (auto simp: sys_inv_def object_def nth_append)
    ultimately show ?thesis
      using m' s 2(2) by (auto simp: sys_inv_def object_def)
  qed
qed

lemma sys_step_inv:
  assumes "sys_step Q contents s t" "sys_inv qinv Q contents s" "qm_factory (bs_mgr s) = factory"
  shows "sys_inv qinv Q contents t \<and> qm_factory (bs_mgr t) = factory"
  using assms
proof (induction rule: sys_step.induct)
  case (create newID name cap s res m')
  then show ?case using sys_inv_create by auto
next
  case (lookup_push msg i s r)
  then show ?case by (auto simp: sys_inv_def object_def GetQueue_def split: option.splits)
next
  case (lookup_pop i s r)
  then show ?case by (auto simp: sys_inv_def object_def GetQueue_def split: option.splits)
next
  case (lookup_sweep i s r)
  then show ?case by (auto simp: sys_inv_def object_def GetQueue_def split: option.splits)
next
  case (do_push i r msg s err m')
  have p: "qm_queues (bs_mgr s) i = Some r" using sys_inv_pending [OF do_push.prems(1) do_push.hyps(1)] by simp
  have r: "r < length (qm_heap (bs_mgr s))" and ok: "qinv (object s r)"
    using manager_inv_object [OF sys_inv_manager [OF do_push.prems(1)] p] by (auto simp: object_def)
  obtain q' where q': "qPush Q msg (object s r) = Ret (err, q')"
    "m' = (bs_mgr s)\<lparr>qm_heap := (qm_heap (bs_mgr s))[r := q']\<rparr>"
    using call_queue_inv [OF do_push.hyps(2)] by (auto simp: object_def)
  note spec = push_ok [OF ok, of msg]
  have "history_ok (if err = None then bs_pushed s r @ [msg] else bs_pushed s r) (bs_popped s r)
      (contents q') (bs_dropped s r)"
    using history_ok_push [OF sys_inv_history [OF do_push.prems(1) r], of msg]
      sys_inv_history [OF do_push.prems(1) r] spec q'(1)
    by (auto simp: spec_push_def split: if_splits)
  then show ?case
    using spec q' do_push.prems(2)
    by (auto intro!: sys_inv_call [OF do_push.prems(1) p, of q'] dest: notin_set_remove1
        set_remove1_subset [THEN subsetD] split: if_splits)
next
  case (do_pop i r s now res m')
  have p: "qm_queues (bs_mgr s) i = Some r" using sys_inv_pending [OF do_pop.prems(1) do_pop.hyps(1)] by simp
  have r: "r < length (qm_heap (bs_mgr s))" and ok: "qinv (object s r)"
    using manager_inv_object [OF sys_inv_manager [OF do_pop.prems(1)] p] by (auto simp: object_def)
  obtain q' where q': "qPop Q now (object s r) = Ret (res, q')"
    "m' = (bs_mgr s)\<lparr>qm_heap := (qm_heap (bs_mgr s))[r := q']\<rparr>"
    using call_queue_inv [OF do_pop.hyps(2)] by (auto simp: object_def)
  note spec = pop_ok [OF ok, of now]
  show ?case
    using spec q' do_pop.prems(2) history_ok_pop [OF sys_inv_history [OF do_pop.prems(1) r], of now]
    by (auto intro!: sys_inv_call [OF do_pop.prems(1) p, of q']
        dest: set_remove1_subset [THEN subsetD] split: sum.splits)
next
  case (do_sweep i r s now removed m')
  have p: "qm_queues (bs_mgr s) i = Some r" using sys_inv_pending [OF do_sweep.prems(1) do_sweep.hyps(1)] by simp
  have r: "r < length (qm_heap (bs_mgr s))" and ok: "qinv (object s r)"
    using manager_inv_object [OF sys_inv_manager [OF do_sweep.prems(1)] p] by (auto simp: object_def)
  obtain q' where q': "qRemoveExpired Q now (object s r) = Ret (removed, q')"
    "m' = (bs_mgr s)\<lparr>qm_heap := (qm_heap (bs_mgr s))[r := q']\<rparr>"
    using call_queue_inv [OF do_sweep.hyps(2)] by (auto simp: object_def)
  note spec = sweep_ok [OF ok, of now]
  show ?case
    using spec q' do_sweep.prems(2) history_ok_sweep [OF sys_inv_history [OF do_sweep.prems(1) r], of now]
    by (auto intro!: sys_inv_call [OF do_sweep.prems(1) p, of q']
        dest: set_remove1_subset [THEN subsetD])
qed

lemma reachable_inv:
  assumes "manager_inv qinv (qCapacity Q) m0" "qm_factory m0 = factory" "qm_heap m0 = []"
  shows "reachable Q contents m0 s \<Longrightarrow>
     sys_inv qinv Q contents s \<and> qm_factory (bs_mgr s) = factory"
proof (induction rule: reachable.induct)
  case start
  then show ?case using assms by (simp add: sys_inv_def init_sys_def)
next
  case (step s t)
  then show ?case using sys_step_inv by blast
qed

end

end
