(* ===== verification/Rabbit_Properties.thy ===== *)
theory Rabbit_Properties
  imports Rabbit_Concurrency
begin

text \<open>
  The properties of Baby-Rabbit, stated for the wiring of \<open>cmd/server\<close>: ring buffers behind the
  manager, any number of concurrent requests. \<open>L\<close> is the longest message slice the run time
  allocates; the states are those reachable from the empty manager.
\<close>

subsection \<open>Facts about reachable states\<close>

abbreviation rabbit_reachable :: "int \<Rightarrow> ring broker_sys \<Rightarrow> bool" where
  "rabbit_reachable L \<equiv> reachable (ring_queue L) ring_contents (server_manager L)"

abbreviation broker_of :: "ring broker_sys \<Rightarrow> broker" where
  "broker_of s \<equiv> abs_broker ring_contents (bs_mgr s)"

lemma rabbit_inv:
  assumes "rabbit_reachable L s"
  shows "sys_inv (ring_inv L) (ring_queue L) ring_contents s"
    and "qm_factory (bs_mgr s) = RingBufferFactory_New L"
    and "manager_inv (ring_inv L) (qCapacity (ring_queue L)) (bs_mgr s)"
proof -
  have "manager_inv (ring_inv L) (qCapacity (ring_queue L)) (server_manager L)"
    "qm_factory (server_manager L) = RingBufferFactory_New L" "qm_heap (server_manager L) = []"
    by (simp_all add: server_manager_def manager_inv_new) (simp_all add: NewQueueManager_def)
  from ring_factory.reachable_inv [OF this assms]
  show "sys_inv (ring_inv L) (ring_queue L) ring_contents s"
    and "qm_factory (bs_mgr s) = RingBufferFactory_New L"
    and "manager_inv (ring_inv L) (qCapacity (ring_queue L)) (bs_mgr s)"
    by (auto dest: sys_inv_manager)
qed

lemma rabbit_heap_inv:
  assumes "rabbit_reachable L s" "qm_queues (bs_mgr s) i = Some r"
  shows "ring_inv L (object s r)" and "r < length (qm_heap (bs_mgr s))"
  using manager_inv_object [OF rabbit_inv(3) [OF assms(1)] assms(2)] by (auto simp: object_def)

text \<open>A sample run, for the witnesses: one queue of two messages at most.\<close>

definition demo_message :: message where
  "demo_message = \<lparr>ID = ''m1'', Value = ''hello'', CreatedAt = 100, TTL = 60\<rparr>"

definition demo_metadata :: QueueMetadata where
  "demo_metadata = \<lparr>md_ID = ''q1'', md_Name = ''orders'', md_Capacity = 2\<rparr>"

definition demo_ring :: ring where
  "demo_ring = \<lparr>rb_buffer = [zero_message, zero_message], rb_head = 0, rb_tail = 0, rb_size = 0,
     rb_capacity = 2\<rparr>"

definition demo_full_ring :: ring where
  "demo_full_ring = \<lparr>rb_buffer = [demo_message, zero_message], rb_head = 0, rb_tail = 1, rb_size = 1,
     rb_capacity = 2\<rparr>"

definition demo_manager :: "ring \<Rightarrow> ring QueueManager" where
  "demo_manager q = (server_manager 10)\<lparr>qm_heap := [q], qm_queues := [''q1'' \<mapsto> 0],
     qm_metadata := [''q1'' \<mapsto> demo_metadata], qm_nameIndex := [''orders'' \<mapsto> ''q1'']\<rparr>"

definition demo_empty :: "ring broker_sys" where
  "demo_empty = init_sys (demo_manager demo_ring)"

definition demo_waiting :: "ring broker_sys" where
  "demo_waiting = demo_empty\<lparr>bs_pending := [PendPush ''q1'' 0 demo_message]\<rparr>"

definition demo_pushed :: "ring broker_sys" where
  "demo_pushed = demo_empty\<lparr>bs_mgr := demo_manager demo_full_ring,
     bs_pushed := (\<lambda>_. [])(0 := [demo_message])\<rparr>"

lemma broker_of_start [simp]: "broker_of (init_sys (server_manager L)) = Map.empty"
  by (rule ext) (simp add: init_sys_def abs_broker_def server_manager_def NewQueueManager_def)

lemma demo_trim: "TrimSpace ''orders'' = ''orders''"
  by code_simp

lemma demo_create: "UC_CreateQueue ''q1'' ''orders'' 2 (server_manager 10)
    = Ret (Inr ''q1'', demo_manager demo_ring)"
  by (simp add: UC_CreateQueue_def Let_def demo_trim CreateQueue_def server_manager_def
      NewQueueManager_def RingBufferFactory_New_def NewRingBufferQueue_def make_slice_def
      demo_manager_def demo_ring_def demo_metadata_def numeral_2_eq_2)

lemma demo_empty_reachable: "rabbit_reachable 10 demo_empty"
proof -
  have "sys_step (ring_queue 10) ring_contents (init_sys (server_manager 10)) demo_empty"
    using sys_step.create [of "''q1''" "''orders''" 2 "init_sys (server_manager 10)" _ _ "ring_queue 10"
        ring_contents] demo_create
    by (simp add: init_sys_def demo_empty_def server_manager_def NewQueueManager_def)
  with reachable.start show ?thesis by (rule reachable.step)
qed

lemma demo_waiting_reachable: "rabbit_reachable 10 demo_waiting"
proof -
  have "sys_step (ring_queue 10) ring_contents demo_empty demo_waiting"
    using sys_step.lookup_push [of demo_message "''q1''" demo_empty 0 "ring_queue 10" ring_contents]
    by (simp add: demo_waiting_def demo_empty_def init_sys_def demo_message_def GetQueue_def
        demo_manager_def)
  with demo_empty_reachable show ?thesis by (rule reachable.step)
qed

lemma demo_push: "call_queue (qPush (ring_queue 10) demo_message) 0 (demo_manager demo_ring)
    = Ret (None, demo_manager demo_full_ring)"
  by (simp add: call_queue_def ring_queue_def Push_def demo_manager_def demo_ring_def
      demo_full_ring_def slice_set_def go_mod_def)

lemma demo_pushed_reachable: "rabbit_reachable 10 demo_pushed"
proof -
  have "sys_step (ring_queue 10) ring_contents demo_waiting demo_pushed"
    using sys_step.do_push [of "''q1''" 0 demo_message demo_waiting "ring_queue 10" None
        "demo_manager demo_full_ring" ring_contents] demo_push
    by (simp add: demo_waiting_def demo_pushed_def demo_empty_def init_sys_def)
  with demo_waiting_reachable show ?thesis by (rule reachable.step)
qed

lemmas demo_defs = demo_pushed_def demo_waiting_def demo_empty_def init_sys_def demo_manager_def
  demo_full_ring_def demo_ring_def demo_metadata_def demo_message_def

subsection \<open>The ring buffer\<close>

text \<open>C1. Whatever sequence of pushes, pops, sweeps and size queries a client makes on a fresh
  ring buffer of a capacity the run time can allocate, it never panics and every answer is the
  one of an unbounded-array FIFO limited to that capacity with lazy expiry.\<close>

theorem ring_buffer_is_fifo:
  assumes "0 < cap" "cap \<le> L"
  shows "\<exists>q. NewRingBufferQueue L cap = Ret q \<and>
    queue_run (ring_queue L) ops q = Ret (spec_run cap ops [])"
proof -
  obtain q where q: "NewRingBufferQueue L cap = Ret q" "ring_inv L q" "ring_contents q = []"
    "rb_capacity q = cap"
    using New_ok [OF assms] by blast
  from ring.run_refines [OF q(2), of ops] q show ?thesis
    by (simp add: ring_queue_def Capacity_def)
qed

theorem ring_buffer_is_fifo_witness:
  "\<exists>q. NewRingBufferQueue 10 1 = Ret q \<and>
    queue_run (ring_queue 10)
      [OpPush demo_message, OpPush demo_message, OpSize, OpPop 150, OpPush demo_message, OpPop 160, OpSize] q
    = Ret [AnsPush None, AnsPush (Some ErrQueueFull), AnsSize 1, AnsPop (Inr demo_message),
        AnsPush None, AnsPop (Inl ErrQueueEmpty), AnsSize 0]"
  using ring_buffer_is_fifo [of 1 10 "[OpPush demo_message, OpPush demo_message, OpSize, OpPop 150,
      OpPush demo_message, OpPop 160, OpSize]"]
  by (simp add: spec_push_def spec_pop_def ExpiredAt_iff demo_message_def)



subsection \<open>Concurrent requests\<close>

text \<open>C3. Under any interleaving of requests, creations and sweeps, each queue is FIFO and conserves
  its messages: what has been delivered, followed by what is still queued, is a subsequence of what
  was accepted, in order; every accepted message is exactly once delivered, queued or dropped; and
  a message is dropped only when its expiry time has passed at the clock reading of the drop.\<close>

theorem queue_fifo_and_conservation:
  assumes "rabbit_reachable L s" "r < length (qm_heap (bs_mgr s))"
  shows "subseq (bs_popped s r @ ring_contents (object s r)) (bs_pushed s r)
    \<and> mset (bs_pushed s r)
      = mset (bs_popped s r) + mset (ring_contents (object s r)) + mset (map fst (bs_dropped s r))
    \<and> (\<forall>(m, t) \<in> set (bs_dropped s r). 0 < sint (TTL m) \<and> CreatedAt m + sint (TTL m) \<le> t)"
  using sys_inv_history [OF rabbit_inv(1) [OF assms(1)] assms(2)]
  by (simp add: history_ok_def ExpiredAt_iff)

theorem queue_fifo_and_conservation_witness:
  "rabbit_reachable 10 demo_pushed \<and> bs_pushed demo_pushed 0 = [demo_message]
    \<and> subseq (ring_contents (object demo_pushed 0)) (bs_pushed demo_pushed 0)"
  using queue_fifo_and_conservation [OF demo_pushed_reachable, of 0] demo_pushed_reachable
  by (simp add: demo_defs)



text \<open>C5. Splitting a request at the lock boundary is invisible: the second step of a push or a pop
  does exactly what the whole request would do if it ran without interruption at that moment.\<close>

theorem two_step_requests_are_atomic:
  assumes "rabbit_reachable L s"
  shows "(PendPush i r msg \<in> set (bs_pending s) \<longrightarrow>
        call_queue (qPush (ring_queue L) msg) r (bs_mgr s)
        = UC_Push (ring_queue L) (ID msg) (CreatedAt msg) i (Value msg) (TTL msg) (bs_mgr s))
    \<and> (PendPop i r \<in> set (bs_pending s) \<longrightarrow>
        call_queue (qPop (ring_queue L) now) r (bs_mgr s) = UC_Pop (ring_queue L) now i (bs_mgr s))"
proof (intro conjI impI)
  assume p: "PendPush i r msg \<in> set (bs_pending s)"
  have "qm_queues (bs_mgr s) i = Some r" "0 \<le> sint (TTL msg)"
    using sys_inv_pending [OF rabbit_inv(1) [OF assms] p] sys_inv_valid [OF rabbit_inv(1) [OF assms] p]
    by simp_all
  then show "call_queue (qPush (ring_queue L) msg) r (bs_mgr s)
      = UC_Push (ring_queue L) (ID msg) (CreatedAt msg) i (Value msg) (TTL msg) (bs_mgr s)"
    by (cases msg) (simp add: UC_Push_def GetQueue_def)
next
  assume p: "PendPop i r \<in> set (bs_pending s)"
  have "qm_queues (bs_mgr s) i = Some r"
    using sys_inv_pending [OF rabbit_inv(1) [OF assms] p] by simp
  then show "call_queue (qPop (ring_queue L) now) r (bs_mgr s) = UC_Pop (ring_queue L) now i (bs_mgr s)"
    by (simp add: UC_Pop_def GetQueue_def)
qed

theorem two_step_requests_are_atomic_witness:
  "call_queue (qPush (ring_queue 10) demo_message) 0 (bs_mgr demo_waiting)
    = UC_Push (ring_queue 10) ''m1'' 100 ''q1'' ''hello'' 60 (bs_mgr demo_waiting)"
  using two_step_requests_are_atomic [OF demo_waiting_reachable, of "''q1''" 0 demo_message 0]
  by (simp add: demo_waiting_def) (simp add: demo_message_def)

subsection \<open>The service refines the abstract broker\<close>

text \<open>C6. In every reachable state, \<open>Push\<close>, \<open>Pop\<close> and \<open>Status\<close> of the service return, answer what
  the abstract broker answers (every error included), and leave the state the broker reaches.\<close>

theorem service_refines_broker:
  assumes "rabbit_reachable L s"
    and "msg = \<lparr>ID = newID, Value = value, CreatedAt = now, TTL = ttl\<rparr>"
  shows "(\<exists>m'. UC_Push (ring_queue L) newID now i value ttl (bs_mgr s)
          = Ret (fst (broker_push msg i (broker_of s)), m')
        \<and> abs_broker ring_contents m' = snd (broker_push msg i (broker_of s)))
    \<and> (\<exists>m'. UC_Pop (ring_queue L) now i (bs_mgr s) = Ret (fst (broker_pop now i (broker_of s)), m')
        \<and> abs_broker ring_contents m' = snd (broker_pop now i (broker_of s)))
    \<and> UC_Status (ring_queue L) i (bs_mgr s) = broker_status i (broker_of s)"
  using ring_factory.Push_refines [OF rabbit_inv(3) [OF assms(1)] assms(2), of i]
    ring_factory.Pop_refines [OF rabbit_inv(3) [OF assms(1)], of now i]
    ring_factory.Status_refines [OF rabbit_inv(3) [OF assms(1)], of i]
  by (intro conjI) blast+

lemma demo_broker: "broker_of demo_pushed = [''q1'' \<mapsto> (demo_metadata, [demo_message])]"
  by (rule ext) (simp add: abs_broker_def demo_defs ring_contents_def)

theorem service_refines_broker_witness:
  "(\<exists>m'. UC_Pop (ring_queue 10) 120 ''q1'' (bs_mgr demo_pushed) = Ret (Inr demo_message, m')
      \<and> abs_broker ring_contents m' = [''q1'' \<mapsto> (demo_metadata, [])])
    \<and> UC_Status (ring_queue 10) ''q2'' (bs_mgr demo_pushed) = Inl ErrQueueNotFound"
  using service_refines_broker [OF demo_pushed_reachable refl, where i = "''q1''" and now = 120]
    service_refines_broker [OF demo_pushed_reachable refl, where i = "''q2''" and now = 120]
  by (simp add: demo_broker broker_pop_def broker_status_def spec_pop_def ExpiredAt_iff)
    (simp add: demo_message_def)

text \<open>C7. A creation that returns answers and changes the broker as \<open>broker_create\<close> says: names are
  trimmed, empty names and non-positive capacities are refused, a taken name is a conflict, and
  otherwise an empty queue appears under the new identifier. The manager's maps stay consistent.\<close>

theorem creation_refines_broker:
  assumes "rabbit_reachable L s" "broker_of s newID = None"
    and "UC_CreateQueue newID name cap (bs_mgr s) = Ret (res, m')"
  shows "res = fst (broker_create newID name cap (broker_of s))
    \<and> abs_broker ring_contents m' = snd (broker_create newID name cap (broker_of s))
    \<and> manager_inv (ring_inv L) (qCapacity (ring_queue L)) m'"
  using ring_factory.Create_refines [OF rabbit_inv(3,2) [OF assms(1)] assms(2,3)] by simp

theorem creation_refines_broker_witness:
  "abs_broker ring_contents (demo_manager demo_ring)
    = snd (broker_create ''q1'' ''orders'' 2 (broker_of (init_sys (server_manager 10))))"
  using creation_refines_broker [OF reachable.start, where newID = "''q1''" and L = 10 and name = "''orders''"
      and cap = 2 and res = "Inr ''q1''" and m' = "demo_manager demo_ring"] demo_create
  by (simp add: init_sys_def abs_broker_def server_manager_def NewQueueManager_def)

subsection \<open>The cleaner\<close>

text \<open>C8. One sweep of the cleaner, in whatever order the metadata map is visited, removes from every
  queue exactly the messages expired at that queue's clock reading and keeps the others in order.\<close>

theorem sweep_removes_exactly_the_expired:
  assumes "rabbit_reachable L s" "is_iteration (qm_metadata (bs_mgr s)) es"
  shows "\<exists>log m'. sweep (ring_queue L) c es clk (bs_mgr s) = Ret (log, m')
    \<and> abs_broker ring_contents m'
      = (\<lambda>i. map_option (\<lambda>(md, xs). (md, filter (\<lambda>m. \<not> ExpiredAt m (clk i)) xs)) (broker_of s i))"
  using ring_factory.sweep_ok_all [OF rabbit_inv(3) [OF assms(1)] assms(2), of c clk]
  by (auto simp: broker_sweep_def spec_sweep_def)

lemma demo_iteration: "is_iteration (qm_metadata (bs_mgr demo_pushed)) [(''q1'', demo_metadata)]"
  by (simp add: is_iteration_def demo_defs)

theorem sweep_removes_exactly_the_expired_witness:
  "\<exists>log m'. sweep (ring_queue 10) server_cleaner [(''q1'', demo_metadata)] (\<lambda>_. 160) (bs_mgr demo_pushed)
      = Ret (log, m') \<and> abs_broker ring_contents m' = [''q1'' \<mapsto> (demo_metadata, [])]"
proof -
  have "(\<lambda>i. map_option (\<lambda>(md, xs). (md, filter (\<lambda>m. \<not> ExpiredAt m 160) xs)) (broker_of demo_pushed i))
      = [''q1'' \<mapsto> (demo_metadata, [])]"
    by (rule ext) (simp add: demo_broker ExpiredAt_iff demo_message_def)
  then show ?thesis
    using sweep_removes_exactly_the_expired [OF demo_pushed_reachable demo_iteration,
        of server_cleaner "\<lambda>_. 160"] by simp
qed

text \<open>C9. The cleaner is invisible to consumers: a pop at a clock reading not before the sweep's
  delivers the same message (or the same error) whether or not the sweep ran before it.\<close>

theorem cleaner_is_invisible_to_pop:
  assumes "rabbit_reachable L s" "is_iteration (qm_metadata (bs_mgr s)) es" "clk i \<le> now"
  shows "\<exists>log m1 res m2 m3. sweep (ring_queue L) c es clk (bs_mgr s) = Ret (log, m1)
    \<and> UC_Pop (ring_queue L) now i m1 = Ret (res, m2)
    \<and> UC_Pop (ring_queue L) now i (bs_mgr s) = Ret (res, m3)"
proof -
  obtain log m1 where m1: "sweep (ring_queue L) c es clk (bs_mgr s) = Ret (log, m1)"
    "manager_inv (ring_inv L) (qCapacity (ring_queue L)) m1"
    "abs_broker ring_contents m1 = broker_sweep clk UNIV (broker_of s)"
    using ring_factory.sweep_ok_all [OF rabbit_inv(3) [OF assms(1)] assms(2), of c clk] by blast
  have "fst (broker_pop now i (broker_sweep clk UNIV (broker_of s))) = fst (broker_pop now i (broker_of s))"
    using spec_pop_after_sweep [OF assms(3)]
    by (auto simp: broker_pop_def broker_sweep_def split: option.splits)
  with m1 ring_factory.Pop_refines [OF m1(2), of now i]
    ring_factory.Pop_refines [OF rabbit_inv(3) [OF assms(1)], of now i]
  show ?thesis by auto
qed

theorem cleaner_is_invisible_to_pop_witness:
  "\<exists>log m1 m2. sweep (ring_queue 10) server_cleaner [(''q1'', demo_metadata)] (\<lambda>_. 110) (bs_mgr demo_pushed)
      = Ret (log, m1) \<and> UC_Pop (ring_queue 10) 120 ''q1'' m1 = Ret (Inr demo_message, m2)"
proof -
  have "fst (broker_pop 120 ''q1'' (broker_of demo_pushed)) = Inr demo_message"
    by (simp add: demo_broker broker_pop_def spec_pop_def ExpiredAt_iff) (simp add: demo_message_def)
  then obtain m3 where "UC_Pop (ring_queue 10) 120 ''q1'' (bs_mgr demo_pushed) = Ret (Inr demo_message, m3)"
    using ring_factory.Pop_refines [OF rabbit_inv(3) [OF demo_pushed_reachable], of 120 "''q1''"] by auto
  then show ?thesis
    using cleaner_is_invisible_to_pop [OF demo_pushed_reachable demo_iteration, of "\<lambda>_. 110" "''q1''" 120
        server_cleaner] by auto
qed

text \<open>The sweeps of a run of the worker, one after another, on the abstract broker.\<close>

fun broker_ticks :: "cleaner_event list \<Rightarrow> broker \<Rightarrow> broker" where
  "broker_ticks [] b = b"
| "broker_ticks (CtxDone # evs) b = b"
| "broker_ticks (Tick es clk # evs) b = broker_ticks evs (broker_sweep clk UNIV b)"

fun tick_orders_ok :: "(string \<rightharpoonup> QueueMetadata) \<Rightarrow> cleaner_event list \<Rightarrow> bool" where
  "tick_orders_ok md [] = True"
| "tick_orders_ok md (CtxDone # evs) = tick_orders_ok md evs"
| "tick_orders_ok md (Tick es clk # evs) = (is_iteration md es \<and> tick_orders_ok md evs)"

lemma run_refines_ticks:
  "manager_inv (ring_inv L) (qCapacity (ring_queue L)) m \<Longrightarrow> tick_orders_ok (qm_metadata m) evs \<Longrightarrow>
     \<exists>log m'. run_events (ring_queue L) c evs m = Ret (CtxDone \<in> set evs, log, m')
       \<and> abs_broker ring_contents m' = broker_ticks evs (abs_broker ring_contents m)"
proof (induction "ring_queue L" c evs m rule: run_events.induct)
  case (1 c m)
  then show ?case by simp
next
  case (2 c evs m)
  then show ?case by simp
next
  case (3 c es clk evs m)
  obtain log m1 where m1: "sweep (ring_queue L) c es clk m = Ret (log, m1)"
    "manager_inv (ring_inv L) (qCapacity (ring_queue L)) m1" "qm_metadata m1 = qm_metadata m"
    "abs_broker ring_contents m1 = broker_sweep clk UNIV (abs_broker ring_contents m)"
    using ring_factory.sweep_ok_all [OF 3(2), of es c clk] 3(3) by auto
  have "tick_orders_ok (qm_metadata m1) evs" using 3(3) m1(3) by simp
  from 3(1) [OF m1(2) this] m1 show ?case by auto
qed

text \<open>C10. The worker never panics, whatever interval its cleaner was built with, sweeps once per tick and
  returns exactly when its context is cancelled, whatever ticks came before; ticks after the cancellation
  have no effect.\<close>

theorem worker_sweeps_until_cancelled:
  assumes "rabbit_reachable L s" "tick_orders_ok (qm_metadata (bs_mgr s)) evs"
  shows "\<exists>log m'. run (ring_queue L) (NewTTLCleaner l interval) evs (bs_mgr s) = Ret (CtxDone \<in> set evs, log, m')
    \<and> abs_broker ring_contents m' = broker_ticks evs (broker_of s)"
  using run_refines_ticks [OF rabbit_inv(3) [OF assms(1)] assms(2)]
  by (simp add: run_def cleaner_interval_positive)

theorem worker_sweeps_until_cancelled_witness:
  "\<exists>log m'. run (ring_queue 10) (NewTTLCleaner None 0)
      [Tick [(''q1'', demo_metadata)] (\<lambda>_. 110), CtxDone, Tick [(''q1'', demo_metadata)] (\<lambda>_. 999)]
      (bs_mgr demo_pushed) = Ret (True, log, m')
    \<and> abs_broker ring_contents m' = broker_sweep (\<lambda>_. 110) UNIV (broker_of demo_pushed)"
  using worker_sweeps_until_cancelled [OF demo_pushed_reachable,
      of "[Tick [(''q1'', demo_metadata)] (\<lambda>_. 110), CtxDone, Tick [(''q1'', demo_metadata)] (\<lambda>_. 999)]"
         None 0] demo_iteration
  by simp

subsection \<open>The HTTP adapter\<close>

text \<open>C11. A pop request never delivers an expired message: the answer is 404 for an unknown queue,
  204 when nothing unexpired is queued, and 200 with the oldest unexpired message otherwise.\<close>

theorem http_pop_answer:
  assumes "rabbit_reachable L s"
  shows "\<exists>m'. H_Pop (ring_queue L) now i (bs_mgr s) = Ret
    (case broker_of s i of
       None \<Rightarrow> Response 404 (errorResp ''queue not found'')
     | Some (md, xs) \<Rightarrow>
         (case dropWhile (\<lambda>m. ExpiredAt m now) xs of
            [] \<Rightarrow> Response 204 no_body
          | m # ys \<Rightarrow> Response 200 (messageResp (ID m) (Value m) (RFC3339 0 (CreatedAt m)))), m')"
proof -
  obtain m' where m': "UC_Pop (ring_queue L) now i (bs_mgr s)
      = Ret (fst (broker_pop now i (broker_of s)), m')"
    using ring_factory.Pop_refines [OF rabbit_inv(3) [OF assms], of now i] by blast
  show ?thesis
  proof (cases "broker_of s i")
    case None
    with m' show ?thesis by (simp add: H_Pop_def broker_pop_def writeDomainError_def)
  next
    case (Some e)
    obtain md xs where e: "e = (md, xs)" by (cases e)
    show ?thesis
    proof (cases "dropWhile (\<lambda>m. ExpiredAt m now) xs")
      case Nil
      with m' Some e spec_pop_empty [OF Nil] show ?thesis
        unfolding H_Pop_def broker_pop_def Some e by (simp add: Nil writeDomainError_def)
    next
      case (Cons m ys)
      with m' Some e spec_pop_head [OF Cons] show ?thesis
        unfolding H_Pop_def broker_pop_def Some e by simp
    qed
  qed
qed

text \<open>The error text of the examples.\<close>

definition demo_refusal :: "string \<Rightarrow> string" where "demo_refusal _ = ''bad request''"

definition demo_binding :: "string \<Rightarrow> string + createQueueReq" where
  "demo_binding = ShouldBindJSON demo_refusal decode_createQueueReq createQueueReq_valid"

theorem http_pop_answer_witness:
  \<open>\<exists>r m'. H_Pop (ring_queue 10) 159 ''q1'' (bs_mgr demo_pushed) = Ret (r, m') \<and> status r = 200
      \<and> response_text r = ''{"id":"m1","value":"hello","created_at":"1970-01-01T00:00:00Z"}''\<close>
proof -
  have t: "RFC3339 0 (CreatedAt demo_message) = ''1970-01-01T00:00:00Z''"
    by (simp add: demo_message_def RFC3339_def instant_text_simps civil_examples)
  obtain m' where "H_Pop (ring_queue 10) 159 ''q1'' (bs_mgr demo_pushed)
      = Ret (Response 200 (messageResp ''m1'' ''hello'' ''1970-01-01T00:00:00Z''), m')"
    using http_pop_answer [OF demo_pushed_reachable, of 159 "''q1''"] t
    by (auto simp: demo_broker ExpiredAt_iff) (auto simp: demo_message_def)
  then show ?thesis by (auto simp: response_text_def json_quote_def json_ascii_def)
qed

text \<open>C12. The answer to a push, for every queue, every value and every TTL a Go \<open>int\<close> holds, from the
  text of the request. The TTL counts seconds and becomes nanoseconds modulo \<open>2 ^ 64\<close>; the result is
  refused with 400 when it is negative. Otherwise the answer is 404 for an unknown queue, 409 for a
  full one and 202 when the message is appended, and nothing changes unless it is. The message expires
  that many nanoseconds after the request's clock reading, never for 0; up to 9223372036 seconds that
  is the TTL asked for.\<close>

theorem http_push_answer:
  assumes "rabbit_reachable L s" and gin: "json_binder decode_pushReq (\<lambda>_. True) bound"
    and range: "- (2 ^ 63) \<le> ttl" "ttl < 2 ^ 63" and d: "d = seconds_duration ttl"
  shows "\<exists>m' msg. post_push (ring_queue L) bound (push_text v ttl) newID now i (bs_mgr s) = Ret
      (if d < 0 then Response 400 (errorResp ''invalid ttl'')
       else case broker_of s i of
          None \<Rightarrow> Response 404 (errorResp ''queue not found'')
        | Some (md, xs) \<Rightarrow>
            if int (length xs) = md_Capacity md then Response 409 (errorResp ''queue full'')
            else Response 202 status_ok, m')
    \<and> abs_broker ring_contents m' =
        (case broker_of s i of
           Some (md, xs) \<Rightarrow>
             if 0 \<le> d \<and> int (length xs) \<noteq> md_Capacity md then (broker_of s)(i \<mapsto> (md, xs @ [msg])) else broker_of s
         | None \<Rightarrow> broker_of s)
    \<and> ID msg = newID \<and> Value msg = to_valid v
    \<and> (\<forall>t. ExpiredAt msg t \<longleftrightarrow> 0 < d \<and> now + d \<le> t)
    \<and> (\<bar>ttl\<bar> \<le> 9223372036 \<longrightarrow> d = ttl * 1000000000)"
proof -
  let ?msg = "\<lparr>ID = newID, Value = to_valid v, CreatedAt = now, TTL = word_of_int ttl * Second\<rparr>"
  have "sint (word_of_int ttl :: 64 word) = ttl"
    using range by (intro sint_word_of_int_64) (simp_all add: min_duration_def max_duration_def)
  then have ttl: "sint (TTL ?msg) = d" by (simp only: message.simps sint_mult_Second d)
  obtain m' where m': "UC_Push (ring_queue L) newID now i (to_valid v) (word_of_int ttl * Second) (bs_mgr s)
      = Ret (fst (broker_push ?msg i (broker_of s)), m')"
      "abs_broker ring_contents m' = snd (broker_push ?msg i (broker_of s))"
    using ring_factory.Push_refines [OF rabbit_inv(3) [OF assms(1)] refl, of newID now i "to_valid v"
        "word_of_int ttl * Second"] by blast
  have exp: "ExpiredAt ?msg t \<longleftrightarrow> 0 < d \<and> now + d \<le> t" for t
    unfolding ExpiredAt_iff ttl by simp
  show ?thesis
    using m' exp ttl seconds_duration_exact [of ttl]
    by (intro exI [of _ m'] exI [of _ ?msg])
      (auto simp: post_push_def bind_push_text [OF gin range] H_Push_def Let_def broker_push_def spec_push_def
        writeDomainError_def d split: option.splits)
qed

text \<open>A minute is a minute, but 18446744074 seconds, over 584 years, are 0.29 seconds.\<close>

theorem http_push_answer_witness:
  \<open>\<exists>m' msg. post_push (ring_queue 10) (ShouldBindJSON demo_refusal decode_pushReq (\<lambda>_. True)) ''{"value":"x","ttl":18446744074}'' ''m2'' 5 ''q1'' (bs_mgr demo_pushed)
      = Ret (Response 202 status_ok, m') \<and> \<not> ExpiredAt msg 290448388 \<and> ExpiredAt msg 290448389\<close>
proof -
  have t: \<open>push_text ''x'' 18446744074 = ''{"value":"x","ttl":18446744074}''\<close>
    by (simp add: push_text_def json_quote_def json_ascii_def FormatInt_def digits.simps)
  obtain m' msg where "post_push (ring_queue 10) (ShouldBindJSON demo_refusal decode_pushReq (\<lambda>_. True)) (push_text ''x'' 18446744074) ''m2'' 5 ''q1''
      (bs_mgr demo_pushed) = Ret (Response 202 status_ok, m')"
    "\<forall>t. ExpiredAt msg t \<longleftrightarrow> 290448389 \<le> t"
    using http_push_answer [OF demo_pushed_reachable gin.json_binder_axioms _ _ refl, of 18446744074 demo_refusal "''x''" "''m2''" 5 "''q1''"]
    by (auto simp: demo_broker demo_metadata_def seconds_duration_def)
  then show ?thesis unfolding t by (intro exI [of _ m'] exI [of _ msg]) simp
qed

text \<open>C14. The answer to a creation, from the text of the request: 400 for an empty name or a zero
  capacity, which binding refuses, and for a blank name or a negative capacity, which the service
  refuses; 409 for a taken name; otherwise 201. That answer reports the name as it was sent, while the
  queue is stored, and reported by the status request, under the trimmed name; it starts empty, with
  the requested capacity.\<close>

theorem http_create_then_status:
  assumes reach: "rabbit_reachable L s" and fresh: "broker_of s newID = None"
    and gin: "json_binder decode_createQueueReq createQueueReq_valid bound"
    and range: "- (2 ^ 63) \<le> cap" "cap < 2 ^ 63" and n: "n = to_valid name"
    and run: "post_queues bound (createQueue_text name cap) newID (bs_mgr s) = Ret (resp, m')"
  shows "resp =
      (if n = [] \<or> cap = 0 then Response 400 (errorResp (projl (bound (createQueue_text name cap))))
       else if TrimSpace n = [] then Response 400 (errorResp ''invalid queue name'')
       else if cap < 0 then Response 400 (errorResp ''invalid capacity'')
       else if TrimSpace n \<in> broker_names (broker_of s) then Response 409 (errorResp ''queue already exists'')
       else Response 201 (createQueueResp newID n cap))
    \<and> (status resp = 201 \<longrightarrow>
        H_Status (ring_queue L) newID m' = Response 200 (statusResp newID (TrimSpace n) 0 cap))"
proof (cases "n = [] \<or> cap = 0")
  case True
  then have "isl (bound (createQueue_text name cap))" using bind_createQueue_text(1) [OF gin range, of name] n by simp
  then obtain e where e: "bound (createQueue_text name cap) = Inl e" by (auto simp: isl_def)
  with run n True show ?thesis by (auto simp: post_queues_def H_CreateQueue_def)
next
  case False
  then have h: "H_CreateQueue (Inr \<lparr>cq_Name = n, cq_Capacity = cap\<rparr>) newID (bs_mgr s) = Ret (resp, m')"
    using run n bind_createQueue_text(2) [OF gin range, of name] by (simp add: post_queues_def)
  then obtain res m1 where res: "UC_CreateQueue newID n cap (bs_mgr s) = Ret (res, m1)"
    by (auto simp: H_CreateQueue_def go_bind_eq_Ret_iff)
  with h have resp: "m1 = m'"
    "resp = (case res of Inl e \<Rightarrow> writeDomainError e | Inr i \<Rightarrow> Response 201 (createQueueResp i n cap))"
    by (auto simp: H_CreateQueue_def split: sum.splits)
  have m': "res = fst (broker_create newID n cap (broker_of s))"
    "abs_broker ring_contents m' = snd (broker_create newID n cap (broker_of s))"
    "manager_inv (ring_inv L) (qCapacity (ring_queue L)) m'"
    using ring_factory.Create_refines [OF rabbit_inv(3,2) [OF reach] fresh res] resp(1) by auto
  show ?thesis
    using False resp(2) m'(1,2) ring_factory.Status_refines [OF m'(3), of newID]
    by (auto simp: H_Status_def broker_create_def broker_status_def writeDomainError_def split: if_splits)
qed

theorem http_create_then_status_witness:
  \<open>\<exists>m'. post_queues demo_binding ''{"name":" orders","capacity":2}'' ''q1'' (server_manager 10)
      = Ret (Response 201 (createQueueResp ''q1'' '' orders'' 2), m')
    \<and> response_text (H_Status (ring_queue 10) ''q1'' m') = ''{"id":"q1","name":"orders","size":0,"capacity":2}''\<close>
proof -
  have trim: "TrimSpace '' orders'' = ''orders''" by code_simp
  have ascii: "to_valid '' orders'' = '' orders''" by (rule to_valid_ascii) (simp add: ascii_def)
  have t: \<open>createQueue_text '' orders'' 2 = ''{"name":" orders","capacity":2}''\<close>
    by (simp add: createQueue_text_def json_quote_def json_ascii_def FormatInt_def digits.simps)
  have run: "post_queues demo_binding (createQueue_text '' orders'' 2) ''q1'' (bs_mgr (init_sys (server_manager 10)))
      = Ret (Response 201 (createQueueResp ''q1'' '' orders'' 2), demo_manager demo_ring)"
    using demo_create
    by (simp add: post_queues_def demo_binding_def bind_createQueue_text(2) [OF gin.json_binder_axioms] ascii H_CreateQueue_def UC_CreateQueue_def Let_def trim
        demo_trim init_sys_def)
  have fresh: "broker_of (init_sys (server_manager 10)) ''q1'' = None" by simp
  have "H_Status (ring_queue 10) ''q1'' (demo_manager demo_ring) = Response 200 (statusResp ''q1'' ''orders'' 0 2)"
    using http_create_then_status [OF reachable.start fresh gin.json_binder_axioms _ _ refl run [unfolded demo_binding_def]] trim ascii by simp
  with run show ?thesis
    unfolding t by (auto simp: init_sys_def response_text_def json_quote_def json_ascii_def FormatInt_def digits.simps)
qed

text \<open>C15. A create request whose capacity exceeds what the run time can allocate is not refused: the
  allocation panics. The service only checks that the capacity is positive.\<close>

theorem http_create_oversized_panics:
  assumes "rabbit_reachable L s" "TrimSpace (cq_Name req) \<noteq> []" "0 < cq_Capacity req" "L < cq_Capacity req"
    and "TrimSpace (cq_Name req) \<notin> broker_names (broker_of s)"
  shows "H_CreateQueue (Inr req) newID (bs_mgr s) = Panic MakeSliceLen"
  using assms(2-5) broker_names_abs [OF rabbit_inv(3) [OF assms(1)], of "TrimSpace (cq_Name req)" ring_contents]
    rabbit_inv(2) [OF assms(1)]
  by (simp add: H_CreateQueue_def UC_CreateQueue_def Let_def CreateQueue_def RingBufferFactory_New_def
      New_panics)

theorem http_create_oversized_panics_witness:
  "H_CreateQueue (Inr \<lparr>cq_Name = ''orders'', cq_Capacity = 11\<rparr>) ''q1'' (server_manager 10) = Panic MakeSliceLen"
  using http_create_oversized_panics [OF reachable.start, where L = 10
      and req = "\<lparr>cq_Name = ''orders'', cq_Capacity = 11\<rparr>" and newID = "''q1''"]
  by (simp add: demo_trim broker_names_def) (simp add: init_sys_def)

end
