(* ===== verification/Go_Url.thy ===== *)
theory Go_Url
  imports Go_Path "HOL-Library.Monad_Syntax"
begin

text \<open>
  Package \<open>net/url\<close> (Go 1.25.0, the version the module names): \<open>Parse\<close> and \<open>URL.String\<close> with the
  escaping of each part of a URL, and what parsing a rendered URL gives back.
\<close>

subsection \<open>Escaping\<close>

datatype encoding = encodePath | encodeHost | encodeZone | encodeUserPassword | encodeFragment

definition alphanumeric :: "char \<Rightarrow> bool" where
  "alphanumeric c \<longleftrightarrow>
     (let n = of_char c :: nat in 48 \<le> n \<and> n \<le> 57 \<or> 65 \<le> n \<and> n \<le> 90 \<or> 97 \<le> n \<and> n \<le> 122)"

text \<open>The host characters that stay: \<open>" & ' ( ) * + , : ; < = > [ ]\<close>, \<open>!\<close> and \<open>$\<close>.\<close>

definition host_mark :: "char \<Rightarrow> bool" where
  "host_mark c \<longleftrightarrow> c \<in> set (CHR 0x27 # CHR 0x22 # ''!$&()*+,;=:[]<>'')"

definition shouldEscape :: "encoding \<Rightarrow> char \<Rightarrow> bool" where
  "shouldEscape m c =
     (if alphanumeric c then False
      else if m \<in> {encodeHost, encodeZone} \<and> host_mark c then False
      else if c \<in> set ''-_.~'' then False
      else if c \<in> set ''$&+,/:;=?@'' \<and> m = encodePath then c = CHR ''?''
      else if c \<in> set ''$&+,/:;=?@'' \<and> m = encodeUserPassword then c \<in> set ''@/?:''
      else if c \<in> set ''$&+,/:;=?@'' \<and> m = encodeFragment then False
      else if m = encodeFragment \<and> c \<in> set ''!()*'' then False
      else True)"

definition percent :: "char \<Rightarrow> string" where
  "percent c = (let n = of_char c :: nat in [CHR ''%'', hex_digit (n div 16), hex_digit (n mod 16)])"

definition url_escape :: "encoding \<Rightarrow> string \<Rightarrow> string" where
  "url_escape m s = concat (map (\<lambda>c. if shouldEscape m c then percent c else [c]) s)"

text \<open>In a host only bytes beyond ASCII and the percent sign are escaped, in a zone also the space.\<close>

definition escape_allowed :: "encoding \<Rightarrow> nat \<Rightarrow> bool" where
  "escape_allowed m v \<longleftrightarrow>
     (m = encodeHost \<longrightarrow> 0x80 \<le> v \<or> v = 0x25)
     \<and> (m = encodeZone \<longrightarrow> v = 0x25 \<or> v = 0x20 \<or> \<not> shouldEscape encodeHost (char_of v))"

definition plain_allowed :: "encoding \<Rightarrow> char \<Rightarrow> bool" where
  "plain_allowed m c \<longleftrightarrow>
     (m \<in> {encodeHost, encodeZone} \<longrightarrow> 0x80 \<le> (of_char c :: nat) \<or> \<not> shouldEscape m c)"

fun url_unescape :: "encoding \<Rightarrow> string \<Rightarrow> string option" where
  "url_unescape m [] = Some []"
| "url_unescape m (c # cs) =
     (if c = CHR ''%'' then
        (case cs of
           a # b # rest \<Rightarrow>
             (case (unhex a, unhex b) of
                (Some x, Some y) \<Rightarrow>
                  if escape_allowed m (16 * x + y)
                  then map_option ((#) (char_of (16 * x + y))) (url_unescape m rest) else None
              | _ \<Rightarrow> None)
         | _ \<Rightarrow> None)
      else if plain_allowed m c then map_option ((#) c) (url_unescape m cs)
      else None)"

subsection \<open>The parts of a URL\<close>

text \<open>\<open>pu_User\<close> is the name and, when there is one, the password.\<close>

record parsed_url =
  pu_Scheme :: string
  pu_Opaque :: string
  pu_User :: "(string \<times> string option) option"
  pu_Host :: string
  pu_Path :: string
  pu_RawPath :: string
  pu_OmitHost :: bool
  pu_ForceQuery :: bool
  pu_RawQuery :: string
  pu_Fragment :: string
  pu_RawFragment :: string

definition zero_url :: parsed_url where
  "zero_url =
     \<lparr>pu_Scheme = [], pu_Opaque = [], pu_User = None, pu_Host = [], pu_Path = [], pu_RawPath = [],
      pu_OmitHost = False, pu_ForceQuery = False, pu_RawQuery = [], pu_Fragment = [], pu_RawFragment = []\<rparr>"

lemma zero_url_sel [simp]:
  "pu_Scheme zero_url = []" "pu_Opaque zero_url = []" "pu_User zero_url = None" "pu_Host zero_url = []"
  "pu_Path zero_url = []" "pu_RawPath zero_url = []" "\<not> pu_OmitHost zero_url" "\<not> pu_ForceQuery zero_url"
  "pu_RawQuery zero_url = []" "pu_Fragment zero_url = []" "pu_RawFragment zero_url = []"
  by (simp_all add: zero_url_def)

text \<open>\<open>strings.Cut\<close>, and a cut at the last occurrence.\<close>

definition Cut :: "char \<Rightarrow> string \<Rightarrow> string \<times> string" where
  "Cut c s = (takeWhile ((\<noteq>) c) s, tl (dropWhile ((\<noteq>) c) s))"

definition cut_last :: "char \<Rightarrow> string \<Rightarrow> (string \<times> string) option" where
  "cut_last c s =
     (case dropWhile ((\<noteq>) c) (rev s) of
        [] \<Rightarrow> None
      | _ # r \<Rightarrow> Some (rev r, rev (takeWhile ((\<noteq>) c) (rev s))))"

subsection \<open>Scheme and authority\<close>

definition ctl :: "char \<Rightarrow> bool" where
  "ctl c \<longleftrightarrow> (of_char c :: nat) < 0x20 \<or> c = CHR 0x7F"

definition url_digit :: "char \<Rightarrow> bool" where
  "url_digit c \<longleftrightarrow> (let n = of_char c :: nat in 48 \<le> n \<and> n \<le> 57)"

definition letter :: "char \<Rightarrow> bool" where
  "letter c \<longleftrightarrow> alphanumeric c \<and> \<not> url_digit c"

definition getScheme :: "string \<Rightarrow> (string \<times> string) option" where
  "getScheme s =
     (let w = takeWhile (\<lambda>c. alphanumeric c \<or> c \<in> set ''+-.'') s in
      case drop (length w) s of
        [] \<Rightarrow> Some ([], s)
      | c # rest \<Rightarrow>
          if c \<noteq> CHR '':'' then Some ([], s)
          else if w = [] then None
          else if letter (hd w) then Some (w, rest)
          else Some ([], s))"

definition validOptionalPort :: "string \<Rightarrow> bool" where
  "validOptionalPort s \<longleftrightarrow> (case s of [] \<Rightarrow> True | c # ds \<Rightarrow> c = CHR '':'' \<and> list_all url_digit ds)"

text \<open>The zone of an IP literal starts at its first escaped percent sign.\<close>

fun cut_zone :: "string \<Rightarrow> (string \<times> string) option" where
  "cut_zone [] = None"
| "cut_zone (c # cs) =
     (if prefix ''%25'' (c # cs) then Some ([], c # cs) else map_option (apfst ((#) c)) (cut_zone cs))"

definition parseHost :: "string \<Rightarrow> string option" where
  "parseHost host =
     (if prefix ''['' host then
        (case cut_last (CHR '']'') host of
           None \<Rightarrow> None
         | Some (literal, colonPort) \<Rightarrow>
             if \<not> validOptionalPort colonPort then None
             else
               (case cut_zone literal of
                  Some (ip, zone) \<Rightarrow>
                    do {
                      host1 \<leftarrow> url_unescape encodeHost ip;
                      host2 \<leftarrow> url_unescape encodeZone zone;
                      host3 \<leftarrow> url_unescape encodeHost (CHR '']'' # colonPort);
                      Some (host1 @ host2 @ host3) }
                | None \<Rightarrow> url_unescape encodeHost host))
      else
        (case cut_last (CHR '':'') host of
           Some (_, port) \<Rightarrow>
             if validOptionalPort (CHR '':'' # port) then url_unescape encodeHost host else None
         | None \<Rightarrow> url_unescape encodeHost host))"

definition validUserinfo :: "string \<Rightarrow> bool" where
  "validUserinfo s \<longleftrightarrow> list_all (\<lambda>c. alphanumeric c \<or> c \<in> set (CHR 0x27 # ''-._:~!$&()*+,;=%@'')) s"

definition parseUserinfo :: "string \<Rightarrow> (string \<times> string option) option" where
  "parseUserinfo s =
     (if \<not> validUserinfo s then None
      else if CHR '':'' \<in> set s then
        (case Cut (CHR '':'') s of (name, pass) \<Rightarrow>
           do {
             name \<leftarrow> url_unescape encodeUserPassword name;
             pass \<leftarrow> url_unescape encodeUserPassword pass;
             Some (name, Some pass) })
      else map_option (\<lambda>name. (name, None)) (url_unescape encodeUserPassword s))"

definition parseAuthority :: "string \<Rightarrow> ((string \<times> string option) option \<times> string) option" where
  "parseAuthority s =
     (case cut_last (CHR ''@'') s of
        None \<Rightarrow> map_option (Pair None) (parseHost s)
      | Some (userinfo, host) \<Rightarrow>
          do {
            host \<leftarrow> parseHost host;
            user \<leftarrow> parseUserinfo userinfo;
            Some (Some user, host) })"

subsection \<open>\<open>Parse\<close>\<close>

definition setPath :: "string \<Rightarrow> parsed_url \<Rightarrow> parsed_url option" where
  "setPath p u =
     (case url_unescape encodePath p of
        None \<Rightarrow> None
      | Some path \<Rightarrow>
          Some (u\<lparr>pu_Path := path, pu_RawPath := (if p = url_escape encodePath path then [] else p)\<rparr>))"

definition setFragment :: "string \<Rightarrow> parsed_url \<Rightarrow> parsed_url option" where
  "setFragment f u =
     (case url_unescape encodeFragment f of
        None \<Rightarrow> None
      | Some frag \<Rightarrow>
          Some (u\<lparr>pu_Fragment := frag, pu_RawFragment := (if f = url_escape encodeFragment frag then [] else f)\<rparr>))"

text \<open>A lone question mark at the end is remembered by a flag.\<close>

definition split_query :: "string \<Rightarrow> bool \<times> string \<times> string" where
  "split_query s =
     (if s \<noteq> [] \<and> last s = CHR ''?'' \<and> count_list s (CHR ''?'') = 1 then (True, butlast s, [])
      else (case Cut (CHR ''?'') s of (rest, query) \<Rightarrow> (False, rest, query)))"

definition parse_hierarchy :: "string \<Rightarrow> parsed_url \<Rightarrow> parsed_url option" where
  "parse_hierarchy rest u =
     (if prefix ''//'' rest \<and> (pu_Scheme u \<noteq> [] \<or> \<not> prefix ''///'' rest) then
        do {
          (user, host) \<leftarrow> parseAuthority (takeWhile ((\<noteq>) CHR ''/'') (drop 2 rest));
          setPath (dropWhile ((\<noteq>) CHR ''/'') (drop 2 rest)) (u\<lparr>pu_User := user, pu_Host := host\<rparr>) }
      else setPath rest (u\<lparr>pu_OmitHost := (pu_Scheme u \<noteq> [] \<and> prefix ''/'' rest)\<rparr>))"

definition url_parse :: "string \<Rightarrow> parsed_url option" where
  "url_parse raw =
     (if list_ex ctl raw then None
      else if raw = ''*'' then Some (zero_url\<lparr>pu_Path := ''*''\<rparr>)
      else
        (case getScheme raw of
           None \<Rightarrow> None
         | Some (scheme, rest0) \<Rightarrow>
             (case split_query rest0 of (force, rest, query) \<Rightarrow>
                let u = zero_url\<lparr>pu_Scheme := map ascii_lower scheme, pu_ForceQuery := force, pu_RawQuery := query\<rparr> in
                if \<not> prefix ''/'' rest \<and> scheme \<noteq> [] then Some (u\<lparr>pu_Opaque := rest\<rparr>)
                else if \<not> prefix ''/'' rest \<and> CHR '':'' \<in> set (fst (Cut (CHR ''/'') rest)) then None
                else parse_hierarchy rest u)))"

definition url_Parse :: "string \<Rightarrow> parsed_url option" where
  "url_Parse rawURL =
     (case Cut (CHR ''#'') rawURL of (u, frag) \<Rightarrow>
        (case url_parse u of
           None \<Rightarrow> None
         | Some url \<Rightarrow> if frag = [] then Some url else setFragment frag url))"

subsection \<open>\<open>String\<close>\<close>

definition validEncoded :: "encoding \<Rightarrow> string \<Rightarrow> bool" where
  "validEncoded m s \<longleftrightarrow>
     list_all (\<lambda>c. c \<in> set (CHR 0x27 # ''!$&()*+,;=:@[]%'') \<or> \<not> shouldEscape m c) s"

text \<open>The form a part was given in, when it is valid and still fits; its default escaping otherwise.\<close>

definition usable :: "encoding \<Rightarrow> string \<Rightarrow> string \<Rightarrow> bool" where
  "usable m raw part \<longleftrightarrow> raw \<noteq> [] \<and> validEncoded m raw \<and> url_unescape m raw = Some part"

definition EscapedPath :: "parsed_url \<Rightarrow> string" where
  "EscapedPath u =
     (if usable encodePath (pu_RawPath u) (pu_Path u) then pu_RawPath u
      else if pu_Path u = ''*'' then ''*''
      else url_escape encodePath (pu_Path u))"

definition EscapedFragment :: "parsed_url \<Rightarrow> string" where
  "EscapedFragment u =
     (if usable encodeFragment (pu_RawFragment u) (pu_Fragment u) then pu_RawFragment u
      else url_escape encodeFragment (pu_Fragment u))"

definition Userinfo_String :: "string \<times> string option \<Rightarrow> string" where
  "Userinfo_String ui =
     (case ui of (name, pass) \<Rightarrow>
        url_escape encodeUserPassword name @
        (case pass of None \<Rightarrow> [] | Some p \<Rightarrow> '':'' @ url_escape encodeUserPassword p))"

definition authority_String :: "parsed_url \<Rightarrow> string" where
  "authority_String u =
     (if pu_Scheme u = [] \<and> pu_Host u = [] \<and> pu_User u = None then []
      else if pu_OmitHost u \<and> pu_Host u = [] \<and> pu_User u = None then []
      else
        (if pu_Host u \<noteq> [] \<or> pu_Path u \<noteq> [] \<or> pu_User u \<noteq> None then ''//'' else []) @
        (case pu_User u of None \<Rightarrow> [] | Some ui \<Rightarrow> Userinfo_String ui @ ''@'') @
        url_escape encodeHost (pu_Host u))"

definition hierarchy_String :: "parsed_url \<Rightarrow> string" where
  "hierarchy_String u =
     (let path = EscapedPath u; authority = authority_String u in
      authority @
      (if path \<noteq> [] \<and> \<not> prefix ''/'' path \<and> pu_Host u \<noteq> [] then ''/'' else []) @
      (if pu_Scheme u = [] \<and> authority = [] \<and> CHR '':'' \<in> set (fst (Cut (CHR ''/'') path)) then ''./'' else []) @
      path)"

definition pu_String :: "parsed_url \<Rightarrow> string" where
  "pu_String u =
     (if pu_Scheme u \<noteq> [] then pu_Scheme u @ '':'' else []) @
     (if pu_Opaque u \<noteq> [] then pu_Opaque u else hierarchy_String u) @
     (if pu_ForceQuery u \<or> pu_RawQuery u \<noteq> [] then ''?'' @ pu_RawQuery u else []) @
     (if pu_Fragment u \<noteq> [] then ''#'' @ EscapedFragment u else [])"

lemmas url_simps = url_Parse_def url_parse_def Cut_def getScheme_def split_query_def parse_hierarchy_def
  parseAuthority_def parseHost_def cut_last_def setPath_def setFragment_def zero_url_def pu_String_def
  hierarchy_String_def authority_String_def EscapedPath_def EscapedFragment_def usable_def
  Userinfo_String_def parseUserinfo_def validUserinfo_def validOptionalPort_def validEncoded_def
  url_escape_def percent_def hex_digit_def unhex_def shouldEscape_def escape_allowed_def plain_allowed_def
  alphanumeric_def host_mark_def ctl_def url_digit_def letter_def ascii_lower_def
  char_of_def bit_0

lemma url_Parse_normalizes: "map_option pu_String (url_Parse ''HTTPS://a.io'') = Some ''https://a.io''"
  by (simp add: url_simps)

lemma url_Parse_port: "url_Parse ''http://h:8x/'' = None"
  by (simp add: url_simps)

lemma url_Parse_full:
  "map_option pu_String (url_Parse ''http://u:p@h:80/a%20b/%7e?q#f g'') = Some ''http://u:p@h:80/a%20b/%7e?q#f%20g''"
  by (simp add: url_simps)

subsection \<open>Escaping and unescaping\<close>

lemma alphanumeric_plain: "alphanumeric c \<Longrightarrow> \<not> shouldEscape m c"
  by (simp add: shouldEscape_def)

lemma percent_sign_escaped [simp]: "shouldEscape m CHR ''%''"
  by (cases m) (simp_all add: shouldEscape_def alphanumeric_def host_mark_def)

text \<open>What stays as it is in some part: letters, digits and these marks.\<close>

definition url_mark :: "char \<Rightarrow> bool" where
  "url_mark c \<longleftrightarrow> c \<in> set (CHR 0x27 # CHR 0x22 # ''!$&()*+,;=:[]<>-_.~/?@'')"

lemma unmarked_escaped: "\<not> alphanumeric c \<Longrightarrow> \<not> url_mark c \<Longrightarrow> shouldEscape m c"
  by (simp add: shouldEscape_def host_mark_def url_mark_def)

lemma mark_not_ctl: "url_mark c \<Longrightarrow> \<not> ctl c"
  by (auto simp: url_mark_def ctl_def)

lemma alphanumeric_not_ctl: "alphanumeric c \<Longrightarrow> \<not> ctl c"
  by (auto simp: alphanumeric_def ctl_def Let_def)

lemma url_escape_not_ctl: "ctl c \<Longrightarrow> shouldEscape m c"
  using unmarked_escaped mark_not_ctl alphanumeric_not_ctl by blast

lemma hex_digit_alphanumeric: "d < 16 \<Longrightarrow> alphanumeric (hex_digit d)"
proof -
  assume "d < 16"
  then have "d \<in> {0, 1, 2, 3, 4, 5, 6, 7, 8, 9, 10, 11, 12, 13, 14, 15}"
    unfolding insert_iff empty_iff by presburger
  then show ?thesis by (auto simp: alphanumeric_def hex_digit_def)
qed

lemma of_char_div16: "(of_char c :: nat) div 16 < 16"
proof -
  have "(of_char c :: nat) < 256" by simp
  then show ?thesis by (simp add: less_mult_imp_div_less)
qed

lemma set_percent: "c \<in> set (percent x) \<Longrightarrow> c = CHR ''%'' \<or> alphanumeric c"
  using of_char_div16 [of x] by (auto simp: percent_def Let_def hex_digit_alphanumeric)

lemma set_url_escape: "c \<in> set (url_escape m s) \<Longrightarrow> c = CHR ''%'' \<or> \<not> shouldEscape m c"
  by (auto simp: url_escape_def dest!: set_percent alphanumeric_plain split: if_splits)

lemma url_escape_simps [simp]:
  "url_escape m [] = []"
  "url_escape m (c # s) = (if shouldEscape m c then percent c else [c]) @ url_escape m s"
  "url_escape m (s @ t) = url_escape m s @ url_escape m t"
  by (simp_all add: url_escape_def)

lemma url_escape_empty [simp]: "url_escape m s = [] \<longleftrightarrow> s = []"
  by (cases s) (simp_all add: percent_def Let_def)

lemma url_unescape_percent:
  "url_unescape m (percent c @ t) =
     (if escape_allowed m (of_char c) then map_option ((#) c) (url_unescape m t) else None)"
  using of_char_div16 [of c] by (simp add: percent_def Let_def unhex_hex_digit)

lemma plain_not_escaped: "\<not> shouldEscape m c \<Longrightarrow> plain_allowed m c"
  by (simp add: plain_allowed_def)

lemma url_unescape_escape:
  assumes "\<forall>c \<in> set s. shouldEscape m c \<longrightarrow> escape_allowed m (of_char c)"
  shows "url_unescape m (url_escape m s @ t) = map_option ((@) s) (url_unescape m t)"
  using assms
proof (induction s)
  case (Cons c s)
  show ?case
  proof (cases "shouldEscape m c")
    case True
    with Cons show ?thesis by (simp add: url_unescape_percent option.map_comp comp_def)
  next
    case False
    then have "c \<noteq> CHR ''%''" by auto
    with False Cons show ?thesis by (simp add: plain_not_escaped option.map_comp comp_def)
  qed
next
  case Nil
  show ?case by (cases "url_unescape m t") simp_all
qed

definition free_encoding :: "encoding \<Rightarrow> bool" where
  "free_encoding m \<longleftrightarrow> m \<notin> {encodeHost, encodeZone}"

lemma url_unescape_escape_free: "free_encoding m \<Longrightarrow> url_unescape m (url_escape m s) = Some s"
  using url_unescape_escape [of s m "[]"] by (simp add: free_encoding_def escape_allowed_def)

text \<open>A character that is no part of an escape splits the text.\<close>

lemma url_unescape_split:
  assumes "unhex c = None" "c \<noteq> CHR ''%''"
  shows "url_unescape m (s @ c # t) =
    (case url_unescape m s of
       None \<Rightarrow> None
     | Some s' \<Rightarrow> if plain_allowed m c then map_option (\<lambda>t'. s' @ c # t') (url_unescape m t) else None)"
proof (induction m s rule: url_unescape.induct)
  case (2 m d cs)
  show ?case
  proof (cases "d = CHR ''%''")
    case True
    show ?thesis
    proof (cases "\<exists>a b rest x y. cs = a # b # rest \<and> unhex a = Some x \<and> unhex b = Some y \<and> escape_allowed m (16 * x + y)")
      case True
      then obtain a b rest x y where
        d: "cs = a # b # rest" "unhex a = Some x" "unhex b = Some y" "escape_allowed m (16 * x + y)" by blast
      have "url_unescape m (rest @ c # t) =
          (case url_unescape m rest of
             None \<Rightarrow> None
           | Some s' \<Rightarrow> if plain_allowed m c then map_option (\<lambda>t'. s' @ c # t') (url_unescape m t) else None)"
        using 2(1) [OF \<open>d = CHR ''%''\<close> d(1) refl _ _ _ d(4)] d by simp
      with d \<open>d = CHR ''%''\<close> show ?thesis by (auto simp: option.map_comp comp_def split: option.splits)
    next
      case False
      then have "url_unescape m (d # cs) = None" "url_unescape m (d # cs @ c # t) = None"
        using \<open>d = CHR ''%''\<close> assms by (auto split: list.splits option.splits simp: append_eq_Cons_conv Cons_eq_append_conv)
      then show ?thesis by simp
    qed
  next
    case False
    show ?thesis
    proof (cases "plain_allowed m d")
      case True
      then show ?thesis using 2(2) False by (auto simp: option.map_comp comp_def split: option.splits)
    qed (use False in simp)
  qed
qed (simp add: assms)

subsection \<open>A rendered host is read back\<close>

lemma prefix_hd: "prefix [c] s \<longleftrightarrow> s \<noteq> [] \<and> hd s = c"
  by (cases s) auto

lemma split_at:
  assumes "c \<notin> set x"
  shows "takeWhile ((\<noteq>) c) (x @ c # q) = x" "dropWhile ((\<noteq>) c) (x @ c # q) = c # q"
    "takeWhile ((\<noteq>) c) x = x" "dropWhile ((\<noteq>) c) x = []"
  using assms by (induction x) auto

lemma Cut_none: "c \<notin> set s \<Longrightarrow> Cut c s = (s, [])"
  by (simp add: Cut_def split_at)

lemma Cut_at: "c \<notin> set x \<Longrightarrow> Cut c (x @ c # q) = (x, q)"
  by (simp add: Cut_def split_at)

lemma cut_last_append: "c \<notin> set t \<Longrightarrow> cut_last c (s @ c # t) = Some (s, t)"
proof -
  assume c: "c \<notin> set t"
  have "dropWhile ((\<noteq>) c) (rev t @ c # rev s) = c # rev s" "takeWhile ((\<noteq>) c) (rev t @ c # rev s) = rev t"
    using c by (auto simp: dropWhile_append takeWhile_append)
  then show ?thesis by (simp add: cut_last_def)
qed

lemma cut_last_Some: "cut_last c s = Some (a, b) \<Longrightarrow> s = a @ c # b \<and> c \<notin> set b"
proof -
  assume s: "cut_last c s = Some (a, b)"
  let ?t = "takeWhile ((\<noteq>) c) (rev s)"
  obtain d r where d: "dropWhile ((\<noteq>) c) (rev s) = d # r" "a = rev r" "b = rev ?t"
    using s by (auto simp: cut_last_def split: list.splits)
  then have "rev s = ?t @ c # r" using dropWhile_eq_Cons_conv [of "(\<noteq>) c" "rev s" d r] by metis
  then have "s = rev r @ c # rev ?t" by (simp add: rev_swap)
  then show ?thesis using d(2,3) by (auto dest: set_takeWhileD)
qed

lemma cut_last_None: "cut_last c s = None \<longleftrightarrow> c \<notin> set s"
proof
  assume "cut_last c s = None"
  then have "dropWhile ((\<noteq>) c) (rev s) = []" by (simp add: cut_last_def split: list.splits)
  then show "c \<notin> set s" by auto
next
  assume "c \<notin> set s"
  then have d: "dropWhile ((\<noteq>) c) (rev s) = []" by (auto simp: dropWhile_eq_Nil_conv)
  show "cut_last c s = None" unfolding cut_last_def d by simp
qed

definition host_text :: "string \<Rightarrow> bool" where
  "host_text h \<longleftrightarrow> (\<forall>c \<in> set h. shouldEscape encodeHost c \<longrightarrow> escape_allowed encodeHost (of_char c))"

lemma host_text_simps [simp]:
  "host_text []" "host_text (s @ t) \<longleftrightarrow> host_text s \<and> host_text t"
  "host_text (c # s) \<longleftrightarrow> (shouldEscape encodeHost c \<longrightarrow> escape_allowed encodeHost (of_char c)) \<and> host_text s"
  by (auto simp: host_text_def)

lemma unhex_less: "unhex c = Some d \<Longrightarrow> d < 16"
  by (auto simp: unhex_def Let_def split: if_splits)

lemma unescape_host_text: "url_unescape encodeHost s = Some h \<Longrightarrow> host_text h"
proof (induction encodeHost s arbitrary: h rule: url_unescape.induct)
  case (2 c cs)
  show ?case
  proof (cases "c = CHR ''%''")
    case True
    with "2.prems" obtain a b rest x y h' where d: "cs = a # b # rest" "unhex a = Some x" "unhex b = Some y"
      "escape_allowed encodeHost (16 * x + y)" "url_unescape encodeHost rest = Some h'"
      "h = char_of (16 * x + y) # h'"
      by (auto split: list.splits option.splits if_splits)
    have "16 * x + y < 256" using unhex_less [OF d(2)] unhex_less [OF d(3)] by simp
    moreover have "host_text h'" using "2.hyps"(1) [OF True d(1) refl _ _ _ d(4,5)] d by simp
    ultimately show ?thesis using d(4,6) by simp
  next
    case False
    with "2.prems" obtain h' where h: "plain_allowed encodeHost c" "url_unescape encodeHost cs = Some h'" "h = c # h'"
      by (auto split: if_splits)
    with "2.hyps"(2) [OF False h(1)] show ?thesis by (auto simp: plain_allowed_def escape_allowed_def)
  qed
qed simp

lemma unescape_host_escape: "host_text h \<Longrightarrow> url_unescape encodeHost (url_escape encodeHost h) = Some h"
  using url_unescape_escape [of h encodeHost "[]"] by (simp add: host_text_def)

text \<open>Brackets and colons of a host come from the text of the URL.\<close>

lemma host_char_kept:
  assumes "c \<notin> set s" "c \<noteq> CHR ''%''" "(of_char c :: nat) < 0x80" "url_unescape encodeHost s = Some h"
  shows "c \<notin> set h"
  using assms(1,4)
proof (induction encodeHost s arbitrary: h rule: url_unescape.induct)
  case (2 d cs)
  show ?case
  proof (cases "d = CHR ''%''")
    case True
    with "2.prems" obtain a b rest x y h' where d: "cs = a # b # rest" "unhex a = Some x" "unhex b = Some y"
      "escape_allowed encodeHost (16 * x + y)" "url_unescape encodeHost rest = Some h'"
      "h = char_of (16 * x + y) # h'"
      by (auto split: list.splits option.splits if_splits)
    have v: "16 * x + y < 256" using unhex_less [OF d(2)] unhex_less [OF d(3)] by simp
    have "c \<noteq> char_of (16 * x + y)"
    proof
      assume c: "c = char_of (16 * x + y)"
      then have "(of_char c :: nat) = 16 * x + y" using v by simp
      with d(4) assms(3) have "of_char c = (of_char (CHR ''%'') :: nat)" by (simp add: escape_allowed_def)
      with assms(2) show False by (simp only: of_char_eq_iff)
    qed
    moreover have "c \<notin> set h'" using "2.hyps"(1) [OF True d(1) refl _ _ _ d(4) _ d(5)] d "2.prems" by simp
    ultimately show ?thesis using d(6) by simp
  next
    case False
    with "2.prems" obtain h' where h: "plain_allowed encodeHost d" "url_unescape encodeHost cs = Some h'" "h = d # h'"
      by (auto split: if_splits)
    with "2.hyps"(2) [OF False h(1) _ h(2)] "2.prems" show ?thesis by simp
  qed
qed simp

lemma escape_host_char:
  assumes "c \<notin> set h" "c \<noteq> CHR ''%''" "\<not> alphanumeric c"
  shows "c \<notin> set (url_escape encodeHost h)"
  using assms by (induction h) (auto dest: set_percent)

lemma port_plain: "list_all url_digit ds \<Longrightarrow> url_escape encodeHost ds = ds \<and> url_unescape encodeHost ds = Some ds
    \<and> CHR '':'' \<notin> set ds \<and> CHR '']'' \<notin> set ds"
proof (induction ds)
  case (Cons d ds)
  then have "alphanumeric d" "d \<noteq> CHR ''%''" "d \<noteq> CHR '':''" "d \<noteq> CHR '']''"
    by (auto simp: url_digit_def alphanumeric_def Let_def)
  with Cons show ?case by (simp add: alphanumeric_plain plain_not_escaped)
qed simp

lemma host_marks [simp]:
  "\<not> shouldEscape encodeHost CHR '':''" "\<not> shouldEscape encodeHost CHR '']''"
  "\<not> shouldEscape encodeHost CHR ''[''" "unhex (CHR '':'') = None" "unhex (CHR '']'') = None"
  by (simp_all add: shouldEscape_def host_mark_def unhex_def)

lemma port_text:
  assumes "validOptionalPort p"
  shows "url_escape encodeHost p = p \<and> url_unescape encodeHost p = Some p \<and> CHR '']'' \<notin> set p"
proof (cases p)
  case (Cons c ds)
  with assms have "c = CHR '':''" "list_all url_digit ds" by (simp_all add: validOptionalPort_def)
  with Cons port_plain [of ds] show ?thesis by (simp add: plain_not_escaped)
qed simp

lemma cut_zone_escape:
  assumes "host_text h" "CHR ''%'' \<notin> set h"
  shows "cut_zone (url_escape encodeHost h) = None"
  using assms
proof (induction h)
  case (Cons c h)
  show ?case
  proof (cases "shouldEscape encodeHost c")
    case True
    have "c \<noteq> CHR ''%''" using Cons.prems by auto
    then have "(of_char c :: nat) \<noteq> of_char (CHR ''%'')" by (simp only: of_char_eq_iff simp_thms)
    with True Cons.prems have n: "0x80 \<le> (of_char c :: nat)" by (auto simp: escape_allowed_def)
    let ?a = "hex_digit (of_char c div 16)" and ?b = "hex_digit (of_char c mod 16)"
    have "unhex ?a = Some (of_char c div 16)" by (rule unhex_hex_digit [OF of_char_div16])
    moreover have "8 \<le> (of_char c :: nat) div 16" using div_le_mono [OF n, of 16] by simp
    ultimately have "?a \<noteq> CHR ''2''" by (auto simp: unhex_def)
    moreover have "alphanumeric ?a" "alphanumeric ?b" by (simp_all add: hex_digit_alphanumeric of_char_div16)
    then have "?a \<noteq> CHR ''%''" "?b \<noteq> CHR ''%''" by (auto simp: alphanumeric_def)
    ultimately show ?thesis using True Cons by (simp add: percent_def Let_def)
  next
    case False
    then have "c \<noteq> CHR ''%''" by auto
    with False Cons show ?thesis by simp
  qed
qed simp

text \<open>An IP literal with a zone is left aside: a zone may hold bytes that are not escaped the way it takes them.\<close>

definition zoned :: "string \<Rightarrow> bool" where
  "zoned h \<longleftrightarrow> prefix ''['' h \<and> CHR ''%'' \<in> set h"

lemma parseHost_literal:
  assumes "parseHost a = Some h" "prefix ''['' a" "\<not> zoned h"
  shows "\<exists>x p. h = x @ CHR '']'' # p \<and> prefix ''['' x \<and> validOptionalPort p \<and> host_text x \<and> CHR ''%'' \<notin> set x"
proof -
  obtain y p where y: "cut_last (CHR '']'') a = Some (y, p)" "validOptionalPort p"
    using assms by (auto simp: parseHost_def split: option.splits if_splits)
  note a = cut_last_Some [OF y(1)] and p = port_text [OF y(2)]
  have open_y: "\<exists>y'. y = CHR ''['' # y'" using assms(2) a by (cases y) auto
  have "cut_zone y = None"
  proof (rule ccontr)
    assume "cut_zone y \<noteq> None"
    then obtain ip zone where z: "cut_zone y = Some (ip, zone)" by auto
    then obtain h1 h2 h3 where h: "url_unescape encodeHost ip = Some h1" "url_unescape encodeZone zone = Some h2"
      "h = h1 @ h2 @ h3" using assms(1,2) y by (auto simp: parseHost_def split: bind_splits)
    have "\<exists>z'. zone = CHR ''%'' # CHR ''2'' # CHR ''5'' # z' \<and> y = ip @ zone"
      using z
    proof (induction y arbitrary: ip)
      case (Cons c y)
      show ?case
      proof (cases "prefix ''%25'' (c # y)")
        case True
        with Cons.prems show ?thesis by (auto simp: prefix_def)
      next
        case False
        with Cons.prems obtain ip' where "cut_zone y = Some (ip', zone)" "ip = c # ip'" by auto
        with Cons.IH show ?thesis by simp
      qed
    qed simp
    then obtain z' where z': "zone = CHR ''%'' # CHR ''2'' # CHR ''5'' # z'" "y = ip @ zone" by blast
    have "CHR ''%'' \<in> set h2" using h(2) z'(1) by (auto simp: unhex_def char_of_def bit_0 split: if_splits)
    moreover have "\<exists>ip'. ip = CHR ''['' # ip'" using open_y z' by (cases ip) auto
    then have "prefix ''['' h1" using h(1) by (auto split: if_splits)
    ultimately have "zoned h" using h(3) by (simp add: zoned_def)
    with assms(3) show False by contradiction
  qed
  then have "url_unescape encodeHost a = Some h" using assms(1,2) y by (simp add: parseHost_def)
  then obtain x where x: "url_unescape encodeHost y = Some x" "h = x @ CHR '']'' # p"
    using url_unescape_split [of "CHR '']''" encodeHost y p] a p by (auto split: option.splits if_splits)
  have "prefix ''['' x" using x(1) open_y by (auto split: if_splits)
  moreover have "CHR ''%'' \<notin> set x" using assms(3) x \<open>prefix ''['' x\<close> unfolding zoned_def by (metis Un_iff prefix_prefix set_append)
  ultimately show ?thesis using x y unescape_host_text [OF x(1)] by blast
qed

lemma parseHost_name:
  assumes "parseHost a = Some h" "\<not> prefix ''['' a"
  shows "host_text h \<and> \<not> prefix ''['' h
    \<and> (CHR '':'' \<in> set h \<longrightarrow> (\<exists>x p. h = x @ CHR '':'' # p \<and> list_all url_digit p))"
proof -
  have u: "url_unescape encodeHost a = Some h"
    using assms by (auto simp: parseHost_def split: option.splits if_splits)
  have "\<not> prefix ''['' h"
  proof (cases a)
    case (Cons c cs)
    show ?thesis
    proof (cases "c = CHR ''%''")
      case True
      with u Cons obtain x y h' where v: "h = char_of (16 * x + y) # h'" "escape_allowed encodeHost (16 * x + y)"
        "x < 16" "y < 16" by (auto split: list.splits option.splits if_splits dest!: unhex_less)
      have "char_of (16 * x + y) \<noteq> CHR ''[''"
      proof
        assume "char_of (16 * x + y) = CHR ''[''"
        then have "(of_char (char_of (16 * x + y) :: char) :: nat) = of_char (CHR ''['')" by simp
        with v(2-4) show False by (simp add: escape_allowed_def)
      qed
      with v show ?thesis by simp
    next
      case False
      with u Cons assms(2) show ?thesis by (auto split: if_splits)
    qed
  qed (use u in simp)
  moreover have "\<exists>x p. h = x @ CHR '':'' # p \<and> list_all url_digit p" if c: "CHR '':'' \<in> set h"
  proof -
    have "CHR '':'' \<in> set a" using host_char_kept [OF _ _ _ u, of "CHR '':''"] c by auto
    then obtain y p where y: "cut_last (CHR '':'') a = Some (y, p)" using cut_last_None by fastforce
    with assms have p: "list_all url_digit p" by (auto simp: parseHost_def validOptionalPort_def split: if_splits)
    from cut_last_Some [OF y] have "a = y @ CHR '':'' # p" by simp
    with u url_unescape_split [of "CHR '':''" encodeHost y p] port_plain [OF p] p show ?thesis
      by (auto split: option.splits if_splits)
  qed
  ultimately show ?thesis using unescape_host_text [OF u] by blast
qed

theorem parseHost_escape:
  assumes "parseHost a = Some h" "\<not> zoned h"
  shows "parseHost (url_escape encodeHost h) = Some h"
proof (cases "prefix ''['' a")
  case True
  obtain x p where x: "h = x @ CHR '']'' # p" "prefix ''['' x" "validOptionalPort p" "host_text x" "CHR ''%'' \<notin> set x"
    using parseHost_literal [OF assms(1) True assms(2)] by blast
  note p = port_text [OF x(3)]
  have e: "url_escape encodeHost h = url_escape encodeHost x @ CHR '']'' # p" using x(1) p by simp
  have "prefix ''['' (url_escape encodeHost h)" using x(1,2) by (auto simp: prefix_def)
  moreover have "cut_last (CHR '']'') (url_escape encodeHost h) = Some (url_escape encodeHost x, p)"
    unfolding e using p by (intro cut_last_append) simp
  moreover have "host_text h"
    using x p unescape_host_text [of p p] by simp
  ultimately show ?thesis
    using cut_zone_escape [OF x(4,5)] x(3) unescape_host_escape by (simp add: parseHost_def)
next
  case False
  note n = parseHost_name [OF assms(1) False]
  have "\<not> prefix ''['' (url_escape encodeHost h)" using n by (cases h) (auto simp: percent_def Let_def)
  moreover have "validOptionalPort (CHR '':'' # p)"
    if c: "cut_last (CHR '':'') (url_escape encodeHost h) = Some (y, p)" for y p
  proof -
    have "CHR '':'' \<in> set (url_escape encodeHost h)" using cut_last_Some [OF c] by simp
    then have "CHR '':'' \<in> set h" using escape_host_char [of "CHR '':''" h] by (auto simp: alphanumeric_def)
    with n obtain x q where h: "h = x @ CHR '':'' # q" "list_all url_digit q" by blast
    note q = port_plain [OF h(2)]
    have "url_escape encodeHost h = url_escape encodeHost x @ CHR '':'' # q" using h(1) q by simp
    then have "cut_last (CHR '':'') (url_escape encodeHost h) = Some (url_escape encodeHost x, q)"
      using q by (simp add: cut_last_append)
    with c h(2) show ?thesis by (simp add: validOptionalPort_def)
  qed
  ultimately show ?thesis
    using n unescape_host_escape by (auto simp: parseHost_def split: option.split)
qed

subsection \<open>A rendered URL is read back\<close>

lemma free_encodings [simp]:
  "free_encoding encodePath" "free_encoding encodeUserPassword" "free_encoding encodeFragment"
  by (simp_all add: free_encoding_def)

lemma escaped_marks [simp]:
  "shouldEscape m CHR ''#''" "shouldEscape encodePath CHR ''?''"
  "shouldEscape encodeHost CHR ''/''" "shouldEscape encodeHost CHR ''?''" "shouldEscape encodeHost CHR ''@''"
  "shouldEscape encodeUserPassword CHR ''/''" "shouldEscape encodeUserPassword CHR ''?''"
  "shouldEscape encodeUserPassword CHR ''@''" "shouldEscape encodeUserPassword CHR '':''"
  by (cases m) (simp_all add: shouldEscape_def alphanumeric_def host_mark_def)

lemma mark_not_ctl_examples [simp]: "\<not> ctl CHR ''%''" "\<not> ctl CHR ''?''" "\<not> ctl CHR ''/''" "\<not> ctl CHR '':''"
  "\<not> ctl CHR ''@''"
  by (simp_all add: ctl_def)

lemma escaped_chars:
  assumes "c \<in> set (url_escape m s)"
  shows "\<not> ctl c" "c \<noteq> CHR ''#''" "m = encodePath \<Longrightarrow> c \<noteq> CHR ''?''"
    "m = encodeHost \<Longrightarrow> c \<notin> set ''/?@''" "m = encodeUserPassword \<Longrightarrow> c \<notin> set ''/?@:''"
proof -
  have c: "c = CHR ''%'' \<or> \<not> shouldEscape m c" by (rule set_url_escape [OF assms])
  then show "\<not> ctl c" "c \<noteq> CHR ''#''" "m = encodePath \<Longrightarrow> c \<noteq> CHR ''?''"
    "m = encodeHost \<Longrightarrow> c \<notin> set ''/?@''" "m = encodeUserPassword \<Longrightarrow> c \<notin> set ''/?@:''"
    using url_escape_not_ctl by auto
qed

lemma valid_chars:
  assumes "validEncoded m s" "c \<in> set s"
  shows "\<not> ctl c" "c \<noteq> CHR ''#''" "m = encodePath \<Longrightarrow> c \<noteq> CHR ''?''"
proof -
  have c: "c \<in> set (CHR 0x27 # ''!$&()*+,;=:@[]%'') \<or> \<not> shouldEscape m c"
    using assms by (auto simp: validEncoded_def list_all_iff)
  have "\<forall>d \<in> set (CHR 0x27 # ''!$&()*+,;=:@[]%''). \<not> ctl d \<and> d \<noteq> CHR ''#'' \<and> d \<noteq> CHR ''?''" by (simp add: ctl_def)
  with c show "\<not> ctl c" "c \<noteq> CHR ''#''" "m = encodePath \<Longrightarrow> c \<noteq> CHR ''?''"
    using url_escape_not_ctl [of c m] escaped_marks(1) [of m] escaped_marks(2) by metis+
qed

text \<open>The path, as parsing leaves it and as it is rendered.\<close>

definition path_set :: "parsed_url \<Rightarrow> bool" where
  "path_set u \<longleftrightarrow> (pu_RawPath u = [] \<or> prefix ''/'' (pu_RawPath u)) \<and> (pu_Path u = [] \<or> prefix ''/'' (pu_Path u))"

lemma setPath_set:
  assumes "setPath p u = Some v" "p = [] \<or> prefix ''/'' p"
  shows "path_set v"
  using assms by (cases p) (auto simp: setPath_def path_set_def split: option.splits if_splits)

lemma EscapedPath_props:
  assumes "path_set u"
  shows "url_unescape encodePath (EscapedPath u) = Some (pu_Path u)"
    "EscapedPath u = [] \<or> prefix ''/'' (EscapedPath u)"
    "c \<in> set (EscapedPath u) \<Longrightarrow> \<not> ctl c \<and> c \<noteq> CHR ''#'' \<and> c \<noteq> CHR ''?''"
    "EscapedPath u \<noteq> url_escape encodePath (pu_Path u) \<Longrightarrow> usable encodePath (EscapedPath u) (pu_Path u)"
proof -
  have star: "pu_Path u \<noteq> ''*''" using assms by (auto simp: path_set_def)
  have slash: "\<not> shouldEscape encodePath CHR ''/''" by (simp add: shouldEscape_def)
  show "url_unescape encodePath (EscapedPath u) = Some (pu_Path u)"
    using star url_unescape_escape_free by (simp add: EscapedPath_def usable_def)
  show "EscapedPath u = [] \<or> prefix ''/'' (EscapedPath u)"
    using assms star slash by (auto simp: EscapedPath_def path_set_def usable_def prefix_def)
  show "c \<in> set (EscapedPath u) \<Longrightarrow> \<not> ctl c \<and> c \<noteq> CHR ''#'' \<and> c \<noteq> CHR ''?''"
    using star escaped_chars [of c encodePath] valid_chars [of encodePath _ c]
    by (auto simp: EscapedPath_def usable_def split: if_splits)
  show "EscapedPath u \<noteq> url_escape encodePath (pu_Path u) \<Longrightarrow> usable encodePath (EscapedPath u) (pu_Path u)"
    using star by (auto simp: EscapedPath_def)
qed

lemma setPath_EscapedPath:
  assumes "path_set u"
  shows "\<exists>raw. setPath (EscapedPath u) w = Some (w\<lparr>pu_Path := pu_Path u, pu_RawPath := raw\<rparr>)
    \<and> (\<forall>w'. pu_Path w' = pu_Path u \<longrightarrow> pu_RawPath w' = raw \<longrightarrow> EscapedPath w' = EscapedPath u)"
proof -
  note p = EscapedPath_props [OF assms]
  have star: "pu_Path u \<noteq> ''*''" using assms by (auto simp: path_set_def)
  show ?thesis
  proof (cases "EscapedPath u = url_escape encodePath (pu_Path u)")
    case True
    then show ?thesis using p(1) star by (auto simp: setPath_def EscapedPath_def [of "_ :: parsed_url"] usable_def)
  next
    case False
    then show ?thesis using p(1) p(4) by (auto simp: setPath_def EscapedPath_def)
  qed
qed

text \<open>The fragment.\<close>

lemma EscapedFragment_props:
  shows "url_unescape encodeFragment (EscapedFragment u) = Some (pu_Fragment u)"
    "c \<in> set (EscapedFragment u) \<Longrightarrow> \<not> ctl c"
    "EscapedFragment u \<noteq> url_escape encodeFragment (pu_Fragment u) \<Longrightarrow>
       usable encodeFragment (EscapedFragment u) (pu_Fragment u)"
proof -
  show "url_unescape encodeFragment (EscapedFragment u) = Some (pu_Fragment u)"
    using url_unescape_escape_free by (simp add: EscapedFragment_def usable_def)
  show "c \<in> set (EscapedFragment u) \<Longrightarrow> \<not> ctl c"
    using escaped_chars [of c encodeFragment] valid_chars [of encodeFragment _ c]
    by (auto simp: EscapedFragment_def usable_def split: if_splits)
  show "EscapedFragment u \<noteq> url_escape encodeFragment (pu_Fragment u) \<Longrightarrow>
       usable encodeFragment (EscapedFragment u) (pu_Fragment u)"
    by (auto simp: EscapedFragment_def)
qed

lemma setFragment_EscapedFragment:
  "\<exists>raw. setFragment (EscapedFragment u) w = Some (w\<lparr>pu_Fragment := pu_Fragment u, pu_RawFragment := raw\<rparr>)
    \<and> (\<forall>w'. pu_Fragment w' = pu_Fragment u \<longrightarrow> pu_RawFragment w' = raw \<longrightarrow>
          EscapedFragment w' = EscapedFragment u)"
proof (cases "EscapedFragment u = url_escape encodeFragment (pu_Fragment u)")
  case True
  then show ?thesis
    using EscapedFragment_props(1) [of u] by (auto simp: setFragment_def EscapedFragment_def [of "_ :: parsed_url"] usable_def)
next
  case False
  then show ?thesis
    using EscapedFragment_props(1,3) [of u] by (auto simp: setFragment_def EscapedFragment_def)
qed

text \<open>The query.\<close>

definition query_ok :: "parsed_url \<Rightarrow> bool" where
  "query_ok u \<longleftrightarrow> (\<forall>c \<in> set (pu_RawQuery u). \<not> ctl c \<and> c \<noteq> CHR ''#'') \<and> (pu_ForceQuery u \<longrightarrow> pu_RawQuery u = [])"

definition query_String :: "bool \<Rightarrow> string \<Rightarrow> string" where
  "query_String force q = (if force \<or> q \<noteq> [] then ''?'' @ q else [])"

lemma split_query_String:
  assumes "CHR ''?'' \<notin> set x" "force \<longrightarrow> q = []"
  shows "split_query (x @ query_String force q) = (force, x, q)"
proof -
  have c: "count_list x (CHR ''?'') = 0" using assms(1) by (simp add: count_list_0_iff)
  note tk = split_at [OF assms(1)]
  show ?thesis
  proof (cases "force \<or> q = []")
    case True
    then show ?thesis
      using assms c tk by (auto simp: split_query_def query_String_def Cut_def butlast_append dest: last_in_set)
  next
    case False
    have "last q = CHR ''?'' \<Longrightarrow> count_list q (CHR ''?'') \<noteq> 0"
      using False by (metis count_list_0_iff last_in_set)
    with False c tk show ?thesis by (auto simp: split_query_def query_String_def Cut_def)
  qed
qed

lemma split_query_props:
  assumes "split_query s = (force, rest, q)"
  shows "set q \<subseteq> set s" "force \<longrightarrow> q = []" "CHR ''?'' \<notin> set rest"
proof -
  have "CHR ''?'' \<notin> set (butlast s)" if "s \<noteq> []" "last s = CHR ''?''" "count_list s (CHR ''?'') = 1"
    using that by (cases s rule: rev_cases) (simp_all add: count_list_0_iff)
  moreover have "set (tl (dropWhile P s)) \<subseteq> set s" for P
  proof
    fix x assume "x \<in> set (tl (dropWhile P s))"
    then have "x \<in> set (dropWhile P s)" by (cases "dropWhile P s") auto
    then show "x \<in> set s" by (rule set_dropWhileD)
  qed
  moreover have "CHR ''?'' \<notin> set (takeWhile ((\<noteq>) CHR ''?'') s)" by (auto dest: set_takeWhileD)
  ultimately show "set q \<subseteq> set s" "force \<longrightarrow> q = []" "CHR ''?'' \<notin> set rest"
    using assms by (auto simp: split_query_def Cut_def split: if_splits)
qed

text \<open>The authority.\<close>

lemma userinfo_escaped_valid: "c \<in> set (url_escape encodeUserPassword s) \<Longrightarrow>
    alphanumeric c \<or> c \<in> set (CHR 0x27 # ''-._:~!$&()*+,;=%@'')"
proof -
  assume c: "c \<in> set (url_escape encodeUserPassword s)"
  have "\<not> (c = CHR ''/'' \<or> c = CHR ''?'')" using escaped_chars(5) [OF c] by simp
  moreover have "c = CHR ''%'' \<or> \<not> shouldEscape encodeUserPassword c" by (rule set_url_escape [OF c])
  ultimately show ?thesis
    by (cases "c \<in> set ''$&+,/:;=?@''") (auto simp: shouldEscape_def split: if_splits)
qed

lemma parseUserinfo_String: "parseUserinfo (Userinfo_String ui) = Some ui"
proof -
  obtain name pass where ui: "ui = (name, pass)" by (metis surj_pair)
  let ?n = "url_escape encodeUserPassword name"
  have colon: "CHR '':'' \<notin> set ?n" using escaped_chars(5) [of "CHR '':''" encodeUserPassword name] by auto
  have valid: "validUserinfo (url_escape encodeUserPassword s)" for s
    using userinfo_escaped_valid by (auto simp: validUserinfo_def list_all_iff)
  show ?thesis
  proof (cases pass)
    case None
    then show ?thesis
      using ui colon valid [of name] url_unescape_escape_free [of encodeUserPassword name]
      by (simp add: Userinfo_String_def parseUserinfo_def)
  next
    case (Some p)
    have v: "validUserinfo (?n @ CHR '':'' # url_escape encodeUserPassword p)"
      using valid [of name] valid [of p] by (simp add: validUserinfo_def)
    have c: "Cut (CHR '':'') (?n @ CHR '':'' # url_escape encodeUserPassword p) = (?n, url_escape encodeUserPassword p)"
      using split_at(1,2) [OF colon] by (simp add: Cut_def)
    show ?thesis
      using ui Some v c by (simp add: Userinfo_String_def parseUserinfo_def url_unescape_escape_free)
  qed
qed

definition user_String :: "(string \<times> string option) option \<Rightarrow> string" where
  "user_String user = (case user of None \<Rightarrow> [] | Some ui \<Rightarrow> Userinfo_String ui @ ''@'')"

lemma parseAuthority_String:
  assumes "parseHost a = Some h" "\<not> zoned h"
  shows "parseAuthority (user_String user @ url_escape encodeHost h) = Some (user, h)"
proof -
  have at: "CHR ''@'' \<notin> set (url_escape encodeHost h)" using escaped_chars(4) [of "CHR ''@''" encodeHost h] by auto
  show ?thesis
  proof (cases user)
    case None
    then show ?thesis
      using at parseHost_escape [OF assms] cut_last_None [of "CHR ''@''" "url_escape encodeHost h"]
      by (simp add: user_String_def parseAuthority_def)
  next
    case (Some ui)
    then show ?thesis
      using cut_last_append [OF at] parseHost_escape [OF assms] parseUserinfo_String [of ui]
      by (simp add: user_String_def parseAuthority_def)
  qed
qed

lemma authority_chars:
  assumes "c \<in> set (user_String user @ url_escape encodeHost h)"
  shows "\<not> ctl c" "c \<notin> set ''#/?''"
proof -
  have u: "\<not> ctl c \<and> c \<notin> set ''#/?''" if "c \<in> set (url_escape encodeUserPassword s)" for s
    using escaped_chars(1,2,5) [OF that] by simp
  have h: "\<not> ctl c \<and> c \<notin> set ''#/?''" if "c \<in> set (url_escape encodeHost h)"
    using escaped_chars(1,2,4) [OF that] by simp
  have "\<not> ctl c \<and> c \<notin> set ''#/?''"
    using assms u h by (auto simp: user_String_def Userinfo_String_def split: option.splits prod.splits)
  then show "\<not> ctl c" "c \<notin> set ''#/?''" by simp_all
qed

text \<open>What parsing an absolute URL with a host leaves.\<close>

definition absolute :: "parsed_url \<Rightarrow> bool" where
  "absolute u \<longleftrightarrow> pu_Scheme u \<in> {''http'', ''https''} \<and> pu_Host u \<noteq> []"

lemma setPath_sel:
  assumes "setPath p u = Some v"
  shows "pu_Scheme v = pu_Scheme u" "pu_Opaque v = pu_Opaque u" "pu_User v = pu_User u" "pu_Host v = pu_Host u"
    "pu_OmitHost v = pu_OmitHost u" "pu_ForceQuery v = pu_ForceQuery u" "pu_RawQuery v = pu_RawQuery u"
    "pu_Fragment v = pu_Fragment u" "pu_RawFragment v = pu_RawFragment u"
  using assms by (auto simp: setPath_def split: option.splits)

lemma url_parse_absolute:
  assumes "url_parse raw = Some v" "absolute v" "CHR ''#'' \<notin> set raw"
  shows "pu_Opaque v = [] \<and> \<not> pu_OmitHost v \<and> (\<exists>a. parseHost a = Some (pu_Host v)) \<and> path_set v \<and> query_ok v"
proof -
  obtain scheme rest0 force rest q where p: "\<not> list_ex ctl raw" "getScheme raw = Some (scheme, rest0)"
    "split_query rest0 = (force, rest, q)" and raw: "raw \<noteq> ''*''"
    using assms(1,2) by (auto simp: url_parse_def absolute_def split: if_splits option.splits prod.splits)
  let ?u = "zero_url\<lparr>pu_Scheme := map ascii_lower scheme, pu_ForceQuery := force, pu_RawQuery := q\<rparr>"
  have h: "parse_hierarchy rest ?u = Some v"
    using assms(1,2) p raw by (auto simp: url_parse_def absolute_def Let_def split: if_splits)
  have auth: "prefix ''//'' rest"
  proof (rule ccontr)
    assume "\<not> prefix ''//'' rest"
    with h have "pu_Host v = []" by (auto simp: parse_hierarchy_def dest: setPath_sel(4))
    with assms(2) show False by (simp add: absolute_def)
  qed
  let ?a = "takeWhile ((\<noteq>) CHR ''/'') (drop 2 rest)" and ?p = "dropWhile ((\<noteq>) CHR ''/'') (drop 2 rest)"
  have three: "pu_Scheme ?u \<noteq> [] \<or> \<not> prefix ''///'' rest"
  proof (rule ccontr)
    assume n: "\<not> ?thesis"
    with h have "setPath rest (?u\<lparr>pu_OmitHost := False\<rparr>) = Some v" by (simp add: parse_hierarchy_def)
    then have "pu_Host v = []" by (auto dest: setPath_sel(4))
    with assms(2) show False by (simp add: absolute_def)
  qed
  obtain user host where ah: "parseAuthority ?a = Some (user, host)"
    "setPath ?p (?u\<lparr>pu_User := user, pu_Host := host\<rparr>) = Some v"
    using h auth three by (auto simp: parse_hierarchy_def split: bind_splits)
  note sel = setPath_sel [OF ah(2)]
  have "\<exists>a. parseHost a = Some host"
    using ah(1) by (auto simp: parseAuthority_def split: option.splits bind_splits)
  moreover have "?p = [] \<or> prefix ''/'' ?p"
    using hd_dropWhile [of "(\<noteq>) CHR ''/''" "drop 2 rest"] unfolding prefix_hd by metis
  then have "path_set v" by (rule setPath_set [OF ah(2)])
  moreover have "query_ok v"
  proof -
    have "set rest0 \<subseteq> set raw"
      using p(2) by (auto simp: getScheme_def Let_def split: list.splits if_splits)
        (metis in_set_dropD list.set_intros(2))
    with split_query_props(1) [OF p(3)] have "set q \<subseteq> set raw" by blast
    with p(1) assms(3) split_query_props(2) [OF p(3)] sel show ?thesis
      by (auto simp: query_ok_def list_ex_iff)
  qed
  ultimately show ?thesis using sel by auto
qed

lemma url_Parse_absolute:
  assumes "url_Parse raw = Some v" "absolute v"
  shows "pu_Opaque v = [] \<and> \<not> pu_OmitHost v \<and> (\<exists>a. parseHost a = Some (pu_Host v)) \<and> path_set v \<and> query_ok v"
proof -
  let ?a = "takeWhile ((\<noteq>) CHR ''#'') raw"
  have h: "CHR ''#'' \<notin> set ?a" by (auto dest: set_takeWhileD)
  obtain w where w: "url_parse ?a = Some w" using assms(1) by (auto simp: url_Parse_def Cut_def split: option.splits)
  then consider "v = w" | f r where "v = w\<lparr>pu_Fragment := f, pu_RawFragment := r\<rparr>"
    using assms(1) by (auto simp: url_Parse_def Cut_def setFragment_def split: option.splits if_splits)
  then show ?thesis
  proof cases
    case 1
    then show ?thesis using url_parse_absolute [OF w] assms(2) h by simp
  next
    case 2
    then show ?thesis
      using url_parse_absolute [OF w] assms(2) h by (auto simp: absolute_def path_set_def query_ok_def)
  qed
qed

lemma pu_String_absolute:
  assumes "absolute v" "pu_Opaque v = []" "path_set v"
  shows "pu_String v = pu_Scheme v @ ''://'' @ (user_String (pu_User v) @ url_escape encodeHost (pu_Host v)) @
      EscapedPath v @ query_String (pu_ForceQuery v) (pu_RawQuery v) @
      (if pu_Fragment v = [] then [] else ''#'' @ EscapedFragment v)"
  using assms EscapedPath_props(2) [OF assms(3)]
  by (auto simp: pu_String_def hierarchy_String_def authority_String_def absolute_def user_String_def
      query_String_def Let_def split: option.splits)

lemma getScheme_absolute:
  "scheme \<in> {''http'', ''https''} \<Longrightarrow> getScheme (scheme @ '':'' @ rest) = Some (scheme, rest)"
  by (auto simp: getScheme_def alphanumeric_def letter_def url_digit_def)

lemma ascii_lower_scheme: "scheme \<in> {''http'', ''https''} \<Longrightarrow> map ascii_lower scheme = scheme"
  by (auto simp: ascii_lower_def)

lemma scheme_chars: "scheme \<in> {''http'', ''https''} \<Longrightarrow> c \<in> set scheme \<Longrightarrow> \<not> ctl c \<and> c \<noteq> CHR ''#''"
  by (auto simp: ctl_def)

lemma query_chars:
  "query_ok v \<Longrightarrow> c \<in> set (query_String f (pu_RawQuery v)) \<Longrightarrow> \<not> ctl c \<and> c \<noteq> CHR ''#''"
proof -
  assume q: "query_ok v" and "c \<in> set (query_String f (pu_RawQuery v))"
  then have "c = CHR ''?'' \<or> c \<in> set (pu_RawQuery v)" by (simp add: query_String_def split: if_splits)
  then show ?thesis
  proof
    assume "c \<in> set (pu_RawQuery v)"
    with q show ?thesis unfolding query_ok_def by blast
  qed simp
qed

theorem url_String_chars:
  assumes "url_Parse raw = Some v" "absolute v" "c \<in> set (pu_String v)"
  shows "\<not> ctl c"
proof -
  note a = url_Parse_absolute [OF assms(1,2)]
  then have "path_set v" "query_ok v" by simp_all
  have s: "pu_Scheme v \<in> {''http'', ''https''}" using assms(2) by (simp add: absolute_def)
  have "\<not> ctl d" if "d \<in> set (EscapedPath v)" for d using EscapedPath_props(3) [OF \<open>path_set v\<close> that] by simp
  moreover note query_chars [OF \<open>query_ok v\<close>]
  moreover have "\<not> ctl CHR ''#''" by (simp add: ctl_def)
  ultimately show ?thesis
    using assms(3) pu_String_absolute [OF assms(2)] a authority_chars(1) scheme_chars [OF s]
      EscapedFragment_props(2) [of c v]
    by (auto split: if_splits)
qed

theorem url_Parse_String:
  assumes "url_Parse raw = Some v" "absolute v" "\<not> zoned (pu_Host v)"
  shows "\<exists>w. url_Parse (pu_String v) = Some w \<and> pu_Scheme w = pu_Scheme v \<and> pu_Host w = pu_Host v
    \<and> pu_String w = pu_String v"
proof -
  from url_Parse_absolute [OF assms(1,2)] obtain a where
    v: "pu_Opaque v = []" "parseHost a = Some (pu_Host v)" "path_set v" "query_ok v" by blast
  have s: "pu_Scheme v \<in> {''http'', ''https''}" using assms(2) by (simp add: absolute_def)
  let ?auth = "user_String (pu_User v) @ url_escape encodeHost (pu_Host v)"
  let ?q = "query_String (pu_ForceQuery v) (pu_RawQuery v)"
  let ?x = "''//'' @ ?auth @ EscapedPath v"
  let ?A = "pu_Scheme v @ '':'' @ ?x @ ?q"
  note str = pu_String_absolute [OF assms(2) v(1,3)]
  note path = EscapedPath_props [OF v(3)]
  have chars: "\<not> ctl c \<and> c \<noteq> CHR ''#''" if "c \<in> set ?A" for c
  proof -
    from that consider "c \<in> set (pu_Scheme v)" | "c = CHR '':''" | "c = CHR ''/''" | "c \<in> set ?auth"
      | "c \<in> set (EscapedPath v)" | "c \<in> set ?q" by auto
    then show ?thesis
      by cases (use scheme_chars [OF s] authority_chars path(3) query_chars [OF v(4)] in auto)
  qed
  have x: "CHR ''?'' \<notin> set ?x"
    using authority_chars(2) [of "CHR ''?''" "pu_User v" "pu_Host v"] path(3) [of "CHR ''?''"] by auto
  have slash: "CHR ''/'' \<notin> set ?auth" using authority_chars(2) [of "CHR ''/''" "pu_User v" "pu_Host v"] by auto
  have split: "takeWhile ((\<noteq>) CHR ''/'') (?auth @ EscapedPath v) = ?auth"
    "dropWhile ((\<noteq>) CHR ''/'') (?auth @ EscapedPath v) = EscapedPath v"
    using path(2) split_at [OF slash] unfolding prefix_hd by (cases "EscapedPath v"; simp)+
  let ?u = "zero_url\<lparr>pu_Scheme := pu_Scheme v, pu_ForceQuery := pu_ForceQuery v, pu_RawQuery := pu_RawQuery v,
    pu_User := pu_User v, pu_Host := pu_Host v\<rparr>"
  obtain raw_path where rp: "setPath (EscapedPath v) ?u = Some (?u\<lparr>pu_Path := pu_Path v, pu_RawPath := raw_path\<rparr>)"
    "\<And>w. pu_Path w = pu_Path v \<Longrightarrow> pu_RawPath w = raw_path \<Longrightarrow> EscapedPath w = EscapedPath v"
    using setPath_EscapedPath [OF v(3), of ?u] by blast
  let ?w = "?u\<lparr>pu_Path := pu_Path v, pu_RawPath := raw_path\<rparr>"
  have "split_query (?x @ ?q) = (pu_ForceQuery v, ?x, pu_RawQuery v)"
    using split_query_String [OF x] v(4) by (simp add: query_ok_def)
  moreover have "getScheme ?A = Some (pu_Scheme v, ?x @ ?q)" by (rule getScheme_absolute [OF s])
  moreover have "\<not> list_ex ctl ?A" using chars by (auto simp: list_ex_iff)
  moreover have "?A \<noteq> ''*''" using s by auto
  moreover have "pu_Scheme v \<noteq> []" using s by auto
  moreover have "parse_hierarchy ?x (zero_url\<lparr>pu_Scheme := pu_Scheme v, pu_ForceQuery := pu_ForceQuery v,
      pu_RawQuery := pu_RawQuery v\<rparr>) = Some ?w"
    using split parseAuthority_String [OF v(2) assms(3), of "pu_User v"] rp(1) \<open>pu_Scheme v \<noteq> []\<close>
    by (simp add: parse_hierarchy_def)
  ultimately have parse: "url_parse ?A = Some ?w"
    using ascii_lower_scheme [OF s] by (simp add: url_parse_def)
  have A: "CHR ''#'' \<notin> set ?A" using chars by auto
  have abs: "absolute ?w" "pu_Opaque ?w = []" using assms(2) by (simp_all add: absolute_def)
  have path_w: "path_set ?w" by (rule setPath_set [OF rp(1) path(2)])
  show ?thesis
  proof (cases "pu_Fragment v = []")
    case True
    have "pu_String v = ?A" using str True by simp
    moreover have "url_Parse ?A = Some ?w"
      unfolding url_Parse_def Cut_none [OF A] prod.case parse option.case by simp
    moreover have "pu_String ?w = ?A"
      using pu_String_absolute [OF abs path_w] rp(2) [of ?w] by simp
    ultimately show ?thesis by (intro exI [of _ ?w]) simp
  next
    case False
    obtain raw_frag where rf: "setFragment (EscapedFragment v) ?w =
        Some (?w\<lparr>pu_Fragment := pu_Fragment v, pu_RawFragment := raw_frag\<rparr>)"
      "\<And>w. pu_Fragment w = pu_Fragment v \<Longrightarrow> pu_RawFragment w = raw_frag \<Longrightarrow> EscapedFragment w = EscapedFragment v"
      using setFragment_EscapedFragment [of v ?w] by blast
    let ?z = "?w\<lparr>pu_Fragment := pu_Fragment v, pu_RawFragment := raw_frag\<rparr>"
    have "EscapedFragment v \<noteq> []"
      using EscapedFragment_props(1) [of v] False by auto
    have sv: "pu_String v = ?A @ CHR ''#'' # EscapedFragment v" using str False by simp
    moreover have "url_Parse (?A @ CHR ''#'' # EscapedFragment v) = Some ?z"
      unfolding url_Parse_def Cut_at [OF A] prod.case parse option.case
      using rf(1) \<open>EscapedFragment v \<noteq> []\<close> by simp
    moreover have "pu_String ?z = pu_String v"
    proof -
      have z: "absolute ?z" "pu_Opaque ?z = []" "path_set ?z" using abs path_w by (simp_all add: absolute_def path_set_def)
      show ?thesis
        unfolding pu_String_absolute [OF z] sv using rp(2) [of ?z] rf(2) [of ?z] False by simp
    qed
    ultimately show ?thesis by (intro exI [of _ ?z]) simp
  qed
qed

end
