(* ===== verification/Short_Domain.thy ===== *)
theory Short_Domain
  imports Go_Strings Go_Url
begin

text \<open>
  url-shortener, \<open>internal/domain\<close>: the value objects, the domain events and the \<open>Link\<close> aggregate.
  Fresh identifiers and clock readings, which the code takes from \<open>uuid.New\<close> and \<open>time.Now\<close>, and
  the random draws of the short code are arguments. Destinations are parsed and rendered by \<open>Go_Url\<close>.
\<close>

subsection \<open>Errors\<close>

text \<open>
  The domain errors, the one of the application layer, and any error value that comes from the
  infrastructure (the database, the bus, the random source).
\<close>

datatype app_error =
    ErrInvalidURL
  | ErrInvalidShortCode
  | ErrInvalidLinkID
  | ErrLinkNotFound
  | ErrLinkAlreadyDisabled
  | ErrShortCodeExhausted
  | ErrInfra string

subsection \<open>Status and identity\<close>

type_synonym LinkStatus = string

definition StatusActive :: LinkStatus where "StatusActive = ''active''"

definition StatusDisabled :: LinkStatus where "StatusDisabled = ''disabled''"

definition IsActive :: "LinkStatus \<Rightarrow> bool" where "IsActive s \<longleftrightarrow> s = StatusActive"

definition IsDisabled :: "LinkStatus \<Rightarrow> bool" where "IsDisabled s \<longleftrightarrow> s = StatusDisabled"

lemma status_distinct [simp]: "IsDisabled StatusDisabled" "\<not> IsDisabled StatusActive"
  "IsActive StatusActive" "\<not> IsActive StatusDisabled"
  by (simp_all add: IsActive_def IsDisabled_def StatusActive_def StatusDisabled_def)

type_synonym uuid = "128 word"

datatype LinkID = LinkID (UUID: uuid)

definition LinkIDFromUUID :: "uuid \<Rightarrow> LinkID" where
  "LinkIDFromUUID i = LinkID i"

definition LinkIDFromString :: "(string \<Rightarrow> uuid option) \<Rightarrow> string \<Rightarrow> app_error + LinkID" where
  "LinkIDFromString uuid_Parse s =
     (case uuid_Parse s of None \<Rightarrow> Inl ErrInvalidLinkID | Some i \<Rightarrow> Inr (LinkID i))"

subsection \<open>Short codes\<close>

definition shortCodeLength :: int where "shortCodeLength = 7"

definition shortCodeAlphabet :: string where
  "shortCodeAlphabet = ''0123456789ABCDEFGHIJKLMNOPQRSTUVWXYZabcdefghijklmnopqrstuvwxyz''"

datatype ShortCode = ShortCode (code_String: string)

definition code_IsZero :: "ShortCode \<Rightarrow> bool" where
  "code_IsZero c \<longleftrightarrow> code_String c = []"

text \<open>
  The loop over the runes of the string, as a loop over its bytes: a byte outside ASCII is part of
  a rune above 127, or decodes to the replacement rune, and the alphabet has neither.
\<close>

definition NewShortCode :: "string \<Rightarrow> app_error + ShortCode" where
  "NewShortCode raw =
     (if int (length raw) \<noteq> shortCodeLength then Inl ErrInvalidShortCode
      else if \<not> list_all (\<lambda>r. r \<in> set shortCodeAlphabet) raw then Inl ErrInvalidShortCode
      else Inr (ShortCode raw))"

text \<open>One draw of \<open>rand.Int\<close> per byte; a failed draw ends the loop.\<close>

fun generate_bytes :: "(app_error + int) list \<Rightarrow> (app_error + string) go" where
  "generate_bytes [] = Ret (Inr [])"
| "generate_bytes (Inl err # ns) = Ret (Inl err)"
| "generate_bytes (Inr n # ns) =
     go_bind (slice_get shortCodeAlphabet n) (\<lambda>c.
     go_bind (generate_bytes ns) (\<lambda>r.
       Ret (case r of Inl err \<Rightarrow> Inl err | Inr buf \<Rightarrow> Inr (c # buf))))"

definition GenerateShortCode :: "(nat \<Rightarrow> app_error + int) \<Rightarrow> (app_error + ShortCode) go" where
  "GenerateShortCode rand_Int =
     go_bind (generate_bytes (map rand_Int [0..<nat shortCodeLength])) (\<lambda>r.
       Ret (case r of Inl err \<Rightarrow> Inl err | Inr buf \<Rightarrow> Inr (ShortCode buf)))"

lemma NewShortCode_Inr:
  "NewShortCode raw = Inr c \<longleftrightarrow>
     c = ShortCode raw \<and> length raw = 7 \<and> set raw \<subseteq> set shortCodeAlphabet"
  by (auto simp: NewShortCode_def shortCodeLength_def list_all_iff)

lemma NewShortCode_not_zero: "NewShortCode raw = Inr c \<Longrightarrow> \<not> code_IsZero c"
  by (auto simp: NewShortCode_Inr code_IsZero_def)

lemma length_alphabet: "length shortCodeAlphabet = 62"
  by (simp add: shortCodeAlphabet_def)

lemma generate_bytes_ok:
  assumes "\<forall>r \<in> set ns. \<forall>n. r = Inr n \<longrightarrow> 0 \<le> n \<and> n < 62"
  shows "\<exists>res. generate_bytes ns = Ret res \<and>
    (case res of Inl e \<Rightarrow> Inl e \<in> set ns
     | Inr buf \<Rightarrow> length buf = length ns \<and> set buf \<subseteq> set shortCodeAlphabet)"
  using assms
proof (induction ns rule: generate_bytes.induct)
  case (3 n ns)
  have n: "0 \<le> n" "n < int (length shortCodeAlphabet)" using 3(2) by (simp_all add: length_alphabet)
  from 3 obtain res where res: "generate_bytes ns = Ret res"
    "case res of Inl e \<Rightarrow> Inl e \<in> set ns
     | Inr buf \<Rightarrow> length buf = length ns \<and> set buf \<subseteq> set shortCodeAlphabet"
    by auto
  moreover have "shortCodeAlphabet ! nat n \<in> set shortCodeAlphabet" using n by simp
  ultimately show ?case using n by (cases res) (auto simp: slice_get_ok)
qed auto

lemma GenerateShortCode_valid:
  assumes "\<forall>i n. rand i = Inr n \<longrightarrow> 0 \<le> n \<and> n < 62"
  shows "\<exists>res. GenerateShortCode rand = Ret res \<and>
    (case res of Inl e \<Rightarrow> \<exists>i. rand i = Inl e | Inr c \<Rightarrow> NewShortCode (code_String c) = Inr c)"
proof -
  have "\<forall>r \<in> set (map rand [0..<7]). \<forall>n. r = Inr n \<longrightarrow> 0 \<le> n \<and> n < 62" using assms by auto
  from generate_bytes_ok [OF this] obtain res where res: "generate_bytes (map rand [0..<7]) = Ret res"
    "case res of Inl e \<Rightarrow> Inl e \<in> set (map rand [0..<7])
     | Inr buf \<Rightarrow> length buf = length (map rand [0..<7]) \<and> set buf \<subseteq> set shortCodeAlphabet" by blast
  show ?thesis
  proof (cases res)
    case (Inl e)
    with res show ?thesis by (auto simp: GenerateShortCode_def shortCodeLength_def)
  next
    case (Inr buf)
    with res show ?thesis by (auto simp: GenerateShortCode_def shortCodeLength_def NewShortCode_Inr)
  qed
qed

subsection \<open>Destination URLs\<close>

datatype URL = URL (url_String: string)

definition url_IsZero :: "URL \<Rightarrow> bool" where
  "url_IsZero u \<longleftrightarrow> url_String u = []"

definition NewURL :: "string \<Rightarrow> app_error + URL" where
  "NewURL raw =
     (let raw = TrimSpace raw in
      if raw = [] then Inl ErrInvalidURL
      else case url_Parse raw of
        None \<Rightarrow> Inl ErrInvalidURL
      | Some parsed \<Rightarrow>
          if pu_Scheme parsed \<noteq> ''http'' \<and> pu_Scheme parsed \<noteq> ''https'' then Inl ErrInvalidURL
          else if pu_Host parsed = [] then Inl ErrInvalidURL
          else Inr (URL (pu_String parsed)))"

lemma NewURL_Inr:
  "NewURL raw = Inr u \<longleftrightarrow> TrimSpace raw \<noteq> [] \<and>
     (\<exists>p. url_Parse (TrimSpace raw) = Some p \<and> pu_Scheme p \<in> {''http'', ''https''} \<and> pu_Host p \<noteq> []
        \<and> u = URL (pu_String p))"
  by (auto simp: NewURL_def Let_def split: option.splits if_splits)

lemma NewURL_error: "NewURL raw = Inl e \<Longrightarrow> e = ErrInvalidURL"
  by (auto simp: NewURL_def Let_def split: option.splits if_splits)

text \<open>
  A destination can be sent in a header: it has a scheme and no control character. It is stored as
  text and parsed again when the link is loaded; both readings agree.
\<close>

lemma NewURL_absolute:
  assumes "NewURL raw = Inr u"
  obtains v where "url_Parse (TrimSpace raw) = Some v" "absolute v" "url_String u = pu_String v"
  using assms that by (auto simp: NewURL_Inr absolute_def)

lemma NewURL_shape:
  assumes "NewURL raw = Inr u"
  shows "(prefix ''http://'' (url_String u) \<or> prefix ''https://'' (url_String u))
    \<and> (\<forall>c \<in> set (url_String u). \<not> ctl c)"
proof -
  obtain v where v: "url_Parse (TrimSpace raw) = Some v" "absolute v" "url_String u = pu_String v"
    by (rule NewURL_absolute [OF assms])
  note a = url_Parse_absolute [OF v(1,2)]
  have "prefix ''http://'' (pu_String v) \<or> prefix ''https://'' (pu_String v)"
    using pu_String_absolute [OF v(2)] a v(2) by (auto simp: absolute_def)
  with url_String_chars [OF v(1,2)] v(3) show ?thesis by auto
qed

lemma NewURL_reload:
  assumes "NewURL raw = Inr u" "TrimSpace (url_String u) = url_String u"
    "\<And>v. url_Parse (TrimSpace raw) = Some v \<Longrightarrow> \<not> zoned (pu_Host v)"
  shows "NewURL (url_String u) = Inr u"
proof -
  obtain v where v: "url_Parse (TrimSpace raw) = Some v" "absolute v" "url_String u = pu_String v"
    by (rule NewURL_absolute [OF assms(1)])
  obtain w where "url_Parse (pu_String v) = Some w" "absolute w" "pu_String w = pu_String v"
    using url_Parse_String [OF v(1,2) assms(3) [OF v(1)]] v(2) by (auto simp: absolute_def)
  moreover have "pu_String v \<noteq> []" using NewURL_shape [OF assms(1)] v(3) by auto
  ultimately show ?thesis
    using v(3) assms(2) by (cases u) (auto simp: NewURL_Inr absolute_def)
qed

subsection \<open>Domain events\<close>

record baseEvent =
  ev_id :: uuid
  ev_aggregateID :: uuid
  ev_occurredAt :: time

definition EventTypeLinkCreated :: string where "EventTypeLinkCreated = ''link.created''"

definition EventTypeLinkDisabled :: string where "EventTypeLinkDisabled = ''link.disabled''"

definition EventTypeLinkClicked :: string where "EventTypeLinkClicked = ''link.clicked''"

datatype DomainEvent =
    LinkCreated (ev_base: baseEvent) (ev_code: string) string
  | LinkDisabled (ev_base: baseEvent) (ev_code: string)
  | LinkClicked (ev_base: baseEvent) (ev_code: string)

text \<open>\<open>shared.DomainEvent\<close>: the four accessors of every event.\<close>

definition EventID :: "DomainEvent \<Rightarrow> uuid" where "EventID e = ev_id (ev_base e)"

definition AggregateID :: "DomainEvent \<Rightarrow> uuid" where "AggregateID e = ev_aggregateID (ev_base e)"

definition OccurredAt :: "DomainEvent \<Rightarrow> time" where "OccurredAt e = ev_occurredAt (ev_base e)"

fun EventType :: "DomainEvent \<Rightarrow> string" where
  "EventType (LinkCreated b c u) = EventTypeLinkCreated"
| "EventType (LinkDisabled b c) = EventTypeLinkDisabled"
| "EventType (LinkClicked b c) = EventTypeLinkClicked"

definition newBaseEvent :: "uuid \<Rightarrow> time \<Rightarrow> uuid \<Rightarrow> baseEvent" where
  "newBaseEvent newUUID now aggregateID =
     \<lparr>ev_id = newUUID, ev_aggregateID = aggregateID, ev_occurredAt = now\<rparr>"

definition NewLinkClicked :: "uuid \<Rightarrow> uuid \<Rightarrow> time \<Rightarrow> ShortCode \<Rightarrow> DomainEvent" where
  "NewLinkClicked newAggregate newUUID now code =
     LinkClicked (newBaseEvent newUUID now newAggregate) (code_String code)"

subsection \<open>The aggregate\<close>

record Link =
  lk_id :: LinkID
  lk_shortCode :: ShortCode
  lk_longURL :: URL
  lk_status :: LinkStatus
  lk_createdAt :: time
  lk_version :: int
  lk_events :: "DomainEvent list"

definition record_event :: "DomainEvent \<Rightarrow> Link \<Rightarrow> Link" where
  "record_event e l = l\<lparr>lk_events := lk_events l @ [e]\<rparr>"

text \<open>\<open>newID\<close> and \<open>eventID\<close> are the two identifiers minted, \<open>t1\<close> and \<open>t2\<close> the two clock readings.\<close>

definition NewLink ::
  "uuid \<Rightarrow> uuid \<Rightarrow> time \<Rightarrow> time \<Rightarrow> ShortCode \<Rightarrow> URL \<Rightarrow> app_error + Link" where
  "NewLink newID eventID t1 t2 code longURL =
     (if code_IsZero code then Inl ErrInvalidShortCode
      else if url_IsZero longURL then Inl ErrInvalidURL
      else
        let l = \<lparr>lk_id = LinkID newID, lk_shortCode = code, lk_longURL = longURL,
                 lk_status = StatusActive, lk_createdAt = t1, lk_version = 1, lk_events = []\<rparr> in
        Inr (record_event (LinkCreated (newBaseEvent eventID t2 newID) (code_String code)
          (url_String longURL)) l))"

definition Reconstitute ::
  "LinkID \<Rightarrow> ShortCode \<Rightarrow> URL \<Rightarrow> LinkStatus \<Rightarrow> time \<Rightarrow> int \<Rightarrow> Link" where
  "Reconstitute i code longURL st createdAt version =
     \<lparr>lk_id = i, lk_shortCode = code, lk_longURL = longURL, lk_status = st,
      lk_createdAt = createdAt, lk_version = version, lk_events = []\<rparr>"

definition Disable :: "uuid \<Rightarrow> time \<Rightarrow> Link \<Rightarrow> app_error option \<times> Link" where
  "Disable eventID now l =
     (if IsDisabled (lk_status l) then (Some ErrLinkAlreadyDisabled, l)
      else (None, record_event
        (LinkDisabled (newBaseEvent eventID now (UUID (lk_id l))) (code_String (lk_shortCode l)))
        (l\<lparr>lk_status := StatusDisabled, lk_version := lk_version l + 1\<rparr>)))"

definition PullEvents :: "Link \<Rightarrow> DomainEvent list \<times> Link" where
  "PullEvents l = (lk_events l, l\<lparr>lk_events := []\<rparr>)"

subsection \<open>The life of an aggregate\<close>

text \<open>What a client can do with an aggregate in memory, and the events it pulls, in order.\<close>

datatype link_op = OpDisable uuid time | OpPull

fun link_run :: "link_op list \<Rightarrow> Link \<Rightarrow> DomainEvent list \<times> Link" where
  "link_run [] l = ([], l)"
| "link_run (OpDisable i t # ops) l = link_run ops (snd (Disable i t l))"
| "link_run (OpPull # ops) l =
     (case PullEvents l of (es, l') \<Rightarrow> (case link_run ops l' of (es', l'') \<Rightarrow> (es @ es', l'')))"

definition is_disabled_event :: "DomainEvent \<Rightarrow> bool" where
  "is_disabled_event e \<longleftrightarrow> EventType e = EventTypeLinkDisabled"

lemma event_types_distinct [simp]:
  "EventTypeLinkCreated \<noteq> EventTypeLinkDisabled" "EventTypeLinkDisabled \<noteq> EventTypeLinkCreated"
  "EventTypeLinkClicked \<noteq> EventTypeLinkDisabled" "EventTypeLinkDisabled \<noteq> EventTypeLinkClicked"
  "EventTypeLinkClicked \<noteq> EventTypeLinkCreated" "EventTypeLinkCreated \<noteq> EventTypeLinkClicked"
  by (simp_all add: EventTypeLinkCreated_def EventTypeLinkDisabled_def EventTypeLinkClicked_def)

text \<open>
  All events an aggregate ever raises, pulled or pending, and its version and status, move
  together: the version grows by one with each disabled event, of which there is at most one, and
  the status says whether there is one.
\<close>

lemma link_run_events:
  "link_run ops l = (es, l') \<Longrightarrow>
     lk_version l' - lk_version l
       = int (length (filter is_disabled_event (es @ lk_events l')))
         - int (length (filter is_disabled_event (lk_events l)))
     \<and> lk_id l' = lk_id l \<and> lk_shortCode l' = lk_shortCode l \<and> lk_longURL l' = lk_longURL l
     \<and> (IsDisabled (lk_status l) \<longrightarrow> lk_status l' = lk_status l \<and> lk_version l' = lk_version l)
     \<and> (\<not> IsDisabled (lk_status l) \<longrightarrow>
          lk_version l' = lk_version l \<and> lk_status l' = lk_status l
          \<or> lk_version l' = lk_version l + 1 \<and> IsDisabled (lk_status l'))"
proof (induction ops l arbitrary: es rule: link_run.induct)
  case (1 l)
  then show ?case by simp
next
  case (2 i t ops l)
  show ?case
  proof (cases "IsDisabled (lk_status l)")
    case True
    with 2 show ?thesis by (simp add: Disable_def)
  next
    case False
    let ?l = "snd (Disable i t l)"
    have "lk_version ?l = lk_version l + 1" "IsDisabled (lk_status ?l)" "lk_id ?l = lk_id l"
      "lk_shortCode ?l = lk_shortCode l" "lk_longURL ?l = lk_longURL l"
      "length (filter is_disabled_event (lk_events ?l)) = length (filter is_disabled_event (lk_events l)) + 1"
      using False by (simp_all add: Disable_def record_event_def is_disabled_event_def)
    with 2 False show ?thesis by simp
  qed
next
  case (3 ops l)
  obtain es1 where "link_run ops (l\<lparr>lk_events := []\<rparr>) = (es1, l')" "es = lk_events l @ es1"
    using 3(2) by (auto simp: PullEvents_def split: prod.splits)
  with 3(1) [of "lk_events l" "l\<lparr>lk_events := []\<rparr>" es1] show ?case
    by (simp add: PullEvents_def)
qed

end
