(* ===== verification/Short_Event.thy ===== *)
theory Short_Event
  imports Short_Domain Go_Time
begin

text \<open>
  url-shortener, \<open>internal/infrastructure/event\<close> and \<open>persistence/postgres/serde.go\<close>: the forms a
  domain event takes on its way out of the write side, a row of the outbox and an envelope on the
  bus. The text forms of an instant and of a UUID are the interface \<open>wire\<close>: the first is that of
  package \<open>time\<close> (\<open>Go_Time\<close>), the second comes from a library outside the repository and is a parameter.

  What an event says, whatever its form, is a \<open>fact\<close>: its id, its type, the short code and, for a
  creation, the destination, as the JSON encoder writes them (invalid UTF-8 replaced). The components
  downstream are specified over facts.
\<close>

subsection \<open>Facts\<close>

record fact =
  f_id :: uuid
  f_type :: string
  f_code :: string
  f_url :: string

fun fact_of :: "DomainEvent \<Rightarrow> fact" where
  "fact_of (LinkCreated b c u) =
     \<lparr>f_id = ev_id b, f_type = EventTypeLinkCreated, f_code = to_valid c, f_url = to_valid u\<rparr>"
| "fact_of (LinkDisabled b c) =
     \<lparr>f_id = ev_id b, f_type = EventTypeLinkDisabled, f_code = to_valid c, f_url = []\<rparr>"
| "fact_of (LinkClicked b c) =
     \<lparr>f_id = ev_id b, f_type = EventTypeLinkClicked, f_code = to_valid c, f_url = []\<rparr>"

lemma fact_of_id [simp]: "f_id (fact_of e) = EventID e"
  by (cases e) (simp_all add: EventID_def)

lemma fact_of_type [simp]: "f_type (fact_of e) = EventType e"
  by (cases e) simp_all

subsection \<open>The payload\<close>

record Payload =
  pl_ShortCode :: string
  pl_LongURL :: string

definition marshal_payload :: "Payload \<Rightarrow> json" where
  "marshal_payload p =
     JObj ((''short_code'', JStr (to_valid (pl_ShortCode p)))
       # (if pl_LongURL p = [] then [] else [(''long_url'', JStr (to_valid (pl_LongURL p)))]))"

fun payload_fields :: "(string \<times> json) list \<Rightarrow> Payload \<Rightarrow> Payload option" where
  "payload_fields [] p = Some p"
| "payload_fields ((k, v) # kvs) p =
     (if field_matches ''short_code'' k then
        (case json_string v (pl_ShortCode p) of None \<Rightarrow> None
         | Some s \<Rightarrow> payload_fields kvs (p\<lparr>pl_ShortCode := s\<rparr>))
      else if field_matches ''long_url'' k then
        (case json_string v (pl_LongURL p) of None \<Rightarrow> None
         | Some s \<Rightarrow> payload_fields kvs (p\<lparr>pl_LongURL := s\<rparr>))
      else payload_fields kvs p)"

fun unmarshal_payload :: "json \<Rightarrow> Payload option" where
  "unmarshal_payload JNull = Some \<lparr>pl_ShortCode = [], pl_LongURL = []\<rparr>"
| "unmarshal_payload (JObj kvs) = payload_fields kvs \<lparr>pl_ShortCode = [], pl_LongURL = []\<rparr>"
| "unmarshal_payload _ = None"

lemma payload_roundtrip:
  "unmarshal_payload (marshal_payload p)
     = Some \<lparr>pl_ShortCode = to_valid (pl_ShortCode p), pl_LongURL = to_valid (pl_LongURL p)\<rparr>"
  by (simp add: marshal_payload_def field_matches_def fold_char_def in_range_def to_valid_def)

subsection \<open>The outbox row\<close>

record outboxModel =
  om_Seq :: int
  om_ID :: uuid
  om_AggregateID :: uuid
  om_EventType :: string
  om_Payload :: json
  om_OccurredAt :: time
  om_PublishedAt :: "time option"

text \<open>The row the code builds leaves the sequence number to the database.\<close>

definition toOutboxRow :: "DomainEvent \<Rightarrow> outboxModel" where
  "toOutboxRow e =
     (let payload =
        (case e of
           LinkCreated b c u \<Rightarrow> marshal_payload \<lparr>pl_ShortCode = c, pl_LongURL = u\<rparr>
         | LinkDisabled b c \<Rightarrow> marshal_payload \<lparr>pl_ShortCode = c, pl_LongURL = []\<rparr>
         | LinkClicked b c \<Rightarrow> marshal_payload \<lparr>pl_ShortCode = c, pl_LongURL = []\<rparr>) in
      \<lparr>om_Seq = 0, om_ID = EventID e, om_AggregateID = AggregateID e, om_EventType = EventType e,
       om_Payload = payload, om_OccurredAt = OccurredAt e, om_PublishedAt = None\<rparr>)"

definition fact_of_payload :: "uuid \<Rightarrow> string \<Rightarrow> Payload \<Rightarrow> fact" where
  "fact_of_payload i ty p =
     \<lparr>f_id = i, f_type = ty, f_code = pl_ShortCode p,
      f_url = (if ty = EventTypeLinkCreated then pl_LongURL p else [])\<rparr>"

definition row_fact :: "outboxModel \<Rightarrow> fact option" where
  "row_fact r = map_option (fact_of_payload (om_ID r) (om_EventType r)) (unmarshal_payload (om_Payload r))"

lemma row_fact_toOutboxRow [simp]: "row_fact (toOutboxRow e) = Some (fact_of e)"
  by (cases e)
    (simp_all add: row_fact_def toOutboxRow_def payload_roundtrip fact_of_payload_def EventID_def)

lemma row_fact_update [simp]:
  "row_fact (r\<lparr>om_Seq := n\<rparr>) = row_fact r" "row_fact (r\<lparr>om_OccurredAt := t\<rparr>) = row_fact r"
  "row_fact (r\<lparr>om_PublishedAt := p\<rparr>) = row_fact r"
  by (simp_all add: row_fact_def)

lemma toOutboxRow_id [simp]: "om_ID (toOutboxRow e) = EventID e"
  by (simp add: toOutboxRow_def)

lemma toOutboxRow_type [simp]: "om_EventType (toOutboxRow e) = EventType e"
  by (simp add: toOutboxRow_def)

lemma toOutboxRow_unpublished [simp]: "om_PublishedAt (toOutboxRow e) = None"
  by (simp add: toOutboxRow_def)

subsection \<open>Records and envelopes\<close>

record OutboxRecord =
  rec_Seq :: int
  rec_EventID :: string
  rec_AggregateID :: string
  rec_EventType :: string
  rec_Payload :: json
  rec_OccurredAt :: time

record Envelope =
  env_EventID :: string
  env_AggregateID :: string
  env_EventType :: string
  env_OccurredAt :: time
  env_Payload :: json

text \<open>
  \<open>time_Format\<close> is the JSON form of an instant, nothing outside the years 0 to 9999; \<open>time_Parse\<close>
  reads it back.
\<close>

definition marshal_envelope :: "(time \<Rightarrow> string option) \<Rightarrow> Envelope \<Rightarrow> json option" where
  "marshal_envelope time_Format e =
     (case time_Format (env_OccurredAt e) of
        None \<Rightarrow> None
      | Some t \<Rightarrow> Some (JObj
          [(''event_id'', JStr (to_valid (env_EventID e))),
           (''aggregate_id'', JStr (to_valid (env_AggregateID e))),
           (''event_type'', JStr (to_valid (env_EventType e))),
           (''occurred_at'', JStr t),
           (''payload'', env_Payload e)]))"

definition json_time :: "(string \<Rightarrow> time option) \<Rightarrow> json \<Rightarrow> time \<Rightarrow> time option" where
  "json_time time_Parse v old =
     (case v of JNull \<Rightarrow> Some old | JStr s \<Rightarrow> time_Parse s | _ \<Rightarrow> None)"

fun envelope_fields ::
  "(string \<Rightarrow> time option) \<Rightarrow> (string \<times> json) list \<Rightarrow> Envelope \<Rightarrow> Envelope option" where
  "envelope_fields tp [] e = Some e"
| "envelope_fields tp ((k, v) # kvs) e =
     (if field_matches ''event_id'' k then
        (case json_string v (env_EventID e) of None \<Rightarrow> None
         | Some s \<Rightarrow> envelope_fields tp kvs (e\<lparr>env_EventID := s\<rparr>))
      else if field_matches ''aggregate_id'' k then
        (case json_string v (env_AggregateID e) of None \<Rightarrow> None
         | Some s \<Rightarrow> envelope_fields tp kvs (e\<lparr>env_AggregateID := s\<rparr>))
      else if field_matches ''event_type'' k then
        (case json_string v (env_EventType e) of None \<Rightarrow> None
         | Some s \<Rightarrow> envelope_fields tp kvs (e\<lparr>env_EventType := s\<rparr>))
      else if field_matches ''occurred_at'' k then
        (case json_time tp v (env_OccurredAt e) of None \<Rightarrow> None
         | Some t \<Rightarrow> envelope_fields tp kvs (e\<lparr>env_OccurredAt := t\<rparr>))
      else if field_matches ''payload'' k then envelope_fields tp kvs (e\<lparr>env_Payload := v\<rparr>)
      else envelope_fields tp kvs e)"

text \<open>
  The zero envelope has the zero time, year 1, and an empty raw payload, on which \<open>Unmarshal\<close>
  fails as it does on a payload of another kind: \<open>JArr []\<close> stands for it.
\<close>

definition zero_envelope :: "time \<Rightarrow> Envelope" where
  "zero_envelope zero_time =
     \<lparr>env_EventID = [], env_AggregateID = [], env_EventType = [], env_OccurredAt = zero_time,
      env_Payload = JArr []\<rparr>"

fun unmarshal_envelope :: "time \<Rightarrow> (string \<Rightarrow> time option) \<Rightarrow> json \<Rightarrow> Envelope option" where
  "unmarshal_envelope z tp JNull = Some (zero_envelope z)"
| "unmarshal_envelope z tp (JObj kvs) = envelope_fields tp kvs (zero_envelope z)"
| "unmarshal_envelope z tp _ = None"

definition envelope_fact :: "(string \<Rightarrow> uuid option) \<Rightarrow> Envelope \<Rightarrow> fact option" where
  "envelope_fact uuid_Parse e =
     (case uuid_Parse (env_EventID e) of
        None \<Rightarrow> None
      | Some i \<Rightarrow> map_option (fact_of_payload i (env_EventType e)) (unmarshal_payload (env_Payload e)))"

subsection \<open>The wire interface\<close>

text \<open>What an encoder writes for an instant is ASCII and is read back.\<close>

locale time_text =
  fixes time_Format :: "time \<Rightarrow> string option"
    and time_Parse :: "string \<Rightarrow> time option"
  assumes time_roundtrip: "time_Format t = Some s \<Longrightarrow> time_Parse s = Some t"
    and time_ascii: "time_Format t = Some s \<Longrightarrow> ascii s"

text \<open>The text of a UUID is ASCII and is read back.\<close>

locale uuid_text =
  fixes uuid_String :: "uuid \<Rightarrow> string"
    and uuid_Parse :: "string \<Rightarrow> uuid option"
  assumes uuid_roundtrip: "uuid_Parse (uuid_String i) = Some i"
    and uuid_ascii: "ascii (uuid_String i)"
begin

lemma uuid_String_inj: "uuid_String i = uuid_String j \<longleftrightarrow> i = j"
  by (metis uuid_roundtrip option.inject)

end

locale wire = time_text time_Format time_Parse + uuid_text uuid_String uuid_Parse
  for time_Format :: "time \<Rightarrow> string option" and time_Parse :: "string \<Rightarrow> time option"
    and uuid_String :: "uuid \<Rightarrow> string" and uuid_Parse :: "string \<Rightarrow> uuid option"
begin

lemma envelope_roundtrip:
  assumes "marshal_envelope time_Format e = Some data"
    "to_valid (env_EventID e) = env_EventID e" "to_valid (env_AggregateID e) = env_AggregateID e"
    "to_valid (env_EventType e) = env_EventType e"
  shows "unmarshal_envelope z time_Parse data = Some e"
  using assms
  by (auto simp: marshal_envelope_def zero_envelope_def field_matches_def fold_char_def in_range_def
      json_time_def time_roundtrip split: option.splits)

text \<open>The text of an envelope is read back as the value it was written from.\<close>

lemma envelope_text:
  assumes "marshal_envelope time_Format e = Some data" "json_ok (env_Payload e)"
    "json_depth (env_Payload e) < maxNestingDepth" "valid_json (env_Payload e) = env_Payload e"
  shows "json_Unmarshal (json_text data) = Some data"
proof -
  have "json_ok data" "json_depth data \<le> maxNestingDepth" "valid_json data = data"
    using assms
    by (auto simp: marshal_envelope_def time_ascii maxNestingDepth_def split: option.splits)
  with json_round_trip(1) [of data] show ?thesis by simp
qed

end

lemma payload_text:
  "json_ok (marshal_payload p)" "json_depth (marshal_payload p) = 1"
  "valid_json (marshal_payload p) = marshal_payload p"
  by (simp_all add: marshal_payload_def)

text \<open>
  The instants of package \<open>time\<close>, in the zone of the program that writes, are such a text; the
  canonical form of a UUID, 32 hexadecimal digits in groups of 8, 4, 4, 4 and 12, is one for the ids.
\<close>

interpretation go_time: time_text "time_MarshalJSON zone" "time_UnmarshalJSON lenient" for zone lenient
  by unfold_locales (auto simp: time_json_round_trip intro: ascii_time_MarshalJSON)

definition hex_text :: "nat \<Rightarrow> nat \<Rightarrow> string" where
  "hex_text k n = map (\<lambda>i. lower_hex (n div 16 ^ i mod 16)) (rev [0..<k])"

fun parse_hex :: "nat \<Rightarrow> string \<Rightarrow> nat option" where
  "parse_hex acc [] = Some acc"
| "parse_hex acc (c # cs) = (case unhex c of None \<Rightarrow> None | Some d \<Rightarrow> parse_hex (16 * acc + d) cs)"

lemma hex_text_Suc: "hex_text (Suc k) n = lower_hex (n div 16 ^ k mod 16) # hex_text k n"
  by (simp add: hex_text_def)

lemma parse_hex_text: "parse_hex a (hex_text k n) = Some (16 ^ k * a + n mod 16 ^ k)"
proof (induction k arbitrary: a)
  case (Suc k)
  let ?d = "n div 16 ^ k mod 16"
  have u: "unhex (lower_hex ?d) = Some ?d" by (intro unhex_lower_hex mod_less_divisor zero_less_numeral)
  have m: "n mod 16 ^ Suc k = 16 ^ k * ?d + n mod 16 ^ k"
    unfolding power_Suc2 by (rule mod_mult2_eq)
  have a: "16 ^ k * (16 * a + ?d) = 16 ^ Suc k * a + 16 ^ k * ?d"
    by (simp only: distrib_left power_Suc2 mult.assoc)
  show ?case unfolding hex_text_Suc parse_hex.simps u option.case Suc a m by (simp only: add.assoc)
qed (simp add: hex_text_def)

lemma length_hex_text [simp]: "length (hex_text k n) = k"
  by (simp add: hex_text_def)

lemma ascii_hex_text [simp]: "ascii (hex_text k n)"
proof -
  have "ascii ''0123456789abcdef''" by simp
  moreover have "lower_hex (m mod 16) \<in> set ''0123456789abcdef''" for m
    unfolding lower_hex_def by (rule nth_mem) simp
  ultimately have "(of_char (lower_hex (m mod 16)) :: nat) < 0x80" for m unfolding ascii_def by blast
  then show ?thesis by (simp add: hex_text_def ascii_def)
qed

definition group_from :: "nat \<Rightarrow> nat \<Rightarrow> string \<Rightarrow> string" where
  "group_from i n s = take n (drop i s)"

lemma group_split:
  "group_from i n s @ drop (i + n) s = drop i s" "length s = i + n \<Longrightarrow> group_from i n s = drop i s"
  by (simp_all add: group_from_def) (metis append_take_drop_id drop_drop add.commute)

definition canonical_uuid :: "uuid \<Rightarrow> string" where
  "canonical_uuid i =
     (let h = hex_text 32 (unat i) in
      group_from 0 8 h @ ''-'' @ group_from 8 4 h @ ''-'' @ group_from 12 4 h @ ''-'' @ group_from 16 4 h @
      ''-'' @ group_from 20 12 h)"

definition canonical_uuid_Parse :: "string \<Rightarrow> uuid option" where
  "canonical_uuid_Parse s =
     (if length s = 36 \<and> (\<forall>k \<in> {8, 13, 18, 23}. s ! k = CHR ''-'')
      then map_option of_nat (parse_hex 0
        (group_from 0 8 s @ group_from 9 4 s @ group_from 14 4 s @ group_from 19 4 s @ group_from 24 12 s))
      else None)"

interpretation canonical: uuid_text canonical_uuid canonical_uuid_Parse
proof
  fix i :: uuid
  define h where "h = hex_text 32 (unat i)"
  have len: "length h = 32" by (simp add: h_def)
  have split: "group_from 0 8 h @ group_from 8 4 h @ group_from 12 4 h @ group_from 16 4 h @ group_from 20 12 h = h"
    using group_split(1) [of 0 8 h] group_split(1) [of 8 4 h] group_split(1) [of 12 4 h]
      group_split(1) [of 16 4 h] group_split(2) [of h 20 12] len by simp
  show "ascii (canonical_uuid i)"
    using ascii_hex_text [of 32 "unat i"]
    by (auto simp: canonical_uuid_def Let_def group_from_def ascii_def dest: in_set_takeD in_set_dropD)
  have "unat i < 2 ^ LENGTH(128)" by (rule unsigned_less)
  then have "parse_hex 0 h = Some (unat i)" using parse_hex_text [of 0 32 "unat i"] by (simp add: h_def)
  then show "canonical_uuid_Parse (canonical_uuid i) = Some i"
    using len split
    by (simp add: canonical_uuid_def canonical_uuid_Parse_def group_from_def h_def [symmetric] nth_append)
qed

interpretation canonical_wire: wire "time_MarshalJSON zone" "time_UnmarshalJSON lenient" canonical_uuid
    canonical_uuid_Parse for zone lenient
  by unfold_locales

lemma go_wire: "uuid_text us up \<Longrightarrow> wire (time_MarshalJSON zone) (time_UnmarshalJSON lenient) us up"
  by (intro wire.intro go_time.time_text_axioms)

text \<open>A short wire for concrete runs: instants and ids in decimal.\<close>

definition decimal_time :: "time \<Rightarrow> string option" where
  "decimal_time t = (if - (2 ^ 63) \<le> t \<and> t < 2 ^ 63 then Some (FormatInt t) else None)"

definition decimal_uuid :: "uuid \<Rightarrow> string" where
  "decimal_uuid i = digits (unat i)"

definition decimal_uuid_Parse :: "string \<Rightarrow> uuid option" where
  "decimal_uuid_Parse s = map_option of_nat (parse_digits 0 s)"

interpretation decimal: wire decimal_time ParseInt decimal_uuid decimal_uuid_Parse
proof
  show "decimal_time t = Some s \<Longrightarrow> ParseInt s = Some t" for t s
    by (auto simp: decimal_time_def ParseInt_FormatInt split: if_splits)
  show "decimal_time t = Some s \<Longrightarrow> ascii s" for t s
    by (auto simp: decimal_time_def split: if_splits)
  show "decimal_uuid_Parse (decimal_uuid i) = Some i" for i
    by (simp add: decimal_uuid_Parse_def decimal_uuid_def parse_digits_digits)
  show "ascii (decimal_uuid i)" for i
    by (simp add: decimal_uuid_def ascii_digits)
qed

end
