(* ===== verification/Short_Ports.thy ===== *)
theory Short_Ports
  imports Short_Event
begin

text \<open>
  url-shortener, \<open>internal/domain/link/repository.go\<close>, \<open>internal/application/port\<close> and the two
  interfaces of the relay: each Go interface is a record of operations on a state, and a locale
  with the contract its clients rely on, stated through an observer of the state.

  Every operation may fail at any time with an infrastructure error. A failed write has left its
  target either as it was or written: a connection can be lost after the commit, and the client
  cannot tell. What it never leaves is a part of the write.
\<close>

definition is_infra :: "app_error \<Rightarrow> bool" where
  "is_infra e \<longleftrightarrow> (\<exists>m. e = ErrInfra m)"

lemma is_infra_simps [simp]:
  "is_infra (ErrInfra m)" "\<not> is_infra ErrLinkNotFound" "\<not> is_infra ErrLinkAlreadyDisabled"
  "\<not> is_infra ErrInvalidShortCode" "\<not> is_infra ErrInvalidURL" "\<not> is_infra ErrShortCodeExhausted"
  "\<not> is_infra ErrInvalidLinkID"
  by (simp_all add: is_infra_def)

subsection \<open>The write store, abstractly\<close>

text \<open>The links by identity, and the log of everything that was ever recorded in the outbox.\<close>

record stored =
  sl_code :: string
  sl_url :: string
  sl_status :: LinkStatus
  sl_version :: int

record store =
  st_links :: "uuid \<rightharpoonup> stored"
  st_log :: "fact list"

definition stored_of :: "Link \<Rightarrow> stored" where
  "stored_of l = \<lparr>sl_code = code_String (lk_shortCode l), sl_url = url_String (lk_longURL l),
     sl_status = lk_status l, sl_version = lk_version l\<rparr>"

definition appended :: "DomainEvent list \<Rightarrow> store \<Rightarrow> store" where
  "appended es st = st\<lparr>st_log := st_log st @ map fact_of es\<rparr>"

definition saved :: "Link \<Rightarrow> store \<Rightarrow> store" where
  "saved l st = (appended (lk_events l) st)
     \<lparr>st_links := (st_links st)(UUID (lk_id l) \<mapsto> stored_of l)\<rparr>"

definition log_ids :: "store \<Rightarrow> uuid set" where
  "log_ids st = f_id ` set (st_log st)"

definition ids_fresh :: "DomainEvent list \<Rightarrow> store \<Rightarrow> bool" where
  "ids_fresh es st \<longleftrightarrow> distinct (map EventID es) \<and> set (map EventID es) \<inter> log_ids st = {}"

definition code_taken :: "string \<Rightarrow> store \<Rightarrow> bool" where
  "code_taken c st \<longleftrightarrow> (\<exists>i r. st_links st i = Some r \<and> sl_code r = c)"

definition code_free :: "Link \<Rightarrow> store \<Rightarrow> bool" where
  "code_free l st \<longleftrightarrow>
     (\<forall>i r. st_links st i = Some r \<and> sl_code r = code_String (lk_shortCode l) \<longrightarrow> i = UUID (lk_id l))"

lemma store_sel [simp]:
  "st_links (appended es st) = st_links st" "st_log (appended es st) = st_log st @ map fact_of es"
  "st_links (saved l st) = (st_links st)(UUID (lk_id l) \<mapsto> stored_of l)"
  "st_log (saved l st) = st_log st @ map fact_of (lk_events l)"
  by (simp_all add: appended_def saved_def)

lemma appended_Nil [simp]: "appended [] st = st"
  by (simp add: appended_def)

text \<open>Short codes identify links, event ids identify the entries of the log.\<close>

definition store_ok :: "store \<Rightarrow> bool" where
  "store_ok st \<longleftrightarrow> distinct (map f_id (st_log st))
     \<and> (\<forall>i j r q. st_links st i = Some r \<and> st_links st j = Some q \<and> sl_code r = sl_code q \<longrightarrow> i = j)"

lemma store_ok_empty [simp]: "store_ok \<lparr>st_links = Map.empty, st_log = []\<rparr>"
  by (simp add: store_ok_def)

lemma store_ok_appended: "store_ok st \<Longrightarrow> ids_fresh es st \<Longrightarrow> store_ok (appended es st)"
  by (auto simp: store_ok_def ids_fresh_def log_ids_def comp_def)

lemma store_ok_saved:
  assumes "store_ok st" "ids_fresh (lk_events l) st" "code_free l st"
  shows "store_ok (saved l st)"
  using assms
  by (auto simp: store_ok_def ids_fresh_def log_ids_def comp_def code_free_def stored_of_def)

subsection \<open>The repository port\<close>

text \<open>\<open>Save\<close> takes the aggregate by reference: it drains its events whatever the outcome.\<close>

record 's Repository =
  rSave :: "Link \<Rightarrow> 's \<Rightarrow> (app_error option \<times> Link) \<times> 's"
  rFindByShortCode :: "ShortCode \<Rightarrow> 's \<Rightarrow> (app_error + Link) \<times> 's"
  rExistsByShortCode :: "ShortCode \<Rightarrow> 's \<Rightarrow> (app_error + bool) \<times> 's"

locale repository_port =
  fixes repo :: "'s Repository"
    and store :: "'s \<Rightarrow> store"
  assumes Save_drains: "rSave repo l s = ((res, l'), s') \<Longrightarrow> l' = l\<lparr>lk_events := []\<rparr>"
    and Save_ok: "rSave repo l s = ((None, l'), s') \<Longrightarrow>
      code_free l (store s) \<and> ids_fresh (lk_events l) (store s) \<and> store s' = saved l (store s)"
    and Save_err: "rSave repo l s = ((Some e, l'), s') \<Longrightarrow>
      is_infra e \<and> (store s' = store s \<or>
        code_free l (store s) \<and> ids_fresh (lk_events l) (store s) \<and> store s' = saved l (store s))"
    and Find_store: "rFindByShortCode repo c s = (found, s') \<Longrightarrow> store s' = store s"
    and Find_ok: "rFindByShortCode repo c s = (Inr l, s') \<Longrightarrow>
      lk_shortCode l = c \<and> lk_events l = [] \<and>
      (\<exists>r. st_links (store s) (UUID (lk_id l)) = Some r \<and> sl_code r = code_String c
        \<and> sl_status r = lk_status l \<and> sl_version r = lk_version l
        \<and> NewURL (sl_url r) = Inr (lk_longURL l))"
    and Find_missing: "rFindByShortCode repo c s = (Inl ErrLinkNotFound, s') \<Longrightarrow>
      \<not> code_taken (code_String c) (store s)"
    and Find_err: "rFindByShortCode repo c s = (Inl e, s') \<Longrightarrow>
      e \<in> {ErrLinkNotFound, ErrInvalidShortCode, ErrInvalidURL} \<or> is_infra e"
    and Exists_store: "rExistsByShortCode repo c s = (exists, s') \<Longrightarrow> store s' = store s"
    and Exists_ok: "rExistsByShortCode repo c s = (Inr b, s') \<Longrightarrow> b = code_taken (code_String c) (store s)"
    and Exists_err: "rExistsByShortCode repo c s = (Inl e, s') \<Longrightarrow> is_infra e"
begin

lemma Save_store_ok:
  assumes "rSave repo l s = (res, s')" "store_ok (store s)"
  shows "store_ok (store s')"
proof (cases "fst res")
  case None
  with assms(1) have "rSave repo l s = ((None, snd res), s')" by (metis prod.collapse)
  with Save_ok assms(2) show ?thesis by (simp add: store_ok_saved)
next
  case (Some e)
  with assms(1) have "rSave repo l s = ((Some e, snd res), s')" by (metis prod.collapse)
  from Save_err [OF this] assms(2) show ?thesis by (auto simp: store_ok_saved)
qed

end

subsection \<open>The outbox port\<close>

record 's Outbox =
  oAppend :: "DomainEvent list \<Rightarrow> 's \<Rightarrow> app_error option \<times> 's"

locale outbox_port =
  fixes outbox :: "'s Outbox"
    and store :: "'s \<Rightarrow> store"
  assumes Append_ok: "oAppend outbox es s = (None, s') \<Longrightarrow>
      ids_fresh es (store s) \<and> store s' = appended es (store s)"
    and Append_err: "oAppend outbox es s = (Some e, s') \<Longrightarrow>
      is_infra e \<and> (store s' = store s \<or> ids_fresh es (store s) \<and> store s' = appended es (store s))"
begin

lemma Append_store_ok: "oAppend outbox es s = (res, s') \<Longrightarrow> store_ok (store s) \<Longrightarrow> store_ok (store s')"
  using Append_ok Append_err by (cases res) (metis store_ok_appended)+

end

subsection \<open>The read model ports\<close>

record view =
  v_links :: "string \<rightharpoonup> string"
  v_clicks :: "string \<rightharpoonup> int"

definition clicks_of :: "view \<Rightarrow> string \<Rightarrow> int" where
  "clicks_of v c = (case v_clicks v c of None \<Rightarrow> 0 | Some n \<Rightarrow> n)"

definition int64 :: "int \<Rightarrow> bool" where
  "int64 n \<longleftrightarrow> - (2 ^ 63) \<le> n \<and> n < 2 ^ 63"

record 's ReadModel =
  rmLongURL :: "string \<Rightarrow> 's \<Rightarrow> (app_error + string) \<times> 's"
  rmClicks :: "string \<Rightarrow> 's \<Rightarrow> (app_error + int) \<times> 's"

record 's ReadModelWriter =
  wSaveLink :: "string \<Rightarrow> string \<Rightarrow> 's \<Rightarrow> app_error option \<times> 's"
  wDeleteLink :: "string \<Rightarrow> 's \<Rightarrow> app_error option \<times> 's"
  wSetClicks :: "string \<Rightarrow> int \<Rightarrow> 's \<Rightarrow> app_error option \<times> 's"

text \<open>A write that is asked for and reports \<open>res\<close>: done, or failed with nothing or all of it done.\<close>

definition write_outcome :: "app_error option \<Rightarrow> 'a \<Rightarrow> 'a \<Rightarrow> 'a \<Rightarrow> bool" where
  "write_outcome res before target after \<longleftrightarrow>
     (case res of None \<Rightarrow> after = target
      | Some e \<Rightarrow> is_infra e \<and> (after = before \<or> after = target))"

lemma write_outcome_simps [simp]:
  "write_outcome None b t a \<longleftrightarrow> a = t"
  "write_outcome (Some e) b t a \<longleftrightarrow> is_infra e \<and> (a = b \<or> a = t)"
  by (simp_all add: write_outcome_def)

lemma write_outcome_cases: "write_outcome res b t a \<Longrightarrow> a = b \<or> a = t"
  by (cases res) auto

locale read_model_port =
  fixes rm :: "'s ReadModel"
    and view :: "'s \<Rightarrow> view"
  assumes LongURL_view: "rmLongURL rm c s = (res, s') \<Longrightarrow> view s' = view s"
    and LongURL_ok: "rmLongURL rm c s = (Inr u, s') \<Longrightarrow> v_links (view s) c = Some u"
    and LongURL_err: "rmLongURL rm c s = (Inl e, s') \<Longrightarrow>
      e = ErrLinkNotFound \<and> v_links (view s) c = None \<or> is_infra e"
    and Clicks_view: "rmClicks rm c s = (count, s') \<Longrightarrow> view s' = view s"
    and Clicks_ok: "rmClicks rm c s = (Inr n, s') \<Longrightarrow>
      v_links (view s) c \<noteq> None \<and> n = clicks_of (view s) c"
    and Clicks_err: "rmClicks rm c s = (Inl e, s') \<Longrightarrow>
      e = ErrLinkNotFound \<and> v_links (view s) c = None \<or> is_infra e"

locale writer_port =
  fixes w :: "'s ReadModelWriter"
    and view :: "'s \<Rightarrow> view"
  assumes SaveLink: "wSaveLink w c u s = (res, s') \<Longrightarrow>
      write_outcome res (view s) ((view s)\<lparr>v_links := (v_links (view s))(c \<mapsto> u)\<rparr>) (view s')"
    and DeleteLink: "wDeleteLink w c s = (res, s') \<Longrightarrow>
      write_outcome res (view s) ((view s)\<lparr>v_links := (v_links (view s))(c := None)\<rparr>) (view s')"
    and SetClicks: "int64 n \<Longrightarrow> wSetClicks w c n s = (res, s') \<Longrightarrow>
      write_outcome res (view s) ((view s)\<lparr>v_clicks := (v_clicks (view s))(c \<mapsto> n)\<rparr>) (view s')"

subsection \<open>The analytics port\<close>

text \<open>The durable counters, and the ids of the events already counted.\<close>

record analytics =
  an_seen :: "uuid set"
  an_count :: "string \<rightharpoonup> int"

definition count_of :: "analytics \<Rightarrow> string \<Rightarrow> int" where
  "count_of an c = (case an_count an c of None \<Rightarrow> 0 | Some n \<Rightarrow> n)"

definition click :: "uuid \<Rightarrow> string \<Rightarrow> analytics \<Rightarrow> analytics" where
  "click i c an =
     (if i \<in> an_seen an then an
      else \<lparr>an_seen = insert i (an_seen an), an_count = (an_count an)(c \<mapsto> count_of an c + 1)\<rparr>)"

text \<open>The rows \<open>ListAll\<close> returns are pairs of a short code and its count.\<close>

record 's AnalyticsStore =
  aRecordClick :: "uuid \<Rightarrow> string \<Rightarrow> time \<Rightarrow> 's \<Rightarrow> (app_error + int) \<times> 's"
  aListAll :: "'s \<Rightarrow> (app_error + (string \<times> int) list) \<times> 's"

locale analytics_port =
  fixes an :: "'s AnalyticsStore"
    and counters :: "'s \<Rightarrow> analytics"
  assumes RecordClick_ok: "aRecordClick an i c t s = (Inr n, s') \<Longrightarrow>
      counters s' = click i c (counters s) \<and> n = count_of (counters s') c \<and> int64 n"
    and RecordClick_err: "aRecordClick an i c t s = (Inl e, s') \<Longrightarrow>
      is_infra e \<and> (counters s' = counters s \<or> counters s' = click i c (counters s))"
    and aListAll_ok: "aListAll an s = (Inr cs, s') \<Longrightarrow>
      is_iteration (an_count (counters s)) cs \<and> (\<forall>(c, n) \<in> set cs. int64 n)"
    and aListAll_err: "aListAll an s = (Inl e, s') \<Longrightarrow> is_infra e"
    and aListAll_counters: "aListAll an s = (rows, s') \<Longrightarrow> counters s' = counters s"

subsection \<open>The reader of links\<close>

record LinkSnapshot =
  sn_ShortCode :: string
  sn_LongURL :: string
  sn_Disabled :: bool

record 's LinkReader =
  lListAll :: "'s \<Rightarrow> (app_error + LinkSnapshot list) \<times> 's"

definition snapshot :: "stored \<Rightarrow> LinkSnapshot" where
  "snapshot r = \<lparr>sn_ShortCode = sl_code r, sn_LongURL = sl_url r, sn_Disabled = IsDisabled (sl_status r)\<rparr>"

locale link_reader_port =
  fixes reader :: "'s LinkReader"
    and store :: "'s \<Rightarrow> store"
  assumes lListAll_ok: "lListAll reader s = (Inr xs, s') \<Longrightarrow> set xs = snapshot ` ran (st_links (store s))"
    and lListAll_err: "lListAll reader s = (Inl e, s') \<Longrightarrow> is_infra e"
    and lListAll_store: "lListAll reader s = (res, s') \<Longrightarrow> store s' = store s"

subsection \<open>The interfaces of the relay\<close>

record 's Source =
  sFetchUnpublished :: "int \<Rightarrow> 's \<Rightarrow> (app_error + OutboxRecord list) \<times> 's"
  sMarkPublished :: "time \<Rightarrow> int list \<Rightarrow> 's \<Rightarrow> app_error option \<times> 's"

record 's Publisher =
  pPublish :: "string \<Rightarrow> json \<Rightarrow> string \<Rightarrow> 's \<Rightarrow> app_error option \<times> 's"

end
