(* ===== verification/Short_Commands.thy ===== *)
theory Short_Commands
  imports Short_Ports
begin

text \<open>
  url-shortener, \<open>internal/application\<close>: the commands and the queries. Each handler is a function of
  its ports, of the identifiers and clock readings it mints, and of the state behind the ports.
\<close>

subsection \<open>Creating a link\<close>

record minted =
  mt_id :: uuid
  mt_event :: uuid
  mt_t1 :: time
  mt_t2 :: time

record CreateLinkResult =
  clr_ShortCode :: string
  clr_LongURL :: string

definition maxShortCodeAttempts :: nat where "maxShortCodeAttempts = 5"

text \<open>The loop over the attempts; each attempt that gets to \<open>NewLink\<close> mints from its own entry.\<close>

fun create_loop ::
  "'s Repository \<Rightarrow> ('s \<Rightarrow> (app_error + ShortCode) \<times> 's) \<Rightarrow> URL \<Rightarrow> minted list \<Rightarrow> 's
     \<Rightarrow> (app_error + CreateLinkResult) \<times> 's" where
  "create_loop repo gen longURL [] s = (Inl ErrShortCodeExhausted, s)"
| "create_loop repo gen longURL (mt # mts) s =
     (case gen s of
        (Inl e, s1) \<Rightarrow> (Inl e, s1)
      | (Inr code, s1) \<Rightarrow>
          (case rExistsByShortCode repo code s1 of
             (Inl e, s2) \<Rightarrow> (Inl e, s2)
           | (Inr True, s2) \<Rightarrow> create_loop repo gen longURL mts s2
           | (Inr False, s2) \<Rightarrow>
               (case NewLink (mt_id mt) (mt_event mt) (mt_t1 mt) (mt_t2 mt) code longURL of
                  Inl e \<Rightarrow> (Inl e, s2)
                | Inr l \<Rightarrow>
                    (case rSave repo l s2 of
                       ((Some e, l'), s3) \<Rightarrow> create_loop repo gen longURL mts s3
                     | ((None, l'), s3) \<Rightarrow>
                         (Inr \<lparr>clr_ShortCode = code_String code, clr_LongURL = url_String longURL\<rparr>, s3)))))"

definition CreateLink_Handle ::
  "'s Repository \<Rightarrow> ('s \<Rightarrow> (app_error + ShortCode) \<times> 's)
     \<Rightarrow> (nat \<Rightarrow> minted) \<Rightarrow> string \<Rightarrow> 's \<Rightarrow> (app_error + CreateLinkResult) \<times> 's" where
  "CreateLink_Handle repo gen mint url s =
     (case NewURL url of
        Inl e \<Rightarrow> (Inl e, s)
      | Inr longURL \<Rightarrow> create_loop repo gen longURL (map mint [0..<maxShortCodeAttempts]) s)"

subsection \<open>Disabling a link, recording a click\<close>

definition DisableLink_Handle ::
  "'s Repository \<Rightarrow> uuid \<Rightarrow> time \<Rightarrow> string \<Rightarrow> 's \<Rightarrow> app_error option \<times> 's" where
  "DisableLink_Handle repo eventID now short s =
     (case NewShortCode short of
        Inl e \<Rightarrow> (Some e, s)
      | Inr code \<Rightarrow>
          (case rFindByShortCode repo code s of
             (Inl e, s1) \<Rightarrow> (Some e, s1)
           | (Inr aggregate, s1) \<Rightarrow>
               (case Disable eventID now aggregate of
                  (Some e, _) \<Rightarrow> (Some e, s1)
                | (None, aggregate') \<Rightarrow>
                    (case rSave repo aggregate' s1 of ((res, _), s2) \<Rightarrow> (res, s2)))))"

definition RecordClick_Handle ::
  "'s Outbox \<Rightarrow> uuid \<Rightarrow> uuid \<Rightarrow> time \<Rightarrow> string \<Rightarrow> 's \<Rightarrow> app_error option \<times> 's" where
  "RecordClick_Handle outbox newAggregate eventID now short s =
     (case NewShortCode short of
        Inl e \<Rightarrow> (Some e, s)
      | Inr code \<Rightarrow> oAppend outbox [NewLinkClicked newAggregate eventID now code] s)"

subsection \<open>The queries\<close>

definition Redirect_Handle ::
  "'s ReadModel \<Rightarrow> 's Outbox \<Rightarrow> uuid \<Rightarrow> uuid \<Rightarrow> time \<Rightarrow> string \<Rightarrow> 's
     \<Rightarrow> (app_error + string) \<times> 's" where
  "Redirect_Handle rm outbox newAggregate eventID now short s =
     (case rmLongURL rm short s of
        (Inl e, s1) \<Rightarrow> (Inl e, s1)
      | (Inr longURL, s1) \<Rightarrow>
          (case RecordClick_Handle outbox newAggregate eventID now short s1 of
             (_, s2) \<Rightarrow> (Inr longURL, s2)))"

record StatsResult =
  sr_ShortCode :: string
  sr_Clicks :: int

definition GetStats_Handle ::
  "'s ReadModel \<Rightarrow> string \<Rightarrow> 's \<Rightarrow> (app_error + StatsResult) \<times> 's" where
  "GetStats_Handle rm short s =
     (case rmClicks rm short s of
        (Inl e, s1) \<Rightarrow> (Inl e, s1)
      | (Inr clicks, s1) \<Rightarrow> (Inr \<lparr>sr_ShortCode = short, sr_Clicks = clicks\<rparr>, s1))"

subsection \<open>What a creation does to the store\<close>

definition new_link :: "minted \<Rightarrow> ShortCode \<Rightarrow> URL \<Rightarrow> Link" where
  "new_link mt code u =
     \<lparr>lk_id = LinkID (mt_id mt), lk_shortCode = code, lk_longURL = u, lk_status = StatusActive,
      lk_createdAt = mt_t1 mt, lk_version = 1,
      lk_events = [LinkCreated (newBaseEvent (mt_event mt) (mt_t2 mt) (mt_id mt)) (code_String code)
        (url_String u)]\<rparr>"

lemma NewLink_eq:
  "\<not> code_IsZero code \<Longrightarrow> NewLink (mt_id mt) (mt_event mt) (mt_t1 mt) (mt_t2 mt) code u =
     (if url_IsZero u then Inl ErrInvalidURL else Inr (new_link mt code u))"
  by (simp add: NewLink_def new_link_def record_event_def)

definition creation :: "minted \<Rightarrow> ShortCode \<Rightarrow> URL \<Rightarrow> store \<Rightarrow> store" where
  "creation mt code u st = saved (new_link mt code u) st"

text \<open>
  What earlier attempts can have left behind: an attempt whose \<open>Save\<close> reported an error may have
  been committed all the same. \<open>lost u mts st st'\<close>: of the attempts \<open>mts\<close>, some were.
\<close>

inductive lost :: "URL \<Rightarrow> minted list \<Rightarrow> store \<Rightarrow> store \<Rightarrow> bool" where
  lost_Nil: "lost u [] st st"
| lost_skip: "lost u mts st st' \<Longrightarrow> lost u (mt # mts) st st'"
| lost_commit: "NewShortCode (code_String code) = Inr code \<Longrightarrow> \<not> code_taken (code_String code) st \<Longrightarrow>
    mt_event mt \<notin> log_ids st \<Longrightarrow> lost u mts (creation mt code u st) st' \<Longrightarrow> lost u (mt # mts) st st'"

lemma lost_refl: "lost u mts st st"
  by (induction mts) (auto intro: lost.intros)

lemma creation_links [simp]:
  "st_links (creation mt code u st) = (st_links st)(mt_id mt \<mapsto>
     \<lparr>sl_code = code_String code, sl_url = url_String u, sl_status = StatusActive, sl_version = 1\<rparr>)"
  by (simp add: creation_def new_link_def stored_of_def)

lemma creation_log [simp]:
  "st_log (creation mt code u st) = st_log st @
     [\<lparr>f_id = mt_event mt, f_type = EventTypeLinkCreated, f_code = to_valid (code_String code),
       f_url = to_valid (url_String u)\<rparr>]"
  by (simp add: creation_def new_link_def newBaseEvent_def)

lemma lost_extends:
  assumes "lost u mts st st'" "set (map mt_id mts) \<inter> dom (st_links st) = {}" "distinct (map mt_id mts)"
  shows "(\<forall>i r. st_links st i = Some r \<longrightarrow> st_links st' i = Some r)
    \<and> (\<forall>i r. st_links st' i = Some r \<and> st_links st i = None \<longrightarrow> i \<in> mt_id ` set mts
         \<and> sl_url r = url_String u \<and> sl_status r = StatusActive \<and> sl_version r = 1)
    \<and> (\<exists>fs. st_log st' = st_log st @ fs \<and> length fs \<le> length mts
         \<and> (\<forall>f \<in> set fs. f_type f = EventTypeLinkCreated \<and> f_url f = to_valid (url_String u)))"
  using assms
proof (induction rule: lost.induct)
  case (lost_commit code st mt u mts st')
  let ?st = "creation mt code u st"
  have new: "mt_id mt \<notin> dom (st_links st)" using lost_commit.prems by simp
  have "set (map mt_id mts) \<inter> dom (st_links ?st) = {}" using lost_commit.prems by auto
  note IH = lost_commit.IH [OF this] lost_commit.prems
  from IH have keep: "st_links st' i = Some r" if "st_links ?st i = Some r" for i r
    using that by auto
  have old: "st_links ?st i = Some r" if "st_links st i = Some r" for i r
    using that new by auto
  show ?case
  proof (intro conjI)
    show "\<forall>i r. st_links st i = Some r \<longrightarrow> st_links st' i = Some r" using keep old by blast
    show "\<forall>i r. st_links st' i = Some r \<and> st_links st i = None \<longrightarrow> i \<in> mt_id ` set (mt # mts)
        \<and> sl_url r = url_String u \<and> sl_status r = StatusActive \<and> sl_version r = 1"
    proof (intro allI impI)
      fix i r assume a: "st_links st' i = Some r \<and> st_links st i = None"
      show "i \<in> mt_id ` set (mt # mts) \<and> sl_url r = url_String u \<and> sl_status r = StatusActive
        \<and> sl_version r = 1"
      proof (cases "i = mt_id mt")
        case True
        have "st_links st' i = Some \<lparr>sl_code = code_String code, sl_url = url_String u,
            sl_status = StatusActive, sl_version = 1\<rparr>"
          using True keep by simp
        with a True show ?thesis by simp
      next
        case False
        then have "st_links ?st i = None" using a by simp
        with a IH show ?thesis by auto
      qed
    qed
    from IH obtain fs where "st_log st' = st_log ?st @ fs" "length fs \<le> length mts"
      "\<forall>f \<in> set fs. f_type f = EventTypeLinkCreated \<and> f_url f = to_valid (url_String u)" by auto
    then show "\<exists>fs. st_log st' = st_log st @ fs \<and> length fs \<le> length (mt # mts)
        \<and> (\<forall>f \<in> set fs. f_type f = EventTypeLinkCreated \<and> f_url f = to_valid (url_String u))"
      by (intro exI [of _ "_ # fs"]) auto
  qed
qed (auto intro: exI [of _ "[]"])

subsection \<open>The write side: a repository and a generator of codes\<close>

locale write_side = repository_port repo store
  for repo :: "'s Repository" and store :: "'s \<Rightarrow> store" +
  fixes gen :: "'s \<Rightarrow> (app_error + ShortCode) \<times> 's"
  assumes gen_store: "gen s = (res, s') \<Longrightarrow> store s' = store s"
    and gen_valid: "gen s = (Inr code, s') \<Longrightarrow> NewShortCode (code_String code) = Inr code"
    and gen_err: "gen s = (Inl e, s') \<Longrightarrow> is_infra e"
begin

text \<open>One attempt of the loop, as a case distinction on what it does.\<close>

lemma attempt_cases:
  assumes "create_loop repo gen u (mt # mts) s = (res, s')"
  obtains
    (stop) e where "res = Inl e" "is_infra e \<or> e = ErrInvalidURL \<and> url_IsZero u" "store s' = store s"
  | (retry) s1 where "create_loop repo gen u mts s1 = (res, s')" "store s1 = store s"
  | (lost) s1 code where "create_loop repo gen u mts s1 = (res, s')"
      "NewShortCode (code_String code) = Inr code" "\<not> code_taken (code_String code) (store s)"
      "mt_event mt \<notin> log_ids (store s)" "store s1 = creation mt code u (store s)"
  | (ok) code where "res = Inr \<lparr>clr_ShortCode = code_String code, clr_LongURL = url_String u\<rparr>"
      "NewShortCode (code_String code) = Inr code" "\<not> code_taken (code_String code) (store s)"
      "mt_event mt \<notin> log_ids (store s)" "store s' = creation mt code u (store s)"
proof -
  obtain g s1 where g: "gen s = (g, s1)" by (cases "gen s")
  have s1: "store s1 = store s" using gen_store [OF g] .
  show thesis
  proof (cases g)
    case (Inl e)
    with g assms have "res = Inl e" "s' = s1" by simp_all
    with g Inl s1 gen_err show thesis by (intro stop) auto
  next
    case (Inr code)
    have valid: "NewShortCode (code_String code) = Inr code" using gen_valid g Inr by auto
    obtain x s2 where x: "rExistsByShortCode repo code s1 = (x, s2)" by (cases "rExistsByShortCode repo code s1")
    have s2: "store s2 = store s" using Exists_store [OF x] s1 by simp
    show thesis
    proof (cases x)
      case (Inl e)
      with g \<open>g = Inr code\<close> x assms have "res = Inl e" "s' = s2" by simp_all
      with x Inl s2 Exists_err show thesis by (intro stop) auto
    next
      case b: (Inr b)
      have taken: "b = code_taken (code_String code) (store s)"
        using Exists_ok [of code s1 b s2] x b s1 by simp
      show thesis
      proof (cases b)
        case True
        with g Inr x b assms have "create_loop repo gen u mts s2 = (res, s')" by simp
        then show thesis using s2 by (rule retry)
      next
        case False
        then have free: "\<not> code_taken (code_String code) (store s)" using taken by simp
        have nz: "\<not> code_IsZero code" using NewShortCode_not_zero valid by simp
        show thesis
        proof (cases "url_IsZero u")
          case True
          with g Inr x b False nz assms have "res = Inl ErrInvalidURL" "s' = s2"
            by (simp_all add: NewLink_eq)
          with True s2 show thesis by (intro stop) auto
        next
          case nz_url: False
          obtain r l' s3 where sv: "rSave repo (new_link mt code u) s2 = ((r, l'), s3)"
            by (cases "rSave repo (new_link mt code u) s2") auto
          have fresh: "mt_event mt \<notin> log_ids (store s)"
            if "ids_fresh (lk_events (new_link mt code u)) (store s2)"
            using that s2 by (auto simp: ids_fresh_def new_link_def EventID_def newBaseEvent_def)
          show thesis
          proof (cases r)
            case None
            with g Inr x b False nz nz_url sv assms have
              "res = Inr \<lparr>clr_ShortCode = code_String code, clr_LongURL = url_String u\<rparr>" "s' = s3"
              by (simp_all add: NewLink_eq)
            moreover have "ids_fresh (lk_events (new_link mt code u)) (store s2)
                \<and> store s3 = saved (new_link mt code u) (store s2)"
              using Save_ok [of "new_link mt code u" s2 l' s3] sv None by simp
            ultimately show thesis
              using ok [OF _ valid free] fresh s2 by (simp add: creation_def)
          next
            case (Some e)
            then have rec: "create_loop repo gen u mts s3 = (res, s')"
              using g Inr x b False nz nz_url sv assms by (simp add: NewLink_eq)
            have out: "store s3 = store s2 \<or>
                ids_fresh (lk_events (new_link mt code u)) (store s2) \<and> store s3 = saved (new_link mt code u) (store s2)"
              using Save_err sv Some by blast
            then show thesis
            proof
              assume "store s3 = store s2"
              with s2 have "store s3 = store s" by simp
              with rec show thesis by (rule retry)
            next
              assume "ids_fresh (lk_events (new_link mt code u)) (store s2) \<and> store s3 = saved (new_link mt code u) (store s2)"
              with s2 fresh have "store s3 = creation mt code u (store s)" "mt_event mt \<notin> log_ids (store s)"
                by (simp_all add: creation_def)
              then show thesis using lost [OF rec valid free] by blast
            qed
          qed
        qed
      qed
    qed
  qed
qed

lemma create_loop_spec:
  "create_loop repo gen u mts s = (res, s') \<Longrightarrow>
     (case res of
        Inl e \<Rightarrow> lost u mts (store s) (store s')
          \<and> (is_infra e \<or> e = ErrShortCodeExhausted \<or> e = ErrInvalidURL \<and> url_IsZero u)
      | Inr r \<Rightarrow> \<exists>pre mt post st code. mts = pre @ mt # post \<and> lost u pre (store s) st
          \<and> NewShortCode (code_String code) = Inr code \<and> \<not> code_taken (code_String code) st
          \<and> mt_event mt \<notin> log_ids st \<and> store s' = creation mt code u st
          \<and> r = \<lparr>clr_ShortCode = code_String code, clr_LongURL = url_String u\<rparr>)"
proof (induction mts arbitrary: s)
  case Nil
  then show ?case by (auto intro: lost_Nil)
next
  case (Cons mt mts)
  from Cons.prems show ?case
  proof (cases rule: attempt_cases)
    case (stop e)
    then show ?thesis by (auto intro: lost_refl)
  next
    case (retry s1)
    from Cons.IH [OF retry(1)] show ?thesis
      by (cases res) (auto simp: retry(2) intro: lost_skip, metis lost_skip append_Cons)
  next
    case (lost s1 code)
    note c = lost_commit [OF lost(2,3,4)]
    from Cons.IH [OF lost(1)] show ?thesis
      by (cases res) (auto simp: lost(5) intro: c, metis c append_Cons)
  next
    case (ok code)
    then show ?thesis
      by (intro exI [of _ "[]"] exI [of _ mt] exI [of _ mts] exI [of _ "store s"] exI [of _ code] |
          simp add: lost_Nil)+
  qed
qed

end

subsection \<open>What disabling and clicking do to the store\<close>

definition disabled_fact :: "uuid \<Rightarrow> string \<Rightarrow> fact" where
  "disabled_fact i c = \<lparr>f_id = i, f_type = EventTypeLinkDisabled, f_code = to_valid c, f_url = []\<rparr>"

definition clicked_fact :: "uuid \<Rightarrow> string \<Rightarrow> fact" where
  "clicked_fact i c = \<lparr>f_id = i, f_type = EventTypeLinkClicked, f_code = to_valid c, f_url = []\<rparr>"

text \<open>The URL is written back as it was read: parsed and normalized again.\<close>

definition disabling :: "uuid \<Rightarrow> uuid \<Rightarrow> stored \<Rightarrow> URL \<Rightarrow> store \<Rightarrow> store" where
  "disabling eventID i r u st = st
     \<lparr>st_links := (st_links st)(i \<mapsto> r\<lparr>sl_url := url_String u, sl_status := StatusDisabled,
        sl_version := sl_version r + 1\<rparr>),
      st_log := st_log st @ [disabled_fact eventID (sl_code r)]\<rparr>"

definition clicking :: "uuid \<Rightarrow> string \<Rightarrow> store \<Rightarrow> store" where
  "clicking eventID c st = st\<lparr>st_log := st_log st @ [clicked_fact eventID c]\<rparr>"

lemma disabling_sel [simp]:
  "st_links (disabling e i r u st) = (st_links st)(i \<mapsto> r\<lparr>sl_url := url_String u,
     sl_status := StatusDisabled, sl_version := sl_version r + 1\<rparr>)"
  "st_log (disabling e i r u st) = st_log st @ [disabled_fact e (sl_code r)]"
  by (simp_all add: disabling_def)

lemma clicking_sel [simp]:
  "st_links (clicking e c st) = st_links st" "st_log (clicking e c st) = st_log st @ [clicked_fact e c]"
  by (simp_all add: clicking_def)

text \<open>The aggregate of a row, disabled and saved.\<close>

lemma saved_disabled:
  assumes "lk_shortCode l = c" "lk_events l = []" "sl_code r = code_String c" "sl_status r = lk_status l"
    "sl_version r = lk_version l" "Disable eventID now l = (None, l')"
  shows "saved l' st = disabling eventID (UUID (lk_id l)) r (lk_longURL l) st"
    "\<not> IsDisabled (sl_status r)" "map EventID (lk_events l') = [eventID]"
  using assms
  by (cases r; cases st; auto simp: Disable_def record_event_def saved_def appended_def disabling_def
      stored_of_def disabled_fact_def newBaseEvent_def EventID_def split: if_splits)+

context repository_port
begin

lemma DisableLink_spec:
  assumes "DisableLink_Handle repo eventID now short s = (res, s')"
  shows "(case res of
      None \<Rightarrow> \<exists>i r u. st_links (store s) i = Some r \<and> sl_code r = short \<and> \<not> IsDisabled (sl_status r)
        \<and> NewURL (sl_url r) = Inr u \<and> eventID \<notin> log_ids (store s)
        \<and> store s' = disabling eventID i r u (store s)
    | Some e \<Rightarrow>
        (store s' = store s \<and>
           (e = ErrLinkAlreadyDisabled \<and>
              (\<exists>i r. st_links (store s) i = Some r \<and> sl_code r = short \<and> IsDisabled (sl_status r))
            \<or> e = ErrLinkNotFound \<and> \<not> code_taken short (store s)
            \<or> e = ErrInvalidShortCode \<or> e = ErrInvalidURL \<or> is_infra e))
        \<or> is_infra e \<and> (\<exists>i r u. st_links (store s) i = Some r \<and> sl_code r = short
            \<and> \<not> IsDisabled (sl_status r) \<and> NewURL (sl_url r) = Inr u
            \<and> eventID \<notin> log_ids (store s) \<and> store s' = disabling eventID i r u (store s)))"
proof (cases "NewShortCode short")
  case (Inl e)
  then have "e = ErrInvalidShortCode" by (auto simp: NewShortCode_def split: if_splits)
  with Inl assms show ?thesis by (auto simp: DisableLink_Handle_def)
next
  case (Inr code)
  then have code: "code_String code = short" by (auto simp: NewShortCode_Inr)
  obtain f s1 where f: "rFindByShortCode repo code s = (f, s1)" by (cases "rFindByShortCode repo code s")
  have s1: "store s1 = store s" using Find_store [OF f] .
  show ?thesis
  proof (cases f)
    case (Inl e)
    then have "res = Some e" "s' = s1" using assms f Inr by (simp_all add: DisableLink_Handle_def)
    then show ?thesis
      using Find_err [OF f [unfolded Inl]] Find_missing [of code s s1] f Inl s1 code by auto
  next
    case l: (Inr l)
    obtain r where r: "st_links (store s) (UUID (lk_id l)) = Some r" "sl_code r = code_String code"
      "sl_status r = lk_status l" "sl_version r = lk_version l"
      "NewURL (sl_url r) = Inr (lk_longURL l)" "lk_shortCode l = code" "lk_events l = []"
      using Find_ok [OF f [unfolded l]] by auto
    obtain d l' where d: "Disable eventID now l = (d, l')" by (cases "Disable eventID now l")
    show ?thesis
    proof (cases d)
      case (Some e)
      then have "e = ErrLinkAlreadyDisabled" "IsDisabled (sl_status r)"
        using d r(3) by (auto simp: Disable_def split: if_splits)
      moreover have "res = Some e" "s' = s1"
        using assms f Inr l d Some by (simp_all add: DisableLink_Handle_def)
      ultimately show ?thesis using s1 r(1,2) code by auto
    next
      case None
      note sd = saved_disabled [OF r(6,7,2,3,4) d [unfolded None]]
      obtain x l2 s2 where sv: "rSave repo l' s1 = ((x, l2), s2)" by (cases "rSave repo l' s1") auto
      have res: "res = x" "s' = s2"
        using assms f Inr l d None sv by (simp_all add: DisableLink_Handle_def)
      have fresh: "eventID \<notin> log_ids (store s)" if "ids_fresh (lk_events l') (store s1)"
        using that sd(3) s1 by (simp add: ids_fresh_def)
      have applied: "\<exists>i r u. st_links (store s) i = Some r \<and> sl_code r = short
          \<and> \<not> IsDisabled (sl_status r) \<and> NewURL (sl_url r) = Inr u
          \<and> eventID \<notin> log_ids (store s) \<and> store s' = disabling eventID i r u (store s)"
        if "ids_fresh (lk_events l') (store s1)" "store s2 = saved l' (store s1)"
        using that fresh r code sd(1,2) s1 res(2) by metis
      show ?thesis
      proof (cases x)
        case None
        with Save_ok [of l' s1 l2 s2] sv applied res show ?thesis by simp
      next
        case (Some e)
        with Save_err [of l' s1 e l2 s2] sv applied res s1 show ?thesis by auto
      qed
    qed
  qed
qed

end

context outbox_port
begin

lemma RecordClick_spec:
  assumes "RecordClick_Handle outbox agg eventID now short s = (res, s')"
  shows "(case res of
      None \<Rightarrow> eventID \<notin> log_ids (store s) \<and> store s' = clicking eventID short (store s)
    | Some e \<Rightarrow> e = ErrInvalidShortCode \<and> NewShortCode short = Inl e \<and> store s' = store s
        \<or> is_infra e \<and> (store s' = store s \<or>
            eventID \<notin> log_ids (store s) \<and> store s' = clicking eventID short (store s)))"
proof (cases "NewShortCode short")
  case (Inl e)
  then have "e = ErrInvalidShortCode" by (auto simp: NewShortCode_def split: if_splits)
  with Inl assms show ?thesis by (auto simp: RecordClick_Handle_def)
next
  case (Inr code)
  let ?e = "NewLinkClicked agg eventID now code"
  from Inr assms have ap: "oAppend outbox [?e] s = (res, s')" by (simp add: RecordClick_Handle_def)
  have eq: "appended [?e] st = clicking eventID short st" "ids_fresh [?e] st \<longleftrightarrow> eventID \<notin> log_ids st" for st
    using Inr by (auto simp: NewShortCode_Inr appended_def clicking_def clicked_fact_def NewLinkClicked_def
        newBaseEvent_def ids_fresh_def EventID_def)
  show ?thesis
    using Append_ok [of "[?e]" s s'] Append_err [of "[?e]" s _ s'] ap by (cases res) (auto simp: eq)
qed

end

subsection \<open>The read side of the API\<close>

text \<open>
  A redirect reads one store and writes another. \<open>query_side\<close> adds to the two ports that neither
  touches what the other observes.
\<close>

locale query_side = read_model_port rm view + outbox_port outbox store
  for rm :: "'s ReadModel" and view :: "'s \<Rightarrow> view" and outbox :: "'s Outbox" and store :: "'s \<Rightarrow> store" +
  assumes LongURL_store: "rmLongURL rm c s = (res, s') \<Longrightarrow> store s' = store s"
    and Append_view: "oAppend outbox es s = (err, s') \<Longrightarrow> view s' = view s"
begin

lemma RecordClick_view:
  "RecordClick_Handle outbox agg eventID now short s = (res, s') \<Longrightarrow> view s' = view s"
  by (auto simp: RecordClick_Handle_def Append_view split: sum.splits)

lemma Redirect_spec:
  assumes "Redirect_Handle rm outbox agg eventID now short s = (res, s')"
  shows "view s' = view s \<and>
    (case res of
       Inr u \<Rightarrow> v_links (view s) short = Some u
         \<and> (store s' = store s \<or> eventID \<notin> log_ids (store s) \<and> store s' = clicking eventID short (store s))
     | Inl e \<Rightarrow> store s' = store s \<and> (e = ErrLinkNotFound \<and> v_links (view s) short = None \<or> is_infra e))"
proof -
  obtain f s1 where f: "rmLongURL rm short s = (f, s1)" by (cases "rmLongURL rm short s")
  have s1: "store s1 = store s" "view s1 = view s" using LongURL_store [OF f] LongURL_view [OF f] .
  show ?thesis
  proof (cases f)
    case (Inl e)
    with assms f s1 LongURL_err [OF f [unfolded Inl]] show ?thesis by (auto simp: Redirect_Handle_def)
  next
    case (Inr u)
    obtain c s2 where c: "RecordClick_Handle outbox agg eventID now short s1 = (c, s2)"
      by (cases "RecordClick_Handle outbox agg eventID now short s1")
    with assms f Inr have "res = Inr u" "s' = s2" by (simp_all add: Redirect_Handle_def)
    moreover have "store s2 = store s \<or> eventID \<notin> log_ids (store s) \<and> store s2 = clicking eventID short (store s)"
      using RecordClick_spec [OF c] s1 by (cases c) auto
    ultimately show ?thesis using LongURL_ok f Inr RecordClick_view [OF c] s1 by auto
  qed
qed

end

end
