(* ===== verification/Short_Postgres.thy ===== *)
theory Short_Postgres
  imports Short_Commands
begin

text \<open>
  url-shortener, \<open>internal/infrastructure/persistence/postgres\<close>: the adapters of the write side. GORM
  and PostgreSQL are a parameter, the record \<open>gorm\<close> of the statements the adapters issue; the
  locale \<open>postgres\<close> states what they rely on, through an observer that reads the four tables.

  Statements of one transaction are one step of the model: a transaction is all of its statements
  or none, as the database promises, and the interleaving of requests is the order of their
  transactions. \<open>stamp\<close> is what a timestamp column keeps of an instant.
\<close>

subsection \<open>The tables\<close>

record linkModel =
  lm_ID :: uuid
  lm_ShortCode :: string
  lm_LongURL :: string
  lm_Status :: string
  lm_Version :: int
  lm_CreatedAt :: time

record analyticsModel =
  am_ShortCode :: string
  am_ClickCount :: int
  am_LastClickedAt :: "time option"

record processedEventModel =
  pm_EventID :: uuid
  pm_ProcessedAt :: time

record tables =
  t_links :: "uuid \<rightharpoonup> linkModel"
  t_outbox :: "outboxModel list"
  t_analytics :: "string \<rightharpoonup> analyticsModel"
  t_processed :: "uuid \<rightharpoonup> time"

subsection \<open>The statements\<close>

text \<open>
  A statement returns the driver's error, or its result; a lookup that finds nothing
  (\<open>gorm.ErrRecordNotFound\<close>) is \<open>Inr None\<close>. The closure of a transaction returns an error, or the
  value it leaves in the variable it captures (0 where it captures none).
\<close>

record 's gorm =
  gTransaction :: "('s \<Rightarrow> (app_error + int) \<times> 's) \<Rightarrow> 's \<Rightarrow> (app_error + int) \<times> 's"
  gSaveLink :: "linkModel \<Rightarrow> 's \<Rightarrow> string option \<times> 's"
  gFirstLink :: "string \<Rightarrow> 's \<Rightarrow> (string + linkModel option) \<times> 's"
  gCountLinks :: "string \<Rightarrow> 's \<Rightarrow> (string + int) \<times> 's"
  gFindLinks :: "'s \<Rightarrow> (string + linkModel list) \<times> 's"
  gCreateOutbox :: "outboxModel \<Rightarrow> 's \<Rightarrow> string option \<times> 's"
  gFindUnpublished :: "int \<Rightarrow> 's \<Rightarrow> (string + outboxModel list) \<times> 's"
  gUpdatePublished :: "int list \<Rightarrow> time \<Rightarrow> 's \<Rightarrow> string option \<times> 's"
  gCreateProcessed :: "processedEventModel \<Rightarrow> 's \<Rightarrow> (string + int) \<times> 's"
  gUpsertAnalytics :: "analyticsModel \<Rightarrow> time \<Rightarrow> 's \<Rightarrow> string option \<times> 's"
  gFirstAnalytics :: "string \<Rightarrow> 's \<Rightarrow> (string + analyticsModel option) \<times> 's"
  gFindAnalytics :: "'s \<Rightarrow> (string + analyticsModel list) \<times> 's"

subsection \<open>The link repository\<close>

fun create_rows :: "'s gorm \<Rightarrow> DomainEvent list \<Rightarrow> 's \<Rightarrow> (app_error + int) \<times> 's" where
  "create_rows pg [] tx = (Inr 0, tx)"
| "create_rows pg (e # es) tx =
     (case gCreateOutbox pg (toOutboxRow e) tx of
        (Some err, tx1) \<Rightarrow> (Inl (ErrInfra err), tx1)
      | (None, tx1) \<Rightarrow> create_rows pg es tx1)"

definition model_of :: "Link \<Rightarrow> linkModel" where
  "model_of l =
     \<lparr>lm_ID = UUID (lk_id l), lm_ShortCode = code_String (lk_shortCode l),
      lm_LongURL = url_String (lk_longURL l), lm_Status = lk_status l, lm_Version = lk_version l,
      lm_CreatedAt = lk_createdAt l\<rparr>"

text \<open>The closure \<open>Save\<close> hands to the transaction.\<close>

definition save_tx :: "'s gorm \<Rightarrow> linkModel \<Rightarrow> DomainEvent list \<Rightarrow> 's \<Rightarrow> (app_error + int) \<times> 's" where
  "save_tx pg model events tx =
     (case gSaveLink pg model tx of
        (Some err, tx1) \<Rightarrow> (Inl (ErrInfra err), tx1)
      | (None, tx1) \<Rightarrow> create_rows pg events tx1)"

definition LinkRepository_Save ::
  "'s gorm \<Rightarrow> Link \<Rightarrow> 's \<Rightarrow> (app_error option \<times> Link) \<times> 's" where
  "LinkRepository_Save pg l s =
     (let model = model_of l; (events, l') = PullEvents l in
      case gTransaction pg (\<lambda>tx. save_tx pg model events tx) s of
        (Inl e, s') \<Rightarrow> ((Some e, l'), s')
      | (Inr _, s') \<Rightarrow> ((None, l'), s'))"

definition toAggregate :: "linkModel \<Rightarrow> app_error + Link" where
  "toAggregate m =
     (case NewShortCode (lm_ShortCode m) of
        Inl e \<Rightarrow> Inl e
      | Inr code \<Rightarrow>
          (case NewURL (lm_LongURL m) of
             Inl e \<Rightarrow> Inl e
           | Inr longURL \<Rightarrow> Inr (Reconstitute (LinkIDFromUUID (lm_ID m)) code longURL (lm_Status m)
               (lm_CreatedAt m) (lm_Version m))))"

definition LinkRepository_FindByShortCode ::
  "'s gorm \<Rightarrow> ShortCode \<Rightarrow> 's \<Rightarrow> (app_error + Link) \<times> 's" where
  "LinkRepository_FindByShortCode pg code s =
     (case gFirstLink pg (code_String code) s of
        (Inl err, s') \<Rightarrow> (Inl (ErrInfra err), s')
      | (Inr None, s') \<Rightarrow> (Inl ErrLinkNotFound, s')
      | (Inr (Some m), s') \<Rightarrow> (toAggregate m, s'))"

definition LinkRepository_ExistsByShortCode ::
  "'s gorm \<Rightarrow> ShortCode \<Rightarrow> 's \<Rightarrow> (app_error + bool) \<times> 's" where
  "LinkRepository_ExistsByShortCode pg code s =
     (case gCountLinks pg (code_String code) s of
        (Inl err, s') \<Rightarrow> (Inl (ErrInfra err), s')
      | (Inr count, s') \<Rightarrow> (Inr (count > 0), s'))"

definition LinkRepository_ListAll :: "'s gorm \<Rightarrow> 's \<Rightarrow> (app_error + LinkSnapshot list) \<times> 's" where
  "LinkRepository_ListAll pg s =
     (case gFindLinks pg s of
        (Inl err, s') \<Rightarrow> (Inl (ErrInfra err), s')
      | (Inr models, s') \<Rightarrow>
          (Inr (map (\<lambda>m. \<lparr>sn_ShortCode = lm_ShortCode m, sn_LongURL = lm_LongURL m,
             sn_Disabled = IsDisabled (lm_Status m)\<rparr>) models), s'))"

definition LinkRepository :: "'s gorm \<Rightarrow> 's Repository" where
  "LinkRepository pg =
     \<lparr>rSave = LinkRepository_Save pg,
      rFindByShortCode = LinkRepository_FindByShortCode pg,
      rExistsByShortCode = LinkRepository_ExistsByShortCode pg\<rparr>"

definition LinkRepository_Reader :: "'s gorm \<Rightarrow> 's LinkReader" where
  "LinkRepository_Reader pg = \<lparr>lListAll = LinkRepository_ListAll pg\<rparr>"

subsection \<open>The outbox store\<close>

definition OutboxStore_Append :: "'s gorm \<Rightarrow> DomainEvent list \<Rightarrow> 's \<Rightarrow> app_error option \<times> 's" where
  "OutboxStore_Append pg events s =
     (if events = [] then (None, s)
      else case gTransaction pg (\<lambda>tx. create_rows pg events tx) s of
        (Inl e, s') \<Rightarrow> (Some e, s')
      | (Inr _, s') \<Rightarrow> (None, s'))"

definition record_of :: "(uuid \<Rightarrow> string) \<Rightarrow> outboxModel \<Rightarrow> OutboxRecord" where
  "record_of uuid_String r =
     \<lparr>rec_Seq = om_Seq r, rec_EventID = uuid_String (om_ID r),
      rec_AggregateID = uuid_String (om_AggregateID r), rec_EventType = om_EventType r,
      rec_Payload = om_Payload r, rec_OccurredAt = om_OccurredAt r\<rparr>"

definition OutboxStore_FetchUnpublished ::
  "'s gorm \<Rightarrow> (uuid \<Rightarrow> string) \<Rightarrow> int \<Rightarrow> 's \<Rightarrow> (app_error + OutboxRecord list) \<times> 's" where
  "OutboxStore_FetchUnpublished pg uuid_String limit s =
     (case gFindUnpublished pg limit s of
        (Inl err, s') \<Rightarrow> (Inl (ErrInfra err), s')
      | (Inr rows, s') \<Rightarrow> (Inr (map (record_of uuid_String) rows), s'))"

definition OutboxStore_MarkPublished ::
  "'s gorm \<Rightarrow> time \<Rightarrow> int list \<Rightarrow> 's \<Rightarrow> app_error option \<times> 's" where
  "OutboxStore_MarkPublished pg now seqs s =
     (if seqs = [] then (None, s)
      else case gUpdatePublished pg seqs now s of
        (Some err, s') \<Rightarrow> (Some (ErrInfra err), s')
      | (None, s') \<Rightarrow> (None, s'))"

definition OutboxStore :: "'s gorm \<Rightarrow> 's Outbox" where
  "OutboxStore pg = \<lparr>oAppend = OutboxStore_Append pg\<rparr>"

definition OutboxStore_Source :: "'s gorm \<Rightarrow> (uuid \<Rightarrow> string) \<Rightarrow> 's Source" where
  "OutboxStore_Source pg uuid_String =
     \<lparr>sFetchUnpublished = OutboxStore_FetchUnpublished pg uuid_String,
      sMarkPublished = OutboxStore_MarkPublished pg\<rparr>"

subsection \<open>The analytics store\<close>

definition record_click_tx ::
  "'s gorm \<Rightarrow> uuid \<Rightarrow> string \<Rightarrow> time \<Rightarrow> 's \<Rightarrow> (app_error + int) \<times> 's" where
  "record_click_tx pg eventID shortCode at tx =
     (case gCreateProcessed pg \<lparr>pm_EventID = eventID, pm_ProcessedAt = at\<rparr> tx of
        (Inl err, tx1) \<Rightarrow> (Inl (ErrInfra err), tx1)
      | (Inr rowsAffected, tx1) \<Rightarrow>
          (case (if rowsAffected > 0
                 then gUpsertAnalytics pg
                   \<lparr>am_ShortCode = shortCode, am_ClickCount = 1, am_LastClickedAt = Some at\<rparr> at tx1
                 else (None, tx1)) of
             (Some err, tx2) \<Rightarrow> (Inl (ErrInfra err), tx2)
           | (None, tx2) \<Rightarrow>
               (case gFirstAnalytics pg shortCode tx2 of
                  (Inl err, tx3) \<Rightarrow> (Inl (ErrInfra err), tx3)
                | (Inr None, tx3) \<Rightarrow> (Inr 0, tx3)
                | (Inr (Some m), tx3) \<Rightarrow> (Inr (am_ClickCount m), tx3))))"

definition AnalyticsStore_RecordClick ::
  "'s gorm \<Rightarrow> uuid \<Rightarrow> string \<Rightarrow> time \<Rightarrow> 's \<Rightarrow> (app_error + int) \<times> 's" where
  "AnalyticsStore_RecordClick pg eventID shortCode at s =
     gTransaction pg (\<lambda>tx. record_click_tx pg eventID shortCode at tx) s"

definition AnalyticsStore_ListAll :: "'s gorm \<Rightarrow> 's \<Rightarrow> (app_error + (string \<times> int) list) \<times> 's" where
  "AnalyticsStore_ListAll pg s =
     (case gFindAnalytics pg s of
        (Inl err, s') \<Rightarrow> (Inl (ErrInfra err), s')
      | (Inr models, s') \<Rightarrow> (Inr (map (\<lambda>m. (am_ShortCode m, am_ClickCount m)) models), s'))"

definition Postgres_AnalyticsStore :: "'s gorm \<Rightarrow> 's AnalyticsStore" where
  "Postgres_AnalyticsStore pg =
     \<lparr>aRecordClick = AnalyticsStore_RecordClick pg, aListAll = AnalyticsStore_ListAll pg\<rparr>"

lemma adapter_sel [simp]:
  "rSave (LinkRepository pg) = LinkRepository_Save pg"
  "rFindByShortCode (LinkRepository pg) = LinkRepository_FindByShortCode pg"
  "rExistsByShortCode (LinkRepository pg) = LinkRepository_ExistsByShortCode pg"
  "lListAll (LinkRepository_Reader pg) = LinkRepository_ListAll pg"
  "oAppend (OutboxStore pg) = OutboxStore_Append pg"
  "sFetchUnpublished (OutboxStore_Source pg us) = OutboxStore_FetchUnpublished pg us"
  "sMarkPublished (OutboxStore_Source pg us) = OutboxStore_MarkPublished pg"
  "aRecordClick (Postgres_AnalyticsStore pg) = AnalyticsStore_RecordClick pg"
  "aListAll (Postgres_AnalyticsStore pg) = AnalyticsStore_ListAll pg"
  by (simp_all add: LinkRepository_def LinkRepository_Reader_def OutboxStore_def OutboxStore_Source_def
      Postgres_AnalyticsStore_def)

subsection \<open>What the tables say\<close>

definition stored_of_row :: "linkModel \<Rightarrow> stored" where
  "stored_of_row m =
     \<lparr>sl_code = lm_ShortCode m, sl_url = lm_LongURL m, sl_status = lm_Status m, sl_version = lm_Version m\<rparr>"

definition store_of :: "tables \<Rightarrow> store" where
  "store_of t =
     \<lparr>st_links = (\<lambda>i. map_option stored_of_row (t_links t i)),
      st_log = List.map_filter row_fact (t_outbox t)\<rparr>"

definition counters_of :: "tables \<Rightarrow> analytics" where
  "counters_of t =
     \<lparr>an_seen = dom (t_processed t), an_count = (\<lambda>c. map_option am_ClickCount (t_analytics t c))\<rparr>"

lemma row_fact_id: "row_fact r = Some f \<Longrightarrow> f_id f = om_ID r"
  by (auto simp: row_fact_def fact_of_payload_def)

lemma log_ids_store_of: "log_ids (store_of t) \<subseteq> om_ID ` set (t_outbox t)"
  by (auto simp: log_ids_def store_of_def map_filter_def dest: row_fact_id) (metis image_eqI row_fact_id)

lemma stored_of_model [simp]: "stored_of_row (model_of l) = stored_of l"
  "stored_of_row (m\<lparr>lm_CreatedAt := t\<rparr>) = stored_of_row m"
  by (simp_all add: stored_of_row_def model_of_def stored_of_def)

lemma code_taken_store_of:
  "code_taken c (store_of t) \<longleftrightarrow> (\<exists>i r. t_links t i = Some r \<and> lm_ShortCode r = c)"
  by (force simp: code_taken_def store_of_def stored_of_row_def)

lemma map_filter_append: "List.map_filter f (xs @ ys) = List.map_filter f xs @ List.map_filter f ys"
  by (simp add: map_filter_def)

end
