(* ===== verification/Short_Transactions.thy ===== *)
theory Short_Transactions
  imports Short_Postgres
begin

text \<open>
  url-shortener: the contract of the database (locale \<open>postgres\<close>) and the proofs that the adapters
  built on it implement the ports of the application (the sublocales).
\<close>

subsection \<open>The statements on the tables\<close>

definition tab_save_link :: "(time \<Rightarrow> time) \<Rightarrow> linkModel \<Rightarrow> tables \<Rightarrow> tables" where
  "tab_save_link stamp m t =
     t\<lparr>t_links := (t_links t)(lm_ID m \<mapsto> m\<lparr>lm_CreatedAt := stamp (lm_CreatedAt m)\<rparr>)\<rparr>"

definition tab_create_outbox :: "(time \<Rightarrow> time) \<Rightarrow> int \<Rightarrow> outboxModel \<Rightarrow> tables \<Rightarrow> tables" where
  "tab_create_outbox stamp seq r t =
     t\<lparr>t_outbox := t_outbox t @ [r\<lparr>om_Seq := seq, om_OccurredAt := stamp (om_OccurredAt r)\<rparr>]\<rparr>"

definition is_unpublished :: "outboxModel \<Rightarrow> bool" where
  "is_unpublished r \<longleftrightarrow> om_PublishedAt r = None"

definition publish_row :: "(time \<Rightarrow> time) \<Rightarrow> time \<Rightarrow> int list \<Rightarrow> outboxModel \<Rightarrow> outboxModel" where
  "publish_row stamp now seqs r =
     (if om_Seq r \<in> set seqs then r\<lparr>om_PublishedAt := Some (stamp now)\<rparr> else r)"

definition tab_publish :: "(time \<Rightarrow> time) \<Rightarrow> time \<Rightarrow> int list \<Rightarrow> tables \<Rightarrow> tables" where
  "tab_publish stamp now seqs t = t\<lparr>t_outbox := map (publish_row stamp now seqs) (t_outbox t)\<rparr>"

definition tab_create_processed :: "(time \<Rightarrow> time) \<Rightarrow> processedEventModel \<Rightarrow> tables \<Rightarrow> int \<times> tables" where
  "tab_create_processed stamp m t =
     (case t_processed t (pm_EventID m) of
        Some _ \<Rightarrow> (0, t)
      | None \<Rightarrow> (1, t\<lparr>t_processed := (t_processed t)(pm_EventID m \<mapsto> stamp (pm_ProcessedAt m))\<rparr>))"

text \<open>Insert the row, or add one to the counter that is there.\<close>

definition tab_upsert_analytics :: "(time \<Rightarrow> time) \<Rightarrow> analyticsModel \<Rightarrow> time \<Rightarrow> tables \<Rightarrow> tables" where
  "tab_upsert_analytics stamp m at t =
     t\<lparr>t_analytics := (t_analytics t)(am_ShortCode m \<mapsto>
       (case t_analytics t (am_ShortCode m) of
          None \<Rightarrow> m\<lparr>am_LastClickedAt := map_option stamp (am_LastClickedAt m)\<rparr>
        | Some r \<Rightarrow> r\<lparr>am_ClickCount := am_ClickCount r + 1, am_LastClickedAt := Some (stamp at)\<rparr>))\<rparr>"

text \<open>
  The outcome of a transaction. It may fail to begin. If its closure returns an error it is rolled
  back. Otherwise it commits, or the commit reports an error, after which it may be committed
  or not.
\<close>

definition transaction_outcome ::
  "('s \<Rightarrow> tables) \<Rightarrow> ('s \<Rightarrow> (app_error + int) \<times> 's) \<Rightarrow> 's \<Rightarrow> (app_error + int) \<Rightarrow> 's \<Rightarrow> bool" where
  "transaction_outcome tables body s res s' \<longleftrightarrow>
     (\<exists>e. res = Inl e \<and> is_infra e \<and> tables s' = tables s)
   \<or> (\<exists>s0 s1 e. tables s0 = tables s \<and> body s0 = (Inl e, s1) \<and> res = Inl e \<and> tables s' = tables s)
   \<or> (\<exists>s0 s1 n. tables s0 = tables s \<and> body s0 = (Inr n, s1) \<and> tables s' = tables s1
        \<and> (res = Inr n \<or> (\<exists>e. res = Inl e \<and> is_infra e)))"

locale postgres =
  fixes pg :: "'s gorm"
    and tables :: "'s \<Rightarrow> tables"
    and stamp :: "time \<Rightarrow> time"
  assumes Transaction: "gTransaction pg body s = (res, s') \<Longrightarrow> transaction_outcome tables body s res s'"
    and SaveLink: "gSaveLink pg m s = (None, s') \<Longrightarrow>
      (\<forall>i r. t_links (tables s) i = Some r \<and> lm_ShortCode r = lm_ShortCode m \<longrightarrow> i = lm_ID m)
      \<and> tables s' = tab_save_link stamp m (tables s)"
    and FirstLink: "gFirstLink pg c s = (first, s') \<Longrightarrow> tables s' = tables s \<and>
      (case first of Inl e \<Rightarrow> True
       | Inr None \<Rightarrow> \<not> (\<exists>i r. t_links (tables s) i = Some r \<and> lm_ShortCode r = c)
       | Inr (Some m) \<Rightarrow> t_links (tables s) (lm_ID m) = Some m \<and> lm_ShortCode m = c)"
    and CountLinks: "gCountLinks pg c s = (count, s') \<Longrightarrow> tables s' = tables s \<and>
      (case count of Inl e \<Rightarrow> True
       | Inr n \<Rightarrow> 0 < n \<longleftrightarrow> (\<exists>i r. t_links (tables s) i = Some r \<and> lm_ShortCode r = c))"
    and FindLinks: "gFindLinks pg s = (links, s') \<Longrightarrow> tables s' = tables s \<and>
      (case links of Inl e \<Rightarrow> True | Inr ms \<Rightarrow> set ms = ran (t_links (tables s)))"
    and CreateOutbox: "gCreateOutbox pg r s = (None, s') \<Longrightarrow>
      \<exists>seq. (\<forall>q \<in> set (t_outbox (tables s)). om_Seq q < seq \<and> om_ID q \<noteq> om_ID r)
        \<and> tables s' = tab_create_outbox stamp seq r (tables s)"
    and FindUnpublished: "gFindUnpublished pg limit s = (rows, s') \<Longrightarrow> tables s' = tables s \<and>
      (case rows of Inl e \<Rightarrow> True
       | Inr rs \<Rightarrow> 0 < limit \<longrightarrow> rs = take (nat limit) (filter is_unpublished (t_outbox (tables s))))"
    and UpdatePublished: "gUpdatePublished pg seqs now s = (upd, s') \<Longrightarrow>
      tables s' = tab_publish stamp now seqs (tables s) \<or> upd \<noteq> None \<and> tables s' = tables s"
    and CreateProcessed: "gCreateProcessed pg pe s = (Inr n, s') \<Longrightarrow>
      (n, tables s') = tab_create_processed stamp pe (tables s)"
    and UpsertAnalytics: "gUpsertAnalytics pg a at s = (None, s') \<Longrightarrow>
      tables s' = tab_upsert_analytics stamp a at (tables s)"
    and FirstAnalytics: "gFirstAnalytics pg c s = (counter, s') \<Longrightarrow> tables s' = tables s \<and>
      (case counter of Inl e \<Rightarrow> True
       | Inr None \<Rightarrow> t_analytics (tables s) c = None
       | Inr (Some a) \<Rightarrow> t_analytics (tables s) c = Some a \<and> int64 (am_ClickCount a))"
    and FindAnalytics: "gFindAnalytics pg s = (counters, s') \<Longrightarrow> tables s' = tables s \<and>
      (case counters of Inl e \<Rightarrow> True
       | Inr rs \<Rightarrow> is_iteration (t_analytics (tables s)) (map (\<lambda>a. (am_ShortCode a, a)) rs)
           \<and> (\<forall>a \<in> set rs. int64 (am_ClickCount a)))"
begin

subsection \<open>Writing the events of one transaction\<close>

lemma store_create_outbox:
  assumes "gCreateOutbox pg (toOutboxRow e) s = (None, s')"
  shows "store_of (tables s') = appended [e] (store_of (tables s))"
    "EventID e \<notin> log_ids (store_of (tables s))"
proof -
  obtain seq where seq: "\<forall>q \<in> set (t_outbox (tables s)). om_ID q \<noteq> EventID e"
    "tables s' = tab_create_outbox stamp seq (toOutboxRow e) (tables s)"
    using CreateOutbox [OF assms] by auto
  show "store_of (tables s') = appended [e] (store_of (tables s))"
    unfolding seq(2)
    by (simp add: tab_create_outbox_def store_of_def appended_def map_filter_append)
  show "EventID e \<notin> log_ids (store_of (tables s))"
    using subsetD [OF log_ids_store_of] seq(1) by fastforce
qed

lemma log_ids_appended: "log_ids (appended es st) = log_ids st \<union> EventID ` set es"
  by (simp add: log_ids_def image_Un image_image)

lemma create_rows_store:
  "create_rows pg es s = (Inr n, s') \<Longrightarrow>
     n = 0 \<and> store_of (tables s') = appended es (store_of (tables s)) \<and> ids_fresh es (store_of (tables s))"
proof (induction es arbitrary: s)
  case Nil
  then show ?case by (simp add: ids_fresh_def)
next
  case (Cons e es)
  obtain s1 where s1: "gCreateOutbox pg (toOutboxRow e) s = (None, s1)" "create_rows pg es s1 = (Inr n, s')"
    using Cons.prems by (auto split: prod.splits option.splits)
  note h = store_create_outbox [OF s1(1)] Cons.IH [OF s1(2)]
  from h have "store_of (tables s') = appended (e # es) (store_of (tables s))"
    by (simp add: appended_def)
  moreover have "ids_fresh (e # es) (store_of (tables s))"
    using h by (auto simp: ids_fresh_def log_ids_appended)
  ultimately show ?case using h by simp
qed

lemma create_rows_infra: "create_rows pg es s = (Inl e, s') \<Longrightarrow> is_infra e"
  by (induction es arbitrary: s) (auto split: prod.splits option.splits)

subsection \<open>Saving an aggregate\<close>

lemma store_save_link:
  assumes "gSaveLink pg (model_of l) s = (None, s1)"
  shows "st_links (store_of (tables s1)) = (st_links (store_of (tables s)))(UUID (lk_id l) \<mapsto> stored_of l)"
    "st_log (store_of (tables s1)) = st_log (store_of (tables s))"
    "code_free l (store_of (tables s))"
proof -
  have h: "\<forall>i r. t_links (tables s) i = Some r \<and> lm_ShortCode r = code_String (lk_shortCode l) \<longrightarrow> i = UUID (lk_id l)"
    "tables s1 = tab_save_link stamp (model_of l) (tables s)"
    using SaveLink [OF assms] by (auto simp: model_of_def)
  show "st_links (store_of (tables s1)) = (st_links (store_of (tables s)))(UUID (lk_id l) \<mapsto> stored_of l)"
    unfolding h(2) tab_save_link_def store_of_def by (rule ext) (simp add: model_of_def [of l] stored_of_row_def stored_of_def)
  show "st_log (store_of (tables s1)) = st_log (store_of (tables s))"
    unfolding h(2) tab_save_link_def store_of_def by simp
  show "code_free l (store_of (tables s))"
    using h(1) by (auto simp: code_free_def store_of_def stored_of_row_def)
qed

lemma save_tx_store:
  assumes "save_tx pg (model_of l) (lk_events l) s = (Inr n, s')"
  shows "store_of (tables s') = saved l (store_of (tables s))"
    "code_free l (store_of (tables s))" "ids_fresh (lk_events l) (store_of (tables s))"
proof -
  obtain s1 where s1: "gSaveLink pg (model_of l) s = (None, s1)" "create_rows pg (lk_events l) s1 = (Inr n, s')"
    using assms by (auto simp: save_tx_def split: prod.splits option.splits)
  note sv = store_save_link [OF s1(1)] and cr = create_rows_store [OF s1(2)]
  show "store_of (tables s') = saved l (store_of (tables s))"
    using cr sv by (intro store.equality) simp_all
  show "code_free l (store_of (tables s))" by (rule sv(3))
  show "ids_fresh (lk_events l) (store_of (tables s))"
    using cr sv(2) by (simp add: ids_fresh_def log_ids_def)
qed

lemma save_tx_infra: "save_tx pg m es s = (Inl e, s') \<Longrightarrow> is_infra e"
  using create_rows_infra by (auto simp: save_tx_def split: prod.splits option.splits)

text \<open>
  A transaction whose closure, when it succeeds, changes the store to \<open>f\<close> of it under the condition
  \<open>ok\<close>, has that effect or none; when it reports success it has it.
\<close>

lemma transaction_store:
  assumes tx: "gTransaction pg body s = (res, s')"
    and good: "\<And>s0 n s1. body s0 = (Inr n, s1) \<Longrightarrow>
      obs (tables s1) = f (obs (tables s0)) \<and> ok (obs (tables s0))"
    and bad: "\<And>s0 e s1. body s0 = (Inl e, s1) \<Longrightarrow> is_infra e"
  shows "(case res of
      Inr n \<Rightarrow> ok (obs (tables s)) \<and> obs (tables s') = f (obs (tables s))
    | Inl e \<Rightarrow> is_infra e \<and> (tables s' = tables s
        \<or> ok (obs (tables s)) \<and> obs (tables s') = f (obs (tables s))))"
proof -
  consider (begin_failed) e where "res = Inl e" "is_infra e" "tables s' = tables s"
    | (rolled_back) s0 s1 e where "body s0 = (Inl e, s1)" "res = Inl e" "tables s' = tables s"
    | (committed) s0 s1 n where "tables s0 = tables s" "body s0 = (Inr n, s1)" "tables s' = tables s1"
        "res = Inr n \<or> (\<exists>e. res = Inl e \<and> is_infra e)"
    using Transaction [OF tx] unfolding transaction_outcome_def by blast
  then show ?thesis
  proof cases
    case begin_failed
    then show ?thesis by simp
  next
    case rolled_back
    with bad show ?thesis by simp
  next
    case committed
    with good [OF committed(2)] show ?thesis by auto
  qed
qed

lemma Save_spec:
  assumes "LinkRepository_Save pg l s = ((res, l'), s')"
  shows "l' = l\<lparr>lk_events := []\<rparr>"
    "case res of
       None \<Rightarrow> (code_free l (store_of (tables s)) \<and> ids_fresh (lk_events l) (store_of (tables s)))
         \<and> store_of (tables s') = saved l (store_of (tables s))
     | Some e \<Rightarrow> is_infra e \<and> (tables s' = tables s
         \<or> (code_free l (store_of (tables s)) \<and> ids_fresh (lk_events l) (store_of (tables s)))
           \<and> store_of (tables s') = saved l (store_of (tables s)))"
proof -
  obtain r s1 where r: "gTransaction pg (\<lambda>tx. save_tx pg (model_of l) (lk_events l) tx) s = (r, s1)"
    by (cases "gTransaction pg (\<lambda>tx. save_tx pg (model_of l) (lk_events l) tx) s")
  then have eq: "s' = s1" "l' = l\<lparr>lk_events := []\<rparr>" "res = (case r of Inl e \<Rightarrow> Some e | Inr _ \<Rightarrow> None)"
    using assms by (auto simp: LinkRepository_Save_def PullEvents_def split: sum.splits)
  show "l' = l\<lparr>lk_events := []\<rparr>" by (rule eq)
  show "case res of
       None \<Rightarrow> (code_free l (store_of (tables s)) \<and> ids_fresh (lk_events l) (store_of (tables s)))
         \<and> store_of (tables s') = saved l (store_of (tables s))
     | Some e \<Rightarrow> is_infra e \<and> (tables s' = tables s
         \<or> (code_free l (store_of (tables s)) \<and> ids_fresh (lk_events l) (store_of (tables s)))
           \<and> store_of (tables s') = saved l (store_of (tables s)))"
    using transaction_store [OF r, where obs = store_of and f = "saved l" and
        ok = "\<lambda>st. code_free l st \<and> ids_fresh (lk_events l) st"] save_tx_store save_tx_infra
    by (cases r) (auto simp: eq)
qed

subsection \<open>Loading an aggregate\<close>

lemma toAggregate_Inr:
  "toAggregate m = Inr l \<longleftrightarrow>
     (\<exists>u. NewShortCode (lm_ShortCode m) = Inr (ShortCode (lm_ShortCode m))
       \<and> NewURL (lm_LongURL m) = Inr u
       \<and> l = Reconstitute (LinkID (lm_ID m)) (ShortCode (lm_ShortCode m)) u (lm_Status m)
           (lm_CreatedAt m) (lm_Version m))"
proof (cases "NewShortCode (lm_ShortCode m)")
  case (Inl e)
  then show ?thesis by (simp add: toAggregate_def)
next
  case (Inr code)
  then have "code = ShortCode (lm_ShortCode m)" by (simp add: NewShortCode_Inr)
  with Inr show ?thesis
    by (cases "NewURL (lm_LongURL m)") (auto simp: toAggregate_def LinkIDFromUUID_def)
qed

lemma toAggregate_Inl: "toAggregate m = Inl e \<Longrightarrow> e \<in> {ErrInvalidShortCode, ErrInvalidURL}"
  using NewURL_error by (auto simp: toAggregate_def NewShortCode_def split: sum.splits if_splits)

lemma Find_spec:
  assumes "LinkRepository_FindByShortCode pg c s = (res, s')"
  shows "tables s' = tables s \<and>
    (case res of
       Inr l \<Rightarrow> lk_shortCode l = c \<and> lk_events l = [] \<and>
         (\<exists>r. st_links (store_of (tables s)) (UUID (lk_id l)) = Some r \<and> sl_code r = code_String c
           \<and> sl_status r = lk_status l \<and> sl_version r = lk_version l
           \<and> NewURL (sl_url r) = Inr (lk_longURL l))
     | Inl e \<Rightarrow> (e = ErrLinkNotFound \<longrightarrow> \<not> code_taken (code_String c) (store_of (tables s)))
         \<and> (e \<in> {ErrLinkNotFound, ErrInvalidShortCode, ErrInvalidURL} \<or> is_infra e))"
proof -
  obtain f s1 where f: "gFirstLink pg (code_String c) s = (f, s1)" by (cases "gFirstLink pg (code_String c) s")
  note fl = FirstLink [OF f]
  consider (error) e where "f = Inl e" | (missing) "f = Inr None" | (found) m where "f = Inr (Some m)"
    by (metis sum.exhaust option.exhaust)
  then show ?thesis
  proof cases
    case error
    with assms f fl show ?thesis by (auto simp: LinkRepository_FindByShortCode_def)
  next
    case missing
    with fl have "\<not> code_taken (code_String c) (store_of (tables s))"
      by (simp add: code_taken_store_of)
    with missing assms f fl show ?thesis by (auto simp: LinkRepository_FindByShortCode_def)
  next
    case (found m)
    with assms f have agg: "toAggregate m = res" "s' = s1"
      by (simp_all add: LinkRepository_FindByShortCode_def)
    with found fl have m: "t_links (tables s) (lm_ID m) = Some m" "lm_ShortCode m = code_String c"
      "tables s' = tables s" by simp_all
    show ?thesis
    proof (cases res)
      case (Inl e)
      with agg toAggregate_Inl have "e \<in> {ErrInvalidShortCode, ErrInvalidURL}" by blast
      with Inl m show ?thesis by auto
    next
      case (Inr l)
      with agg toAggregate_Inr m show ?thesis
        by (auto simp: Reconstitute_def store_of_def stored_of_row_def)
    qed
  qed
qed

lemma Exists_spec:
  assumes "LinkRepository_ExistsByShortCode pg c s = (res, s')"
  shows "tables s' = tables s \<and>
    (case res of Inl e \<Rightarrow> is_infra e | Inr b \<Rightarrow> b = code_taken (code_String c) (store_of (tables s)))"
proof -
  obtain f s1 where f: "gCountLinks pg (code_String c) s = (f, s1)" by (cases "gCountLinks pg (code_String c) s")
  with CountLinks [OF f] assms show ?thesis
    by (cases f) (auto simp: LinkRepository_ExistsByShortCode_def code_taken_store_of)
qed

subsection \<open>The outbox, the counters, the list of links\<close>

lemma Append_spec:
  assumes "OutboxStore_Append pg es s = (res, s')"
  shows "case res of
      None \<Rightarrow> ids_fresh es (store_of (tables s)) \<and> store_of (tables s') = appended es (store_of (tables s))
    | Some e \<Rightarrow> is_infra e \<and> (tables s' = tables s
        \<or> ids_fresh es (store_of (tables s)) \<and> store_of (tables s') = appended es (store_of (tables s)))"
proof (cases "es = []")
  case True
  with assms show ?thesis by (simp add: OutboxStore_Append_def ids_fresh_def)
next
  case False
  obtain r s1 where r: "gTransaction pg (\<lambda>tx. create_rows pg es tx) s = (r, s1)"
    by (cases "gTransaction pg (\<lambda>tx. create_rows pg es tx) s")
  from transaction_store [OF r, where obs = store_of and f = "appended es" and ok = "ids_fresh es"]
    create_rows_store create_rows_infra
  have "case r of
      Inr n \<Rightarrow> ids_fresh es (store_of (tables s)) \<and> store_of (tables s1) = appended es (store_of (tables s))
    | Inl e \<Rightarrow> is_infra e \<and> (tables s1 = tables s
        \<or> ids_fresh es (store_of (tables s)) \<and> store_of (tables s1) = appended es (store_of (tables s)))"
    by blast
  with assms False r show ?thesis by (cases r) (auto simp: OutboxStore_Append_def)
qed

lemma click_counters:
  assumes "gCreateProcessed pg \<lparr>pm_EventID = i, pm_ProcessedAt = at\<rparr> s = (Inr n, s1)"
    "(if n > 0 then gUpsertAnalytics pg \<lparr>am_ShortCode = c, am_ClickCount = 1, am_LastClickedAt = Some at\<rparr> at s1
      else (None, s1)) = (None, s2)"
  shows "counters_of (tables s2) = click i c (counters_of (tables s))"
proof -
  note p = CreateProcessed [OF assms(1)]
  show ?thesis
  proof (cases "t_processed (tables s) i")
    case (Some t)
    with p have "n = 0" "tables s1 = tables s" by (simp_all add: tab_create_processed_def)
    with assms(2) Some show ?thesis by (auto simp: click_def counters_of_def)
  next
    case None
    with p have n: "n = 1" "tables s1 = (tables s)\<lparr>t_processed := (t_processed (tables s))(i \<mapsto> stamp at)\<rparr>"
      by (simp_all add: tab_create_processed_def)
    with assms(2) UpsertAnalytics have
      "tables s2 = tab_upsert_analytics stamp \<lparr>am_ShortCode = c, am_ClickCount = 1, am_LastClickedAt = Some at\<rparr> at (tables s1)"
      by simp
    with n None show ?thesis
      by (auto simp: click_def counters_of_def tab_upsert_analytics_def count_of_def fun_eq_iff split: option.splits)
  qed
qed

lemma record_click_tx_spec:
  assumes "record_click_tx pg i c at s = (Inr n, s')"
  shows "counters_of (tables s') = click i c (counters_of (tables s))"
    "n = count_of (counters_of (tables s')) c" "int64 n"
proof -
  let ?row = "\<lparr>am_ShortCode = c, am_ClickCount = 1, am_LastClickedAt = Some at\<rparr>"
  obtain k s1 where k: "gCreateProcessed pg \<lparr>pm_EventID = i, pm_ProcessedAt = at\<rparr> s = (Inr k, s1)"
    using assms by (auto simp: record_click_tx_def split: prod.splits sum.splits)
  obtain u s2 where u: "(if k > 0 then gUpsertAnalytics pg ?row at s1 else (None, s1)) = (u, s2)"
    by (cases "if k > 0 then gUpsertAnalytics pg ?row at s1 else (None, s1)")
  with k assms have "u = None" by (cases u) (auto simp: record_click_tx_def split: if_splits)
  note c2 = click_counters [OF k u [unfolded this]]
  obtain f s3 where f: "gFirstAnalytics pg c s2 = (f, s3)" by (cases "gFirstAnalytics pg c s2")
  have out: "(case f of Inl err \<Rightarrow> (Inl (ErrInfra err), s3) | Inr None \<Rightarrow> (Inr 0, s3)
      | Inr (Some m) \<Rightarrow> (Inr (am_ClickCount m), s3)) = (Inr n, s')"
    using assms k u \<open>u = None\<close> f
    by (cases "k > 0") (simp_all add: record_click_tx_def sum.case_distrib option.case_distrib split: sum.splits option.splits)
  have "tables s3 = tables s2" using FirstAnalytics [OF f] by simp
  moreover have "s' = s3" using out by (auto split: sum.splits option.splits)
  ultimately show "counters_of (tables s') = click i c (counters_of (tables s))" using c2 by simp
  show "n = count_of (counters_of (tables s')) c" "int64 n"
    using out FirstAnalytics [OF f] \<open>s' = s3\<close> \<open>tables s3 = tables s2\<close>
    by (auto simp: count_of_def counters_of_def int64_def split: sum.splits option.splits)
qed

lemma record_click_tx_infra: "record_click_tx pg i c at s = (Inl e, s') \<Longrightarrow> is_infra e"
  by (auto simp: record_click_tx_def split: prod.splits sum.splits option.splits if_splits)

lemma RecordClick_spec:
  assumes "AnalyticsStore_RecordClick pg i c at s = (res, s')"
  shows "case res of
      Inr n \<Rightarrow> counters_of (tables s') = click i c (counters_of (tables s))
        \<and> n = count_of (counters_of (tables s')) c \<and> int64 n
    | Inl e \<Rightarrow> is_infra e \<and> (tables s' = tables s
        \<or> counters_of (tables s') = click i c (counters_of (tables s)))"
proof -
  from assms have tx: "gTransaction pg (\<lambda>tx. record_click_tx pg i c at tx) s = (res, s')"
    by (simp add: AnalyticsStore_RecordClick_def)
  show ?thesis
  proof (cases res)
    case (Inl e)
    from transaction_store [OF tx, where obs = counters_of and f = "click i c" and ok = "\<lambda>_. True"]
      record_click_tx_spec(1) record_click_tx_infra Inl show ?thesis by force
  next
    case (Inr n)
    from Transaction [OF tx] Inr obtain s0 s1 where
      "tables s0 = tables s" "record_click_tx pg i c at s0 = (Inr n, s1)" "tables s' = tables s1"
      unfolding transaction_outcome_def by auto
    with record_click_tx_spec [of i c at s0 n s1] Inr show ?thesis by simp
  qed
qed

lemma ListCounts_spec:
  assumes "AnalyticsStore_ListAll pg s = (res, s')"
  shows "tables s' = tables s \<and> (case res of Inl e \<Rightarrow> is_infra e
    | Inr cs \<Rightarrow> is_iteration (an_count (counters_of (tables s))) cs \<and> (\<forall>(c, n) \<in> set cs. int64 n))"
proof -
  obtain f s1 where f: "gFindAnalytics pg s = (f, s1)" by (cases "gFindAnalytics pg s")
  note fa = FindAnalytics [OF f]
  show ?thesis
  proof (cases f)
    case (Inl e)
    with fa f assms show ?thesis by (auto simp: AnalyticsStore_ListAll_def)
  next
    case (Inr rs)
    have "map_of (map (\<lambda>a. (am_ShortCode a, am_ClickCount a)) rs)
        = map_option am_ClickCount \<circ> map_of (map (\<lambda>a. (am_ShortCode a, a)) rs)"
      by (induction rs) (auto simp: fun_eq_iff)
    with Inr fa f assms show ?thesis
      by (auto simp: AnalyticsStore_ListAll_def is_iteration_def counters_of_def comp_def)
  qed
qed

lemma ListLinks_spec:
  assumes "LinkRepository_ListAll pg s = (res, s')"
  shows "tables s' = tables s \<and> (case res of Inl e \<Rightarrow> is_infra e
    | Inr xs \<Rightarrow> set xs = snapshot ` ran (st_links (store_of (tables s))))"
proof -
  obtain f s1 where f: "gFindLinks pg s = (f, s1)" by (cases "gFindLinks pg s")
  have "ran (st_links (store_of t)) = stored_of_row ` ran (t_links t)" for t
    by (auto simp: store_of_def ran_def)
  with FindLinks [OF f] f assms show ?thesis
    by (cases f) (auto simp: LinkRepository_ListAll_def snapshot_def stored_of_row_def image_image)
qed

subsection \<open>The adapters implement the ports\<close>

lemma implements_repository:
  "repository_port (LinkRepository pg) (\<lambda>s. store_of (tables s))"
proof
  fix l l' s s' e and c :: ShortCode and found exists
  assume "rSave (LinkRepository pg) l s = ((None, l'), s')"
  from Save_spec [OF this [unfolded LinkRepository_def Repository.select_convs]]
  show "code_free l (store_of (tables s)) \<and> ids_fresh (lk_events l) (store_of (tables s))
      \<and> store_of (tables s') = saved l (store_of (tables s))" by simp
next
  fix l l' s s' e
  assume "rSave (LinkRepository pg) l s = ((Some e, l'), s')"
  from Save_spec [OF this [unfolded LinkRepository_def Repository.select_convs]]
  show "is_infra e \<and> (store_of (tables s') = store_of (tables s) \<or>
      code_free l (store_of (tables s)) \<and> ids_fresh (lk_events l) (store_of (tables s))
      \<and> store_of (tables s') = saved l (store_of (tables s)))" by auto
next
  fix c l s s'
  assume "rFindByShortCode (LinkRepository pg) c s = (Inr l, s')"
  from Find_spec [OF this [unfolded LinkRepository_def Repository.select_convs]]
  show "lk_shortCode l = c \<and> lk_events l = [] \<and>
      (\<exists>r. st_links (store_of (tables s)) (UUID (lk_id l)) = Some r \<and> sl_code r = code_String c
        \<and> sl_status r = lk_status l \<and> sl_version r = lk_version l
        \<and> NewURL (sl_url r) = Inr (lk_longURL l))" by simp
next
  fix c e s s'
  assume "rFindByShortCode (LinkRepository pg) c s = (Inl e, s')"
  from Find_spec [OF this [unfolded LinkRepository_def Repository.select_convs]]
  show "e \<in> {ErrLinkNotFound, ErrInvalidShortCode, ErrInvalidURL} \<or> is_infra e" by simp
next
  fix c s s'
  assume "rFindByShortCode (LinkRepository pg) c s = (Inl ErrLinkNotFound, s')"
  from Find_spec [OF this [unfolded LinkRepository_def Repository.select_convs]]
  show "\<not> code_taken (code_String c) (store_of (tables s))" by simp
next
  fix c b s s'
  assume "rExistsByShortCode (LinkRepository pg) c s = (Inr b, s')"
  from Exists_spec [OF this [unfolded LinkRepository_def Repository.select_convs]]
  show "b = code_taken (code_String c) (store_of (tables s))" by simp
qed (auto simp: LinkRepository_def dest: Save_spec(1) Find_spec Exists_spec)

lemma implements_outbox: "outbox_port (OutboxStore pg) (\<lambda>s. store_of (tables s))"
proof
  fix es s s'
  assume "oAppend (OutboxStore pg) es s = (None, s')"
  from Append_spec [OF this [unfolded OutboxStore_def Outbox.select_convs]]
  show "ids_fresh es (store_of (tables s)) \<and> store_of (tables s') = appended es (store_of (tables s))"
    by simp
next
  fix es s e s'
  assume "oAppend (OutboxStore pg) es s = (Some e, s')"
  from Append_spec [OF this [unfolded OutboxStore_def Outbox.select_convs]]
  show "is_infra e \<and> (store_of (tables s') = store_of (tables s) \<or>
      ids_fresh es (store_of (tables s)) \<and> store_of (tables s') = appended es (store_of (tables s)))"
    by auto
qed

lemma implements_analytics: "analytics_port (Postgres_AnalyticsStore pg) (\<lambda>s. counters_of (tables s))"
proof
  fix i c t s n s'
  assume "aRecordClick (Postgres_AnalyticsStore pg) i c t s = (Inr n, s')"
  from RecordClick_spec [OF this [unfolded Postgres_AnalyticsStore_def AnalyticsStore.select_convs]]
  show "counters_of (tables s') = click i c (counters_of (tables s))
      \<and> n = count_of (counters_of (tables s')) c \<and> int64 n" unfolding sum.case .
next
  fix i c t s e s'
  assume "aRecordClick (Postgres_AnalyticsStore pg) i c t s = (Inl e, s')"
  from RecordClick_spec [OF this [unfolded Postgres_AnalyticsStore_def AnalyticsStore.select_convs]]
  show "is_infra e \<and> (counters_of (tables s') = counters_of (tables s)
      \<or> counters_of (tables s') = click i c (counters_of (tables s)))" by auto
next
  fix s cs s'
  assume "aListAll (Postgres_AnalyticsStore pg) s = (Inr cs, s')"
  from ListCounts_spec [OF this [unfolded Postgres_AnalyticsStore_def AnalyticsStore.select_convs]]
  show "is_iteration (an_count (counters_of (tables s))) cs \<and> (\<forall>(c, n) \<in> set cs. int64 n)" by simp
qed (auto simp: Postgres_AnalyticsStore_def dest: ListCounts_spec)

lemma implements_reader: "link_reader_port (LinkRepository_Reader pg) (\<lambda>s. store_of (tables s))"
  by standard (auto simp: LinkRepository_Reader_def dest: ListLinks_spec)

end

sublocale postgres \<subseteq> repo: repository_port "LinkRepository pg" "\<lambda>s. store_of (tables s)"
  by (rule implements_repository)

sublocale postgres \<subseteq> box: outbox_port "OutboxStore pg" "\<lambda>s. store_of (tables s)"
  by (rule implements_outbox)

sublocale postgres \<subseteq> clicks: analytics_port "Postgres_AnalyticsStore pg" "\<lambda>s. counters_of (tables s)"
  by (rule implements_analytics)

sublocale postgres \<subseteq> reader: link_reader_port "LinkRepository_Reader pg" "\<lambda>s. store_of (tables s)"
  by (rule implements_reader)

end
