(* ===== verification/Short_Relay.thy ===== *)
theory Short_Relay
  imports Short_Transactions "HOL-Library.Sublist"
begin

text \<open>
  url-shortener, \<open>internal/infrastructure/relay\<close>: the publishing half of the transactional outbox.
  Its two interfaces are those of \<open>Short_Ports\<close>; the contract of the publisher is the one of a
  JetStream stream, which drops a message whose id it has seen within its window, and may have
  stored a message whose publication reported an error.
\<close>

lemma filter_not_take:
  assumes "distinct xs"
  shows "filter (\<lambda>x. x \<notin> set (take n xs)) xs = drop n xs"
proof -
  let ?P = "\<lambda>x. x \<notin> set (take n xs)"
  have "filter ?P (take n xs) = []" by (simp add: filter_empty_conv)
  moreover have "filter ?P (drop n xs) = drop n xs"
    using set_take_disj_set_drop_if_distinct [OF assms, of n n] by (auto simp: filter_id_conv)
  moreover have "filter ?P xs = filter ?P (take n xs) @ filter ?P (drop n xs)"
    by (metis filter_append append_take_drop_id)
  ultimately show ?thesis by simp
qed

subsection \<open>One batch\<close>

definition envelope_of :: "OutboxRecord \<Rightarrow> Envelope" where
  "envelope_of r =
     \<lparr>env_EventID = rec_EventID r, env_AggregateID = rec_AggregateID r, env_EventType = rec_EventType r,
      env_OccurredAt = rec_OccurredAt r, env_Payload = rec_Payload r\<rparr>"

text \<open>
  The loop over the records: a record that cannot be marshalled is skipped, a failed publication
  ends the loop. The result is the list \<open>published\<close> of sequence numbers.
\<close>

fun publish_batch ::
  "(time \<Rightarrow> string option) \<Rightarrow> 's Publisher \<Rightarrow> OutboxRecord list \<Rightarrow> 's \<Rightarrow> int list \<times> 's" where
  "publish_batch tf pub [] s = ([], s)"
| "publish_batch tf pub (r # rs) s =
     (case marshal_envelope tf (envelope_of r) of
        None \<Rightarrow> publish_batch tf pub rs s
      | Some data \<Rightarrow>
          (case pPublish pub (rec_EventType r) data (rec_EventID r) s of
             (Some err, s1) \<Rightarrow> ([], s1)
           | (None, s1) \<Rightarrow>
               (case publish_batch tf pub rs s1 of (seqs, s2) \<Rightarrow> (rec_Seq r # seqs, s2))))"

definition RunOnce ::
  "(time \<Rightarrow> string option) \<Rightarrow> 's Source \<Rightarrow> 's Publisher \<Rightarrow> int \<Rightarrow> time \<Rightarrow> 's
     \<Rightarrow> (int \<times> app_error option) \<times> 's" where
  "RunOnce tf source publisher batchSize now s =
     (case sFetchUnpublished source batchSize s of
        (Inl e, s1) \<Rightarrow> ((0, Some e), s1)
      | (Inr records, s1) \<Rightarrow>
          if records = [] then ((0, None), s1)
          else case publish_batch tf publisher records s1 of
            (published, s2) \<Rightarrow>
              if published \<noteq> [] then
                (case sMarkPublished source now published s2 of
                   (Some e, s3) \<Rightarrow> ((int (length published), Some e), s3)
                 | (None, s3) \<Rightarrow> ((int (length published), None), s3))
              else ((int (length published), None), s2))"

text \<open>The polling loop: one batch per tick, until the context is cancelled.\<close>

datatype relay_event = RelayDone | RelayTick time

fun relay_loop ::
  "(time \<Rightarrow> string option) \<Rightarrow> 's Source \<Rightarrow> 's Publisher \<Rightarrow> int \<Rightarrow> relay_event list \<Rightarrow> 's \<Rightarrow> 's" where
  "relay_loop tf source publisher batchSize [] s = s"
| "relay_loop tf source publisher batchSize (RelayDone # es) s = s"
| "relay_loop tf source publisher batchSize (RelayTick now # es) s =
     relay_loop tf source publisher batchSize es (snd (RunOnce tf source publisher batchSize now s))"

text \<open>\<open>Run\<close> makes the ticker first, which panics for an interval that is not positive.\<close>

definition Relay_Run ::
  "(time \<Rightarrow> string option) \<Rightarrow> 's Source \<Rightarrow> 's Publisher \<Rightarrow> int \<Rightarrow> duration \<Rightarrow> relay_event list \<Rightarrow> 's \<Rightarrow> 's go" where
  "Relay_Run tf source publisher batchSize interval es s =
     go_bind (NewTicker interval) (\<lambda>_. Ret (relay_loop tf source publisher batchSize es s))"

subsection \<open>The contracts of the source and of the bus\<close>

record bus_msg =
  bm_subject :: string
  bm_data :: json
  bm_id :: string

locale source_port =
  fixes source :: "'s Source"
    and rows :: "'s \<Rightarrow> outboxModel list"
    and stamp :: "time \<Rightarrow> time"
    and uuid_String :: "uuid \<Rightarrow> string"
  assumes Fetch: "sFetchUnpublished source limit s = (recs, s') \<Longrightarrow> rows s' = rows s \<and>
      (case recs of Inl e \<Rightarrow> is_infra e
       | Inr rs \<Rightarrow> 0 < limit \<longrightarrow>
           rs = map (record_of uuid_String) (take (nat limit) (filter is_unpublished (rows s))))"
    and Mark: "sMarkPublished source now seqs s = (err, s') \<Longrightarrow>
      (rows s' = map (publish_row stamp now seqs) (rows s) \<and> (\<forall>e. err = Some e \<longrightarrow> is_infra e))
      \<or> (\<exists>e. err = Some e \<and> is_infra e) \<and> rows s' = rows s"

locale publisher_port =
  fixes pub :: "'s Publisher"
    and stream :: "'s \<Rightarrow> bus_msg list"
  assumes Publish: "pPublish pub subj data i s = (res, s') \<Longrightarrow>
      stream s' = stream s @ [\<lparr>bm_subject = subj, bm_data = data, bm_id = i\<rparr>]
      \<or> stream s' = stream s \<and> (res = None \<longrightarrow> (\<exists>m \<in> set (stream s). bm_id m = i))"

text \<open>
  The sequence numbers of the outbox are those of its rows, and ids are not shared. The database
  keeps both: every insertion takes a larger number and a new id.
\<close>

definition outbox_ok :: "outboxModel list \<Rightarrow> bool" where
  "outbox_ok rs \<longleftrightarrow> sorted_wrt (<) (map om_Seq rs) \<and> distinct (map om_ID rs)"

definition message_of :: "(time \<Rightarrow> string option) \<Rightarrow> (uuid \<Rightarrow> string) \<Rightarrow> outboxModel \<Rightarrow> bus_msg option" where
  "message_of tf us r =
     map_option (\<lambda>data. \<lparr>bm_subject = om_EventType r, bm_data = data, bm_id = us (om_ID r)\<rparr>)
       (marshal_envelope tf (envelope_of (record_of us r)))"

definition sendable :: "(time \<Rightarrow> string option) \<Rightarrow> outboxModel \<Rightarrow> bool" where
  "sendable tf r \<longleftrightarrow> tf (om_OccurredAt r) \<noteq> None"

lemma record_of_sel [simp]:
  "rec_Seq (record_of us r) = om_Seq r" "rec_EventID (record_of us r) = us (om_ID r)"
  "rec_AggregateID (record_of us r) = us (om_AggregateID r)"
  "rec_EventType (record_of us r) = om_EventType r" "rec_Payload (record_of us r) = om_Payload r"
  "rec_OccurredAt (record_of us r) = om_OccurredAt r"
  by (simp_all add: record_of_def)

lemma message_of_None: "message_of tf us r = None \<longleftrightarrow> \<not> sendable tf r"
  by (simp add: message_of_def sendable_def marshal_envelope_def envelope_of_def
      split: option.splits)

text \<open>A row is on the stream when a message with its id is.\<close>

definition on_stream :: "(uuid \<Rightarrow> string) \<Rightarrow> bus_msg list \<Rightarrow> outboxModel \<Rightarrow> bool" where
  "on_stream us ms r \<longleftrightarrow> us (om_ID r) \<in> bm_id ` set ms"

lemma on_stream_append: "on_stream us ms r \<Longrightarrow> on_stream us (ms @ ms') r"
  by (auto simp: on_stream_def)

lemma publish_row_sel [simp]:
  "om_ID (publish_row st now seqs r) = om_ID r" "om_Seq (publish_row st now seqs r) = om_Seq r"
  "om_OccurredAt (publish_row st now seqs r) = om_OccurredAt r"
  "row_fact (publish_row st now seqs r) = row_fact r"
  "record_of us (publish_row st now seqs r) = record_of us r"
  "message_of tf us (publish_row st now seqs r) = message_of tf us r"
  "sendable tf (publish_row st now seqs r) = sendable tf r"
  by (simp_all add: publish_row_def record_of_def message_of_def sendable_def)

lemma publish_row_unpublished:
  "is_unpublished (publish_row st now seqs r) \<longleftrightarrow> is_unpublished r \<and> om_Seq r \<notin> set seqs"
  by (simp add: publish_row_def is_unpublished_def)

lemma outbox_ok_publish [simp]: "outbox_ok (map (publish_row st now seqs) rs) = outbox_ok rs"
  by (simp add: outbox_ok_def comp_def)

text \<open>
  The invariant: a row marked as published is on the stream, and the stream carries nothing but
  messages of rows.
\<close>

definition relay_ok ::
  "(time \<Rightarrow> string option) \<Rightarrow> (uuid \<Rightarrow> string) \<Rightarrow> outboxModel list \<Rightarrow> bus_msg list \<Rightarrow> bool" where
  "relay_ok tf us rs ms \<longleftrightarrow> outbox_ok rs
     \<and> (\<forall>r \<in> set rs. \<not> is_unpublished r \<longrightarrow> on_stream us ms r)
     \<and> (\<forall>m \<in> set ms. \<exists>r \<in> set rs. message_of tf us r = Some m)"

locale relay = source_port source rows stamp uuid_String + publisher_port pub stream
  for source :: "'s Source" and rows :: "'s \<Rightarrow> outboxModel list" and stamp :: "time \<Rightarrow> time"
    and uuid_String :: "uuid \<Rightarrow> string" and pub :: "'s Publisher" and stream :: "'s \<Rightarrow> bus_msg list" +
  fixes tf :: "time \<Rightarrow> string option"
  assumes Fetch_stream: "sFetchUnpublished source limit s = (recs, s') \<Longrightarrow> stream s' = stream s"
    and Mark_stream: "sMarkPublished source now seqs s = (err, s') \<Longrightarrow> stream s' = stream s"
    and Publish_rows: "pPublish pub subj data i s = (res, s') \<Longrightarrow> rows s' = rows s"
begin

text \<open>
  What a batch does: the rows it reports are the sendable ones of a prefix, in order, each of them
  on the stream afterwards; what it adds to the stream are messages of the batch, in order.
\<close>

lemma publish_batch_spec:
  "publish_batch tf pub (map (record_of uuid_String) us) s = (seqs, s') \<Longrightarrow>
     rows s' = rows s
     \<and> (\<exists>pre. prefix pre us \<and> seqs = map om_Seq (filter (sendable tf) pre)
          \<and> (\<forall>r \<in> set (filter (sendable tf) pre). on_stream uuid_String (stream s') r))
     \<and> (\<exists>ms. stream s' = stream s @ ms \<and> subseq ms (List.map_filter (message_of tf uuid_String) us))"
proof (induction us arbitrary: s seqs)
  case Nil
  then show ?case by simp
next
  case (Cons r us)
  let ?rec = "record_of uuid_String r"
  show ?case
  proof (cases "marshal_envelope tf (envelope_of ?rec)")
    case None
    then have ns: "message_of tf uuid_String r = None" "\<not> sendable tf r"
      using message_of_None by (auto simp: message_of_def)
    from Cons.IH [of s seqs] Cons.prems None obtain pre ms where ih:
      "rows s' = rows s" "prefix pre us" "seqs = map om_Seq (filter (sendable tf) pre)"
      "\<forall>r \<in> set (filter (sendable tf) pre). on_stream uuid_String (stream s') r"
      "stream s' = stream s @ ms" "subseq ms (List.map_filter (message_of tf uuid_String) us)"
      by auto
    show ?thesis
      using ih ns by (intro conjI exI [of _ "r # pre"] exI [of _ ms]) simp_all
  next
    case (Some data)
    then have sn: "sendable tf r"
      "message_of tf uuid_String r = Some \<lparr>bm_subject = om_EventType r, bm_data = data, bm_id = uuid_String (om_ID r)\<rparr>"
      using message_of_None [of tf uuid_String r] by (auto simp: message_of_def)
    obtain p s1 where p: "pPublish pub (om_EventType r) data (uuid_String (om_ID r)) s = (p, s1)"
      by (cases "pPublish pub (om_EventType r) data (uuid_String (om_ID r)) s")
    have r1: "rows s1 = rows s" using Publish_rows [OF p] .
    obtain m1 where m1: "stream s1 = stream s @ m1"
      "m1 = [] \<or> m1 = [\<lparr>bm_subject = om_EventType r, bm_data = data, bm_id = uuid_String (om_ID r)\<rparr>]"
      "p = None \<longrightarrow> on_stream uuid_String (stream s1) r"
    proof -
      let ?m = "\<lparr>bm_subject = om_EventType r, bm_data = data, bm_id = uuid_String (om_ID r)\<rparr>"
      from Publish [OF p] show thesis
      proof
        assume "stream s1 = stream s @ [?m]"
        then show thesis using that [of "[?m]"] by (simp add: on_stream_def)
      next
        assume "stream s1 = stream s \<and> (p = None \<longrightarrow> (\<exists>m \<in> set (stream s). bm_id m = uuid_String (om_ID r)))"
        then show thesis using that [of "[]"] by (force simp: on_stream_def)
      qed
    qed
    show ?thesis
    proof (cases p)
      case (Some e)
      with Cons.prems \<open>marshal_envelope tf (envelope_of ?rec) = Some data\<close> p
      have "seqs = []" "s' = s1" by simp_all
      with m1 r1 sn show ?thesis
        by (intro conjI exI [of _ "[]"] exI [of _ m1]) auto
    next
      case None
      obtain seqs1 where b: "publish_batch tf pub (map (record_of uuid_String) us) s1 = (seqs1, s')"
          "seqs = om_Seq r # seqs1"
        using Cons.prems \<open>marshal_envelope tf (envelope_of ?rec) = Some data\<close> p None
        by (auto split: prod.splits)
      from Cons.IH [OF b(1)] obtain pre ms where ih:
        "rows s' = rows s1" "prefix pre us" "seqs1 = map om_Seq (filter (sendable tf) pre)"
        "\<forall>r \<in> set (filter (sendable tf) pre). on_stream uuid_String (stream s') r"
        "stream s' = stream s1 @ ms" "subseq ms (List.map_filter (message_of tf uuid_String) us)"
        by auto
      have "on_stream uuid_String (stream s') r"
        using m1(3) None ih(5) by (simp add: on_stream_append)
      then show ?thesis
        using ih r1 m1 sn b(2)
        by (intro conjI exI [of _ "r # pre"] exI [of _ "m1 @ ms"]) auto
    qed
  qed
qed

lemma seq_unique: "outbox_ok rs \<Longrightarrow> r \<in> set rs \<Longrightarrow> q \<in> set rs \<Longrightarrow> om_Seq r = om_Seq q \<Longrightarrow> r = q"
  using strict_sorted_iff [of "map om_Seq rs"]
  by (auto simp: outbox_ok_def distinct_map dest: inj_onD)

lemma RunOnce_spec:
  assumes run: "RunOnce tf source pub limit now s = ((n, err), s')" and "0 < limit"
  defines "us \<equiv> take (nat limit) (filter is_unpublished (rows s))"
  obtains pre ms where "prefix pre us" "n = int (length (filter (sendable tf) pre))"
    "rows s' = map (publish_row stamp now (map om_Seq (filter (sendable tf) pre))) (rows s)
      \<or> err \<noteq> None \<and> rows s' = rows s"
    "\<forall>r \<in> set (filter (sendable tf) pre). on_stream uuid_String (stream s') r"
    "stream s' = stream s @ ms" "subseq ms (List.map_filter (message_of tf uuid_String) us)"
    "\<forall>e. err = Some e \<longrightarrow> is_infra e"
proof -
  obtain f s1 where f: "sFetchUnpublished source limit s = (f, s1)" by (cases "sFetchUnpublished source limit s")
  have same: "rows s1 = rows s" "stream s1 = stream s" using Fetch [OF f] Fetch_stream [OF f] by auto
  have ident: "map (publish_row stamp now []) rs = rs" for rs
    by (rule map_idI) (simp add: publish_row_def)
  show thesis
  proof (cases f)
    case (Inl e)
    with run f Fetch [OF f] same show thesis
      by (intro that [of "[]" "[]"]) (auto simp: RunOnce_def)
  next
    case (Inr recs)
    with Fetch [OF f] \<open>0 < limit\<close> have recs: "recs = map (record_of uuid_String) us" by (simp add: us_def)
    obtain seqs s2 where b: "publish_batch tf pub recs s1 = (seqs, s2)" by (cases "publish_batch tf pub recs s1")
    from publish_batch_spec [OF b [unfolded recs]] obtain pre ms where pre:
      "rows s2 = rows s1" "prefix pre us" "seqs = map om_Seq (filter (sendable tf) pre)"
      "\<forall>r \<in> set (filter (sendable tf) pre). on_stream uuid_String (stream s2) r"
      "stream s2 = stream s1 @ ms" "subseq ms (List.map_filter (message_of tf uuid_String) us)" by auto
    show thesis
    proof (cases "seqs = []")
      case True
      then have "n = 0" "err = None" "s' = s2"
        using run f Inr b by (cases "recs = []"; simp add: RunOnce_def)+
      moreover have "filter (sendable tf) pre = []" using True pre(3) by simp
      ultimately show thesis
        using pre same ident by (intro that [of pre ms]) simp_all
    next
      case False
      then have "recs \<noteq> []" using b by (cases recs) auto
      obtain m s3 where m: "sMarkPublished source now seqs s2 = (m, s3)" by (cases "sMarkPublished source now seqs s2")
      have out: "n = int (length seqs)" "err = m" "s' = s3"
        using run f Inr b m False \<open>recs \<noteq> []\<close> by (cases m; simp add: RunOnce_def)+
      have "rows s' = map (publish_row stamp now seqs) (rows s) \<or> err \<noteq> None \<and> rows s' = rows s"
        "\<forall>e. err = Some e \<longrightarrow> is_infra e"
        using Mark [OF m] out same pre(1) by auto
      moreover have "stream s' = stream s2" using Mark_stream [OF m] out by simp
      ultimately show thesis
        using pre same out by (intro that [of pre ms]) simp_all
    qed
  qed
qed

text \<open>The invariant of the relay.\<close>

lemma RunOnce_relay_ok:
  assumes run: "RunOnce tf source pub limit now s = ((n, err), s')" and "0 < limit"
    and ok: "relay_ok tf uuid_String (rows s) (stream s)"
  shows "relay_ok tf uuid_String (rows s') (stream s')"
proof -
  obtain pre ms where r: "prefix pre (take (nat limit) (filter is_unpublished (rows s)))"
    "rows s' = map (publish_row stamp now (map om_Seq (filter (sendable tf) pre))) (rows s)
      \<or> err \<noteq> None \<and> rows s' = rows s"
    "\<forall>r \<in> set (filter (sendable tf) pre). on_stream uuid_String (stream s') r"
    "stream s' = stream s @ ms"
    "subseq ms (List.map_filter (message_of tf uuid_String) (take (nat limit) (filter is_unpublished (rows s))))"
    using RunOnce_spec [OF run \<open>0 < limit\<close>] by metis
  have sub: "set pre \<subseteq> set (rows s)"
    using r(1) set_take_subset [of "nat limit" "filter is_unpublished (rows s)"]
    by (auto dest!: set_mono_prefix)
  have kept: "on_stream uuid_String (stream s') q" if "q \<in> set (rows s)" "\<not> is_unpublished q" for q
    using ok that r(4) by (auto simp: relay_ok_def on_stream_append)
  have new: "\<exists>q \<in> set (rows s). message_of tf uuid_String q = Some m" if m: "m \<in> set (stream s')" for m
  proof (cases "m \<in> set (stream s)")
    case True
    with ok show ?thesis by (auto simp: relay_ok_def)
  next
    case False
    with m r(4,5) have "m \<in> set (List.map_filter (message_of tf uuid_String)
        (take (nat limit) (filter is_unpublished (rows s))))"
      by (auto dest: list_emb_set)
    then obtain q where "q \<in> set (take (nat limit) (filter is_unpublished (rows s)))"
      "message_of tf uuid_String q = Some m"
      by (auto simp: map_filter_def)
    then show ?thesis using in_set_takeD by fastforce
  qed
  from r(2) show ?thesis
  proof
    assume rows: "rows s' = map (publish_row stamp now (map om_Seq (filter (sendable tf) pre))) (rows s)"
    have "on_stream uuid_String (stream s') (publish_row stamp now (map om_Seq (filter (sendable tf) pre)) q)"
      if q: "q \<in> set (rows s)"
        "\<not> is_unpublished (publish_row stamp now (map om_Seq (filter (sendable tf) pre)) q)" for q
    proof (cases "is_unpublished q")
      case True
      then obtain p where "p \<in> set (filter (sendable tf) pre)" "om_Seq q = om_Seq p"
        using q by (auto simp: publish_row_unpublished)
      then show ?thesis
        using seq_unique [of "rows s" q p] ok q(1) sub r(3) by (auto simp: relay_ok_def on_stream_def)
    next
      case False
      with kept q(1) show ?thesis by (simp add: on_stream_def)
    qed
    with ok new show ?thesis
      unfolding rows relay_ok_def by auto
  next
    assume "err \<noteq> None \<and> rows s' = rows s"
    with ok kept new show ?thesis by (auto simp: relay_ok_def)
  qed
qed

subsection \<open>Draining\<close>

text \<open>In a period in which the servers answer (\<open>healthy\<close>), a tick publishes a full batch.\<close>

lemma publish_batch_reliable:
  assumes publish: "\<And>subj data i s. healthy s \<Longrightarrow> \<exists>s'. pPublish pub subj data i s = (None, s') \<and> healthy s'"
  shows "healthy s \<Longrightarrow> \<exists>s'. publish_batch tf pub (map (record_of uuid_String) us) s
      = (map om_Seq (filter (sendable tf) us), s') \<and> healthy s'"
proof (induction us arbitrary: s)
  case (Cons r us)
  have ns: "marshal_envelope tf (envelope_of (record_of uuid_String r)) = None \<longleftrightarrow> \<not> sendable tf r"
    using message_of_None [of tf uuid_String r] by (simp add: message_of_def)
  show ?case
  proof (cases "marshal_envelope tf (envelope_of (record_of uuid_String r))")
    case None
    with ns Cons show ?thesis by simp
  next
    case (Some data)
    obtain s1 where s1: "pPublish pub (om_EventType r) data (uuid_String (om_ID r)) s = (None, s1)" "healthy s1"
      using publish [OF Cons.prems] by blast
    from Cons.IH [OF s1(2)] s1(1) Some ns show ?thesis by auto
  qed
qed simp

lemma RunOnce_reliable:
  fixes now :: time
  assumes fetch: "\<And>limit s. healthy s \<Longrightarrow> \<exists>recs s'. sFetchUnpublished source limit s = (Inr recs, s') \<and> healthy s'"
    and mark: "\<And>now seqs s. healthy s \<Longrightarrow> \<exists>s'. sMarkPublished source now seqs s = (None, s') \<and> healthy s'"
    and publish: "\<And>subj data i s. healthy s \<Longrightarrow> \<exists>s'. pPublish pub subj data i s = (None, s') \<and> healthy s'"
    and healthy: "healthy s"
    and "0 < limit" and ok: "outbox_ok (rows s)" and sendable: "\<forall>r \<in> set (rows s). sendable tf r"
  defines "us \<equiv> filter is_unpublished (rows s)" and "s' \<equiv> snd (RunOnce tf source pub limit now s)"
  shows "filter is_unpublished (rows s') = drop (nat limit) us
    \<and> outbox_ok (rows s') \<and> (\<forall>r \<in> set (rows s'). sendable tf r) \<and> healthy s'"
proof -
  let ?us = "take (nat limit) us"
  obtain recs s1 where f: "sFetchUnpublished source limit s = (Inr recs, s1)" and h1: "healthy s1"
    using fetch [OF healthy] by blast
  with Fetch [OF f] \<open>0 < limit\<close> have recs: "recs = map (record_of uuid_String) ?us"
    and s1: "rows s1 = rows s" by (simp_all add: us_def)
  have all: "filter (sendable tf) ?us = ?us"
    using sendable by (auto simp: us_def filter_id_conv dest: in_set_takeD)
  show ?thesis
  proof (cases "?us = []")
    case True
    then have "us = []" using \<open>0 < limit\<close> by simp
    with True f recs s1 h1 ok sendable show ?thesis by (simp add: s'_def RunOnce_def us_def)
  next
    case False
    obtain s2 where b: "publish_batch tf pub recs s1 = (map om_Seq ?us, s2)" and h2: "healthy s2"
      using publish_batch_reliable [OF publish h1, of ?us] recs all by auto
    obtain s3 where m: "sMarkPublished source now (map om_Seq ?us) s2 = (None, s3)" and h3: "healthy s3"
      using mark [OF h2] by blast
    have s': "s' = s3" using f b m False recs by (simp add: s'_def RunOnce_def)
    have "rows s2 = rows s" using publish_batch_spec [OF b [unfolded recs]] s1 by simp
    with Mark [OF m] s' have rows: "rows s' = map (publish_row stamp now (map om_Seq ?us)) (rows s)" by auto
    have uniq: "om_Seq r \<in> om_Seq ` set ?us \<longleftrightarrow> r \<in> set ?us" if "r \<in> set (rows s)" for r
    proof
      assume "om_Seq r \<in> om_Seq ` set ?us"
      then obtain q where q: "q \<in> set ?us" "om_Seq r = om_Seq q" by auto
      then have "q \<in> set (rows s)" by (auto simp: us_def dest: in_set_takeD)
      with seq_unique [OF ok that] q show "r \<in> set ?us" by simp
    qed simp
    have "distinct us"
      using ok by (auto simp: us_def outbox_ok_def distinct_map intro: distinct_filter)
    note d = filter_not_take [OF this, of "nat limit"]
    have "filter is_unpublished (rows s') =
        map (publish_row stamp now (map om_Seq ?us)) (filter (\<lambda>r. is_unpublished r \<and> r \<notin> set ?us) (rows s))"
      unfolding rows filter_map comp_def using uniq
      by (intro arg_cong [where f = "map _"] filter_cong) (auto simp: publish_row_unpublished)
    also have "\<dots> = filter (\<lambda>r. is_unpublished r \<and> r \<notin> set ?us) (rows s)"
      using uniq by (intro map_idI) (auto simp: publish_row_def)
    also have "\<dots> = filter (\<lambda>r. r \<notin> set ?us) us" by (simp add: us_def conj_commute)
    finally show ?thesis using d rows ok sendable h3 s' by simp
  qed
qed

lemma relay_loop_reliable:
  assumes fetch: "\<And>limit s. healthy s \<Longrightarrow> \<exists>recs s'. sFetchUnpublished source limit s = (Inr recs, s') \<and> healthy s'"
    and mark: "\<And>now seqs s. healthy s \<Longrightarrow> \<exists>s'. sMarkPublished source now seqs s = (None, s') \<and> healthy s'"
    and publish: "\<And>subj data i s. healthy s \<Longrightarrow> \<exists>s'. pPublish pub subj data i s = (None, s') \<and> healthy s'"
    and "0 < limit"
  shows "healthy s \<Longrightarrow> relay_ok tf uuid_String (rows s) (stream s) \<Longrightarrow> \<forall>r \<in> set (rows s). sendable tf r \<Longrightarrow>
    s' = relay_loop tf source pub limit (map RelayTick nows) s \<Longrightarrow>
      filter is_unpublished (rows s') = drop (nat limit * length nows) (filter is_unpublished (rows s))
      \<and> relay_ok tf uuid_String (rows s') (stream s')"
proof (induction nows arbitrary: s)
  case (Cons now nows)
  obtain n err s1 where run: "RunOnce tf source pub limit now s = ((n, err), s1)" by (metis surj_pair)
  have "outbox_ok (rows s)" using Cons.prems by (simp add: relay_ok_def)
  note one = RunOnce_reliable [OF fetch mark publish Cons.prems(1) \<open>0 < limit\<close> this Cons.prems(3), of now, unfolded run snd_conv]
  note ok = RunOnce_relay_ok [OF run \<open>0 < limit\<close> Cons.prems(2)]
  from Cons.IH [of s1] one ok Cons.prems(4) run show ?case by (simp add: add.commute)
qed simp

end

end
