(* ===== verification/Short_Redis.thy ===== *)
theory Short_Redis
  imports Short_Ports
begin

text \<open>
  url-shortener, \<open>internal/infrastructure/persistence/redis\<close>: the read model on a key-value store. The
  Redis client is a parameter, the record \<open>redis\<close> of the commands the adapter issues; the locale
  \<open>key_value\<close> is its contract, through an observer of the keys.
\<close>

definition linkPrefix :: string where "linkPrefix = ''link:''"

definition clickPrefix :: string where "clickPrefix = ''clicks:''"

text \<open>\<open>Get\<close> answers \<open>Inr None\<close> for a missing key (\<open>redis.Nil\<close>); \<open>Exists\<close> counts the keys.\<close>

record 's redis =
  kGet :: "string \<Rightarrow> 's \<Rightarrow> (string + string option) \<times> 's"
  kExists :: "string \<Rightarrow> 's \<Rightarrow> (string + int) \<times> 's"
  kSet :: "string \<Rightarrow> string \<Rightarrow> 's \<Rightarrow> string option \<times> 's"
  kDel :: "string \<Rightarrow> 's \<Rightarrow> string option \<times> 's"

definition ReadModel_LongURL :: "'s redis \<Rightarrow> string \<Rightarrow> 's \<Rightarrow> (app_error + string) \<times> 's" where
  "ReadModel_LongURL rdb shortCode s =
     (case kGet rdb (linkPrefix @ shortCode) s of
        (Inl err, s1) \<Rightarrow> (Inl (ErrInfra err), s1)
      | (Inr None, s1) \<Rightarrow> (Inl ErrLinkNotFound, s1)
      | (Inr (Some v), s1) \<Rightarrow> (Inr v, s1))"

definition ReadModel_Clicks :: "'s redis \<Rightarrow> string \<Rightarrow> 's \<Rightarrow> (app_error + int) \<times> 's" where
  "ReadModel_Clicks rdb shortCode s =
     (case kExists rdb (linkPrefix @ shortCode) s of
        (Inl err, s1) \<Rightarrow> (Inl (ErrInfra err), s1)
      | (Inr exists, s1) \<Rightarrow>
          if exists = 0 then (Inl ErrLinkNotFound, s1)
          else (case kGet rdb (clickPrefix @ shortCode) s1 of
              (Inl err, s2) \<Rightarrow> (Inl (ErrInfra err), s2)
            | (Inr None, s2) \<Rightarrow> (Inr 0, s2)
            | (Inr (Some v), s2) \<Rightarrow>
                (case ParseInt v of
                   None \<Rightarrow> (Inl (ErrInfra ''strconv.ParseInt''), s2)
                 | Some n \<Rightarrow> (Inr n, s2))))"

text \<open>A command that only reports an error.\<close>

definition cmd_err :: "string option \<times> 's \<Rightarrow> app_error option \<times> 's" where
  "cmd_err r = (map_option ErrInfra (fst r), snd r)"

definition ReadModel_SaveLink :: "'s redis \<Rightarrow> string \<Rightarrow> string \<Rightarrow> 's \<Rightarrow> app_error option \<times> 's" where
  "ReadModel_SaveLink rdb shortCode longURL s = cmd_err (kSet rdb (linkPrefix @ shortCode) longURL s)"

definition ReadModel_DeleteLink :: "'s redis \<Rightarrow> string \<Rightarrow> 's \<Rightarrow> app_error option \<times> 's" where
  "ReadModel_DeleteLink rdb shortCode s = cmd_err (kDel rdb (linkPrefix @ shortCode) s)"

definition ReadModel_SetClicks :: "'s redis \<Rightarrow> string \<Rightarrow> int \<Rightarrow> 's \<Rightarrow> app_error option \<times> 's" where
  "ReadModel_SetClicks rdb shortCode count s = cmd_err (kSet rdb (clickPrefix @ shortCode) (FormatInt count) s)"

definition Redis_ReadModel :: "'s redis \<Rightarrow> 's ReadModel" where
  "Redis_ReadModel rdb = \<lparr>rmLongURL = ReadModel_LongURL rdb, rmClicks = ReadModel_Clicks rdb\<rparr>"

definition Redis_Writer :: "'s redis \<Rightarrow> 's ReadModelWriter" where
  "Redis_Writer rdb =
     \<lparr>wSaveLink = ReadModel_SaveLink rdb, wDeleteLink = ReadModel_DeleteLink rdb,
      wSetClicks = ReadModel_SetClicks rdb\<rparr>"

lemma redis_adapter_sel [simp]:
  "rmLongURL (Redis_ReadModel rdb) = ReadModel_LongURL rdb"
  "rmClicks (Redis_ReadModel rdb) = ReadModel_Clicks rdb"
  "wSaveLink (Redis_Writer rdb) = ReadModel_SaveLink rdb"
  "wDeleteLink (Redis_Writer rdb) = ReadModel_DeleteLink rdb"
  "wSetClicks (Redis_Writer rdb) = ReadModel_SetClicks rdb"
  by (simp_all add: Redis_ReadModel_def Redis_Writer_def)

subsection \<open>What the keys say\<close>

definition view_of :: "(string \<rightharpoonup> string) \<Rightarrow> view" where
  "view_of kv =
     \<lparr>v_links = (\<lambda>c. kv (linkPrefix @ c)),
      v_clicks = (\<lambda>c. case kv (clickPrefix @ c) of None \<Rightarrow> None | Some t \<Rightarrow> ParseInt t)\<rparr>"

lemma prefixes_apart [simp]: "linkPrefix @ c \<noteq> clickPrefix @ d" "clickPrefix @ d \<noteq> linkPrefix @ c"
  by (simp_all add: linkPrefix_def clickPrefix_def)

lemma view_of_set_link: "view_of (kv(linkPrefix @ c \<mapsto> u)) = (view_of kv)\<lparr>v_links := (v_links (view_of kv))(c \<mapsto> u)\<rparr>"
  by (auto simp: view_of_def fun_eq_iff)

lemma view_of_del_link:
  "view_of (kv(linkPrefix @ c := None)) = (view_of kv)\<lparr>v_links := (v_links (view_of kv))(c := None)\<rparr>"
  by (auto simp: view_of_def fun_eq_iff)

lemma view_of_set_clicks:
  "int64 n \<Longrightarrow> view_of (kv(clickPrefix @ c \<mapsto> FormatInt n))
     = (view_of kv)\<lparr>v_clicks := (v_clicks (view_of kv))(c \<mapsto> n)\<rparr>"
  by (auto simp: view_of_def fun_eq_iff ParseInt_FormatInt int64_def)

locale key_value =
  fixes rdb :: "'s redis"
    and kv :: "'s \<Rightarrow> (string \<rightharpoonup> string)"
  assumes Get: "kGet rdb k s = (got, s') \<Longrightarrow> kv s' = kv s \<and> (case got of Inl e \<Rightarrow> True | Inr v \<Rightarrow> v = kv s k)"
    and Exists: "kExists rdb k s = (n, s') \<Longrightarrow> kv s' = kv s \<and>
      (case n of Inl e \<Rightarrow> True | Inr n \<Rightarrow> n = (if kv s k = None then 0 else 1))"
    and Set: "kSet rdb k v s = (err, s') \<Longrightarrow> kv s' = (kv s)(k \<mapsto> v) \<or> err \<noteq> None \<and> kv s' = kv s"
    and Del: "kDel rdb k s = (err, s') \<Longrightarrow> kv s' = (kv s)(k := None) \<or> err \<noteq> None \<and> kv s' = kv s"
begin

lemma LongURL_spec:
  assumes "ReadModel_LongURL rdb c s = (res, s')"
  shows "kv s' = kv s \<and> (case res of Inr u \<Rightarrow> v_links (view_of (kv s)) c = Some u
    | Inl e \<Rightarrow> e = ErrLinkNotFound \<and> v_links (view_of (kv s)) c = None \<or> is_infra e)"
proof -
  obtain g s1 where g: "kGet rdb (linkPrefix @ c) s = (g, s1)" by (cases "kGet rdb (linkPrefix @ c) s")
  from assms g Get [OF g] show ?thesis
    by (auto simp: ReadModel_LongURL_def view_of_def split: sum.splits option.splits)
qed

lemma Clicks_spec:
  assumes "ReadModel_Clicks rdb c s = (res, s')"
  shows "kv s' = kv s \<and> (case res of Inr n \<Rightarrow> v_links (view_of (kv s)) c \<noteq> None \<and> n = clicks_of (view_of (kv s)) c
    | Inl e \<Rightarrow> e = ErrLinkNotFound \<and> v_links (view_of (kv s)) c = None \<or> is_infra e)"
proof -
  obtain x s1 where x: "kExists rdb (linkPrefix @ c) s = (x, s1)" by (cases "kExists rdb (linkPrefix @ c) s")
  obtain g s2 where g: "kGet rdb (clickPrefix @ c) s1 = (g, s2)" by (cases "kGet rdb (clickPrefix @ c) s1")
  show ?thesis
  proof (cases x)
    case (Inl e)
    with assms x Exists [OF x] show ?thesis by (auto simp: ReadModel_Clicks_def)
  next
    case (Inr n)
    with assms x Exists [OF x] g Get [OF g] show ?thesis
      by (auto simp: ReadModel_Clicks_def view_of_def clicks_of_def split: sum.splits option.splits if_splits)
  qed
qed

lemma implements_read_model: "read_model_port (Redis_ReadModel rdb) (\<lambda>s. view_of (kv s))"
  by standard (auto simp: Redis_ReadModel_def dest: LongURL_spec Clicks_spec)

lemma implements_writer: "writer_port (Redis_Writer rdb) (\<lambda>s. view_of (kv s))"
proof
  fix c u s res s'
  assume a: "wSaveLink (Redis_Writer rdb) c u s = (res, s')"
  obtain err s1 where k: "kSet rdb (linkPrefix @ c) u s = (err, s1)" by (cases "kSet rdb (linkPrefix @ c) u s")
  from a k Set [OF k] show "write_outcome res (view_of (kv s))
      ((view_of (kv s))\<lparr>v_links := (v_links (view_of (kv s)))(c \<mapsto> u)\<rparr>) (view_of (kv s'))"
    by (cases err) (auto simp: Redis_Writer_def ReadModel_SaveLink_def cmd_err_def view_of_set_link)
next
  fix c s res s'
  assume a: "wDeleteLink (Redis_Writer rdb) c s = (res, s')"
  obtain err s1 where k: "kDel rdb (linkPrefix @ c) s = (err, s1)" by (cases "kDel rdb (linkPrefix @ c) s")
  from a k Del [OF k] show "write_outcome res (view_of (kv s))
      ((view_of (kv s))\<lparr>v_links := (v_links (view_of (kv s)))(c := None)\<rparr>) (view_of (kv s'))"
    by (cases err) (auto simp: Redis_Writer_def ReadModel_DeleteLink_def cmd_err_def view_of_del_link)
next
  fix c n s res s'
  assume n: "int64 n" and a: "wSetClicks (Redis_Writer rdb) c n s = (res, s')"
  obtain err s1 where k: "kSet rdb (clickPrefix @ c) (FormatInt n) s = (err, s1)"
    by (cases "kSet rdb (clickPrefix @ c) (FormatInt n) s")
  from a k Set [OF k] show "write_outcome res (view_of (kv s))
      ((view_of (kv s))\<lparr>v_clicks := (v_clicks (view_of (kv s)))(c \<mapsto> n)\<rparr>) (view_of (kv s'))"
    by (cases err) (auto simp: Redis_Writer_def ReadModel_SetClicks_def cmd_err_def view_of_set_clicks [OF n])
qed

end

sublocale key_value \<subseteq> reads: read_model_port "Redis_ReadModel rdb" "\<lambda>s. view_of (kv s)"
  by (rule implements_read_model)

sublocale key_value \<subseteq> writes: writer_port "Redis_Writer rdb" "\<lambda>s. view_of (kv s)"
  by (rule implements_writer)

end
