(* ===== verification/Short_Projector.thy ===== *)
theory Short_Projector
  imports Short_Redis Short_Transactions
begin

text \<open>
  url-shortener, \<open>internal/infrastructure/projector\<close> and the callback of
  \<open>internal/infrastructure/messaging/jetstream\<close>: the consumer that keeps the read model. Its
  specification is \<open>project\<close>, the effect of one fact on the view and the counters.
\<close>

subsection \<open>The handlers\<close>

definition onCreated :: "'s ReadModelWriter \<Rightarrow> Payload \<Rightarrow> 's \<Rightarrow> app_error option \<times> 's" where
  "onCreated w payload s = wSaveLink w (pl_ShortCode payload) (pl_LongURL payload) s"

definition onDisabled :: "'s ReadModelWriter \<Rightarrow> Payload \<Rightarrow> 's \<Rightarrow> app_error option \<times> 's" where
  "onDisabled w payload s = wDeleteLink w (pl_ShortCode payload) s"

definition onClicked ::
  "(string \<Rightarrow> uuid option) \<Rightarrow> 's ReadModelWriter \<Rightarrow> 's AnalyticsStore \<Rightarrow> time \<Rightarrow> string \<Rightarrow> Payload \<Rightarrow> 's
     \<Rightarrow> app_error option \<times> 's" where
  "onClicked uuid_Parse w an now eventID payload s =
     (case uuid_Parse eventID of
        None \<Rightarrow> (None, s)
      | Some i \<Rightarrow>
          (case aRecordClick an i (pl_ShortCode payload) now s of
             (Inl e, s1) \<Rightarrow> (Some e, s1)
           | (Inr count, s1) \<Rightarrow> wSetClicks w (pl_ShortCode payload) count s1))"

definition Projector_Handle ::
  "(string \<Rightarrow> uuid option) \<Rightarrow> 's ReadModelWriter \<Rightarrow> 's AnalyticsStore \<Rightarrow> time \<Rightarrow> Envelope \<Rightarrow> 's
     \<Rightarrow> app_error option \<times> 's" where
  "Projector_Handle uuid_Parse w an now env s =
     (case unmarshal_payload (env_Payload env) of
        None \<Rightarrow> (None, s)
      | Some payload \<Rightarrow>
          if env_EventType env = EventTypeLinkCreated then onCreated w payload s
          else if env_EventType env = EventTypeLinkDisabled then onDisabled w payload s
          else if env_EventType env = EventTypeLinkClicked
          then onClicked uuid_Parse w an now (env_EventID env) payload s
          else (None, s))"

subsection \<open>The subscription\<close>

datatype ack = Term | Nak | Ack

text \<open>The data of a message is a JSON value, or \<open>None\<close> when it is not JSON.\<close>

definition on_message ::
  "time \<Rightarrow> (string \<Rightarrow> time option) \<Rightarrow> (Envelope \<Rightarrow> 's \<Rightarrow> app_error option \<times> 's) \<Rightarrow> json option \<Rightarrow> 's
     \<Rightarrow> ack \<times> 's" where
  "on_message zero_time time_Parse handler data s =
     (case Option.bind data (unmarshal_envelope zero_time time_Parse) of
        None \<Rightarrow> (Term, s)
      | Some env \<Rightarrow>
          (case handler env s of
             (Some e, s1) \<Rightarrow> (Nak, s1)
           | (None, s1) \<Rightarrow> (Ack, s1)))"

text \<open>On the bytes of a message, as the subscription receives them.\<close>

definition on_bytes ::
  "time \<Rightarrow> (string \<Rightarrow> time option) \<Rightarrow> (Envelope \<Rightarrow> 's \<Rightarrow> app_error option \<times> 's) \<Rightarrow> string \<Rightarrow> 's
     \<Rightarrow> ack \<times> 's" where
  "on_bytes zero_time time_Parse handler data s = on_message zero_time time_Parse handler (json_Unmarshal data) s"

text \<open>
  A sequence of deliveries, each with the clock reading its handler makes: any order, any message
  any number of times. The answers go back to the server.
\<close>

fun consume ::
  "(time \<Rightarrow> json option \<Rightarrow> 's \<Rightarrow> ack \<times> 's) \<Rightarrow> (json option \<times> time) list \<Rightarrow> 's \<Rightarrow> ack list \<times> 's" where
  "consume callback [] s = ([], s)"
| "consume callback ((data, now) # ds) s =
     (case callback now data s of (a, s1) \<Rightarrow>
       (case consume callback ds s1 of (acks, s2) \<Rightarrow> (a # acks, s2)))"

subsection \<open>Bootstrap\<close>

text \<open>A failed write of the rebuild is logged and the loop goes on.\<close>

fun boot_links :: "'s ReadModelWriter \<Rightarrow> LinkSnapshot list \<Rightarrow> 's \<Rightarrow> 's" where
  "boot_links w [] s = s"
| "boot_links w (l # ls) s =
     boot_links w ls
       (if sn_Disabled l then snd (wDeleteLink w (sn_ShortCode l) s)
        else snd (wSaveLink w (sn_ShortCode l) (sn_LongURL l) s))"

fun boot_counts :: "'s ReadModelWriter \<Rightarrow> (string \<times> int) list \<Rightarrow> 's \<Rightarrow> 's" where
  "boot_counts w [] s = s"
| "boot_counts w ((c, n) # cs) s = boot_counts w cs (snd (wSetClicks w c n s))"

definition Bootstrap ::
  "'s LinkReader \<Rightarrow> 's AnalyticsStore \<Rightarrow> 's ReadModelWriter \<Rightarrow> 's \<Rightarrow> app_error option \<times> 's" where
  "Bootstrap reader an w s =
     (case lListAll reader s of
        (Inl e, s1) \<Rightarrow> (Some e, s1)
      | (Inr links, s1) \<Rightarrow>
          (let s2 = boot_links w links s1 in
           case aListAll an s2 of
             (Inl e, s3) \<Rightarrow> (Some e, s3)
           | (Inr counts, s3) \<Rightarrow> (None, boot_counts w counts s3)))"

subsection \<open>The specification\<close>

definition project :: "fact \<Rightarrow> view \<times> analytics \<Rightarrow> view \<times> analytics" where
  "project f = (\<lambda>(v, an).
     if f_type f = EventTypeLinkCreated then (v\<lparr>v_links := (v_links v)(f_code f \<mapsto> f_url f)\<rparr>, an)
     else if f_type f = EventTypeLinkDisabled then (v\<lparr>v_links := (v_links v)(f_code f := None)\<rparr>, an)
     else if f_type f = EventTypeLinkClicked then
       (let an' = click (f_id f) (f_code f) an in
        (v\<lparr>v_clicks := (v_clicks v)(f_code f \<mapsto> count_of an' (f_code f))\<rparr>, an'))
     else (v, an))"

definition is_lifecycle :: "fact \<Rightarrow> bool" where
  "is_lifecycle f \<longleftrightarrow> f_type f = EventTypeLinkCreated \<or> f_type f = EventTypeLinkDisabled"

definition is_click :: "fact \<Rightarrow> bool" where
  "is_click f \<longleftrightarrow> f_type f = EventTypeLinkClicked"

text \<open>What a lifecycle fact says about the resolution of its code.\<close>

definition resolution :: "fact \<Rightarrow> string option" where
  "resolution f = (if f_type f = EventTypeLinkCreated then Some (f_url f) else None)"

lemma project_links:
  "v_links (fst (project f p)) c =
     (if is_lifecycle f \<and> f_code f = c then resolution f else v_links (fst p) c)"
  by (cases p) (auto simp: project_def is_lifecycle_def resolution_def Let_def)

lemma project_counters:
  "snd (project f p) = (if is_click f then click (f_id f) (f_code f) (snd p) else snd p)"
  by (cases p) (auto simp: project_def is_click_def Let_def)

lemma project_clicks:
  "v_clicks (fst (project f p)) c =
     (if is_click f \<and> f_code f = c then Some (count_of (snd (project f p)) c) else v_clicks (fst p) c)"
  by (cases p) (auto simp: project_def is_click_def Let_def)

text \<open>
  Folding facts: the resolution of a code is the one of the last lifecycle fact about it. The
  counters are the events seen, each counted once.
\<close>

definition project_all :: "fact list \<Rightarrow> view \<times> analytics \<Rightarrow> view \<times> analytics" where
  "project_all fs p = fold project fs p"

definition lifecycle_of :: "string \<Rightarrow> fact list \<Rightarrow> fact list" where
  "lifecycle_of c fs = filter (\<lambda>f. is_lifecycle f \<and> f_code f = c) fs"

lemma project_all_links:
  "v_links (fst (project_all fs p)) c =
     (if lifecycle_of c fs = [] then v_links (fst p) c else resolution (last (lifecycle_of c fs)))"
proof (induction fs rule: rev_induct)
  case (snoc f fs)
  then show ?case by (simp add: project_all_def lifecycle_of_def project_links)
qed (simp add: project_all_def lifecycle_of_def)

definition clicks_of_facts :: "fact list \<Rightarrow> uuid set" where
  "clicks_of_facts fs = f_id ` {f \<in> set fs. is_click f}"

lemma clicks_of_facts_simps [simp]:
  "clicks_of_facts [] = {}"
  "clicks_of_facts (f # fs) = (if is_click f then insert (f_id f) (clicks_of_facts fs) else clicks_of_facts fs)"
  by (auto simp: clicks_of_facts_def)

lemma click_seen [simp]: "an_seen (click i c an) = insert i (an_seen an)"
  by (auto simp: click_def)

lemma project_all_seen: "an_seen (snd (project_all fs p)) = an_seen (snd p) \<union> clicks_of_facts fs"
  by (induction fs rule: rev_induct)
    (auto simp: project_all_def clicks_of_facts_def project_counters)

text \<open>The counters are consistent with \<open>code\<close>, which says whose click an event id is.\<close>

definition counted :: "(uuid \<Rightarrow> string) \<Rightarrow> analytics \<Rightarrow> bool" where
  "counted code an \<longleftrightarrow> finite (an_seen an)
     \<and> (\<forall>c. count_of an c = int (card {i \<in> an_seen an. code i = c}))"

lemma counted_empty [simp]: "counted code \<lparr>an_seen = {}, an_count = Map.empty\<rparr>"
  by (simp add: counted_def count_of_def)

lemma count_of_click:
  "count_of (click i c an) d = (if i \<notin> an_seen an \<and> d = c then count_of an d + 1 else count_of an d)"
  by (simp add: click_def count_of_def)

lemma counted_click:
  assumes "counted code an"
  shows "counted code (click i (code i) an)"
proof (cases "i \<in> an_seen an")
  case True
  then show ?thesis using assms by (simp add: click_def)
next
  case False
  have "card {j \<in> insert i (an_seen an). code j = c}
      = (if code i = c then Suc (card {j \<in> an_seen an. code j = c}) else card {j \<in> an_seen an. code j = c})" for c
  proof -
    have "{j \<in> insert i (an_seen an). code j = c} =
        (if code i = c then insert i {j \<in> an_seen an. code j = c} else {j \<in> an_seen an. code j = c})" by auto
    then show ?thesis using False assms by (simp add: counted_def)
  qed
  with assms False show ?thesis by (auto simp: counted_def count_of_click)
qed

subsection \<open>The projector implements the specification\<close>

text \<open>
  A handled envelope has the effect of its fact. A failed one has it in part: the counter first,
  the view only after the counter.
\<close>

definition partly :: "fact \<Rightarrow> view \<times> analytics \<Rightarrow> view \<times> analytics \<Rightarrow> bool" where
  "partly f p p' \<longleftrightarrow> p' = p \<or> p' = project f p
     \<or> is_click f \<and> p' = (fst p, click (f_id f) (f_code f) (snd p))"

text \<open>The fact a message carries, when it carries one.\<close>

definition message_fact ::
  "time \<Rightarrow> (string \<Rightarrow> time option) \<Rightarrow> (string \<Rightarrow> uuid option) \<Rightarrow> json option \<Rightarrow> fact option" where
  "message_fact z tp up data =
     Option.bind (Option.bind data (unmarshal_envelope z tp)) (envelope_fact up)"

text \<open>What a sequence of deliveries with their answers can do to the view and the counters.\<close>

inductive delivered ::
  "fact list \<Rightarrow> ack list \<Rightarrow> view \<times> analytics \<Rightarrow> view \<times> analytics \<Rightarrow> bool" where
  nothing: "delivered [] [] p p"
| acked: "delivered fs acks (project f p) q \<Longrightarrow> delivered (f # fs) (Ack # acks) p q"
| naked: "partly f p p1 \<Longrightarrow> delivered fs acks p1 q \<Longrightarrow> delivered (f # fs) (Nak # acks) p q"

inductive_cases delivered_ConsE: "delivered (f # fs) acks p q"
inductive_cases delivered_NilE: "delivered [] acks p q"

text \<open>Exactly-once counting: counted once whatever the order, the repetitions and the failures.\<close>

lemma partly_counters:
  "partly f p p' \<Longrightarrow> snd p' = snd p \<or> is_click f \<and> snd p' = click (f_id f) (f_code f) (snd p)"
  by (auto simp: partly_def project_counters split: if_splits)

lemma delivered_counters:
  assumes "delivered fs acks p q"
    and "\<forall>f \<in> set fs. is_click f \<longrightarrow> f_code f = code (f_id f)" and "counted code (snd p)"
  shows "counted code (snd q)
    \<and> an_seen (snd p) \<union> clicks_of_facts (map fst (filter (\<lambda>(f, a). a = Ack) (zip fs acks))) \<subseteq> an_seen (snd q)
    \<and> an_seen (snd q) \<subseteq> an_seen (snd p) \<union> clicks_of_facts fs"
  using assms
proof (induction rule: delivered.induct)
  case (acked fs acks f p q)
  have "counted code (snd (project f p))"
    using acked.prems counted_click [of code "snd p" "f_id f"] by (auto simp: project_counters)
  with acked show ?case by (auto simp: project_counters split: if_splits)
next
  case (naked f p p1 fs acks q)
  have "counted code (snd p1)"
    using naked.prems counted_click [of code "snd p" "f_id f"] partly_counters [OF naked.hyps(1)] by auto
  moreover have "an_seen (snd p) \<subseteq> an_seen (snd p1)"
    "an_seen (snd p1) \<subseteq> an_seen (snd p) \<union> clicks_of_facts [f]"
    using partly_counters [OF naked.hyps(1)] by auto
  ultimately show ?case using naked by auto
qed simp

text \<open>
  Convergence: once the last delivery about a code has been acknowledged, the view of it is what
  that delivery said.
\<close>

definition last_about :: "(fact \<Rightarrow> bool) \<Rightarrow> fact list \<Rightarrow> ack list \<Rightarrow> (fact \<times> ack) option" where
  "last_about P fs acks =
     (case filter (\<lambda>(f, a). P f) (zip fs acks) of [] \<Rightarrow> None | xs \<Rightarrow> Some (last xs))"

lemma last_about_Cons:
  "last_about P (f # fs) (a # acks) =
     (case last_about P fs acks of Some x \<Rightarrow> Some x | None \<Rightarrow> if P f then Some (f, a) else None)"
  by (auto simp: last_about_def split: list.splits)

lemma partly_links:
  "partly f p p' \<Longrightarrow> \<not> (is_lifecycle f \<and> f_code f = c) \<Longrightarrow> v_links (fst p') c = v_links (fst p) c"
  by (auto simp: partly_def project_links)

lemma delivered_links:
  assumes "delivered fs acks p q"
  shows "(case last_about (\<lambda>f. is_lifecycle f \<and> f_code f = c) fs acks of
      None \<Rightarrow> v_links (fst q) c = v_links (fst p) c
    | Some (f, a) \<Rightarrow> a = Ack \<longrightarrow> v_links (fst q) c = resolution f)"
  using assms
proof (induction rule: delivered.induct)
  case (acked fs acks f p q)
  then show ?case by (auto simp: last_about_Cons project_links split: option.splits)
next
  case (naked f p p1 fs acks q)
  with partly_links [OF naked.hyps(1), of c] show ?case by (auto simp: last_about_Cons split: option.splits)
qed (simp add: last_about_def)

lemma partly_other_clicks:
  assumes "partly f p p'" "\<not> (is_click f \<and> f_code f = c)"
  shows "v_clicks (fst p') c = v_clicks (fst p) c" "count_of (snd p') c = count_of (snd p) c"
  using assms by (auto simp: partly_def project_clicks project_counters count_of_click)

lemma delivered_clicks:
  assumes "delivered fs acks p q"
  shows "(case last_about (\<lambda>f. is_click f \<and> f_code f = c) fs acks of
      None \<Rightarrow> v_clicks (fst q) c = v_clicks (fst p) c \<and> count_of (snd q) c = count_of (snd p) c
    | Some (f, a) \<Rightarrow> a = Ack \<longrightarrow> v_clicks (fst q) c = Some (count_of (snd q) c))"
  using assms
proof (induction rule: delivered.induct)
  case (acked fs acks f p q)
  have other: "\<not> (is_click f \<and> f_code f = c) \<Longrightarrow> count_of (snd (project f p)) c = count_of (snd p) c"
    by (auto simp: project_counters count_of_click)
  from acked other show ?case
    by (auto simp: last_about_Cons project_clicks split: option.splits)
next
  case (naked f p p1 fs acks q)
  with partly_other_clicks [OF naked.hyps(1), of c] show ?case
    by (auto simp: last_about_Cons split: option.splits)
qed (simp add: last_about_def)

locale projector = writer_port w view + analytics_port an counters
  for w :: "'s ReadModelWriter" and view :: "'s \<Rightarrow> view" and an :: "'s AnalyticsStore"
    and counters :: "'s \<Rightarrow> analytics" +
  fixes uuid_Parse :: "string \<Rightarrow> uuid option"
  assumes SaveLink_counters: "wSaveLink w c u s = (res, s') \<Longrightarrow> counters s' = counters s"
    and DeleteLink_counters: "wDeleteLink w c s = (res, s') \<Longrightarrow> counters s' = counters s"
    and SetClicks_counters: "wSetClicks w c n s = (res, s') \<Longrightarrow> counters s' = counters s"
    and RecordClick_view: "aRecordClick an i c t s = (tot, s') \<Longrightarrow> view s' = view s"
    and aListAll_view: "aListAll an s = (rows, s') \<Longrightarrow> view s' = view s"
begin

lemma Handle_spec:
  assumes h: "Projector_Handle uuid_Parse w an now env s = (res, s')"
    and f: "envelope_fact uuid_Parse env = Some f"
  shows "case res of
      None \<Rightarrow> (view s', counters s') = project f (view s, counters s)
    | Some e \<Rightarrow> is_infra e \<and> partly f (view s, counters s) (view s', counters s')"
proof -
  obtain i payload where i: "uuid_Parse (env_EventID env) = Some i"
    and p: "unmarshal_payload (env_Payload env) = Some payload"
    and f_eq: "f = fact_of_payload i (env_EventType env) payload"
    using f by (auto simp: envelope_fact_def split: option.splits)
  have f_sel: "f_type f = env_EventType env" "f_code f = pl_ShortCode payload" "f_id f = i"
    "f_type f = EventTypeLinkCreated \<Longrightarrow> f_url f = pl_LongURL payload"
    by (simp_all add: f_eq fact_of_payload_def)
  consider (created) "f_type f = EventTypeLinkCreated" | (disabled) "f_type f = EventTypeLinkDisabled"
    | (clicked) "f_type f = EventTypeLinkClicked"
    | (other) "f_type f \<notin> {EventTypeLinkCreated, EventTypeLinkDisabled, EventTypeLinkClicked}" by blast
  then show ?thesis
  proof cases
    case created
    then have "wSaveLink w (f_code f) (f_url f) s = (res, s')"
      using h p f_sel by (simp add: Projector_Handle_def onCreated_def)
    from SaveLink [OF this] SaveLink_counters [OF this] created show ?thesis
      by (cases res) (auto simp: project_def partly_def)
  next
    case disabled
    then have "wDeleteLink w (f_code f) s = (res, s')"
      using h p f_sel by (simp add: Projector_Handle_def onDisabled_def)
    from DeleteLink [OF this] DeleteLink_counters [OF this] disabled show ?thesis
      by (cases res) (auto simp: project_def partly_def)
  next
    case clicked
    then have oc: "onClicked uuid_Parse w an now (env_EventID env) payload s = (res, s')"
      using h p f_sel by (simp add: Projector_Handle_def)
    obtain r s1 where r: "aRecordClick an i (f_code f) now s = (r, s1)"
      by (cases "aRecordClick an i (f_code f) now s")
    have v1: "view s1 = view s" using RecordClick_view [OF r] .
    show ?thesis
    proof (cases r)
      case (Inl e)
      then have "res = Some e" "s' = s1" using oc i r f_sel by (simp_all add: onClicked_def)
      with RecordClick_err [OF r [unfolded Inl]] v1 clicked f_sel show ?thesis
        by (auto simp: partly_def is_click_def)
    next
      case (Inr n)
      then have set: "wSetClicks w (f_code f) n s1 = (res, s')"
        using oc i r f_sel by (simp add: onClicked_def)
      note rc = RecordClick_ok [OF r [unfolded Inr]]
      have "counters s' = click i (f_code f) (counters s)"
        using SetClicks_counters [OF set] rc by simp
      moreover have "write_outcome res (view s)
          ((view s)\<lparr>v_clicks := (v_clicks (view s))(f_code f \<mapsto> n)\<rparr>) (view s')"
        using SetClicks [OF conjunct2 [OF conjunct2 [OF rc]] set] v1 by simp
      moreover have "project f (view s, counters s) =
          ((view s)\<lparr>v_clicks := (v_clicks (view s))(f_code f \<mapsto> n)\<rparr>, click i (f_code f) (counters s))"
        using clicked rc f_sel by (simp add: project_def Let_def)
      ultimately show ?thesis
        using clicked f_sel by (cases res) (auto simp: partly_def is_click_def)
    qed
  next
    case other
    then have "res = None" "s' = s" using h p f_sel by (simp_all add: Projector_Handle_def)
    with other show ?thesis by (simp add: project_def)
  qed
qed

text \<open>The callback the projector subscribes with, and the facts of the messages it is called on.\<close>

lemma on_message_spec:
  assumes m: "on_message z tp (Projector_Handle uuid_Parse w an now) data s = (a, s')"
    and f: "message_fact z tp uuid_Parse data = Some f"
  shows "a = Ack \<and> (view s', counters s') = project f (view s, counters s)
    \<or> a = Nak \<and> partly f (view s, counters s) (view s', counters s')"
proof -
  obtain env where env: "Option.bind data (unmarshal_envelope z tp) = Some env"
    "envelope_fact uuid_Parse env = Some f"
    using f by (auto simp: message_fact_def bind_eq_Some_conv)
  obtain r s1 where r: "Projector_Handle uuid_Parse w an now env s = (r, s1)"
    by (cases "Projector_Handle uuid_Parse w an now env s")
  from Handle_spec [OF r env(2)] m env(1) r show ?thesis
    by (cases r) (auto simp: on_message_def)
qed

lemma consume_spec:
  assumes "consume (\<lambda>now. on_message z tp (Projector_Handle uuid_Parse w an now)) ds s = (acks, s')"
    and "map (\<lambda>d. message_fact z tp uuid_Parse (fst d)) ds = map Some fs"
  shows "delivered fs acks (view s, counters s) (view s', counters s')"
  using assms
proof (induction ds arbitrary: s acks fs)
  case Nil
  then show ?case by (auto intro: delivered.intros)
next
  case (Cons d ds)
  obtain data now where d: "d = (data, now)" by (cases d)
  obtain f fs' where fs: "fs = f # fs'" "message_fact z tp uuid_Parse data = Some f"
    "map (\<lambda>d. message_fact z tp uuid_Parse (fst d)) ds = map Some fs'"
    using Cons.prems(2) d by (cases fs) auto
  obtain a s1 where m: "on_message z tp (Projector_Handle uuid_Parse w an now) data s = (a, s1)"
    by (cases "on_message z tp (Projector_Handle uuid_Parse w an now) data s")
  obtain acks' where acks: "acks = a # acks'"
    "consume (\<lambda>now. on_message z tp (Projector_Handle uuid_Parse w an now)) ds s1 = (acks', s')"
    using Cons.prems(1) d m by (auto split: prod.splits)
  note rest = Cons.IH [OF acks(2) fs(3)]
  from on_message_spec [OF m fs(2)] show ?case
  proof
    assume "a = Ack \<and> (view s1, counters s1) = project f (view s, counters s)"
    with rest fs(1) acks(1) show ?thesis by (metis delivered.acked)
  next
    assume "a = Nak \<and> partly f (view s, counters s) (view s1, counters s1)"
    with rest fs(1) acks(1) show ?thesis by (metis delivered.naked)
  qed
qed

end

subsection \<open>Rebuilding the read model\<close>

context projector
begin

lemma boot_links_spec:
  assumes reliable: "\<And>c u s. healthy s \<Longrightarrow> \<exists>s'. wSaveLink w c u s = (None, s') \<and> healthy s'"
      "\<And>c s. healthy s \<Longrightarrow> \<exists>s'. wDeleteLink w c s = (None, s') \<and> healthy s'"
    and consistent: "inj_on sn_ShortCode (set ls)" and healthy: "healthy s"
  shows "healthy (boot_links w ls s) \<and> counters (boot_links w ls s) = counters s \<and> v_clicks (view (boot_links w ls s)) = v_clicks (view s)
    \<and> (\<forall>l \<in> set ls. v_links (view (boot_links w ls s)) (sn_ShortCode l)
          = (if sn_Disabled l then None else Some (sn_LongURL l)))
    \<and> (\<forall>c. c \<notin> sn_ShortCode ` set ls \<longrightarrow> v_links (view (boot_links w ls s)) c = v_links (view s) c)"
  using consistent healthy
proof (induction ls arbitrary: s)
  case (Cons l ls)
  define s1 where "s1 = (if sn_Disabled l then snd (wDeleteLink w (sn_ShortCode l) s)
      else snd (wSaveLink w (sn_ShortCode l) (sn_LongURL l) s))"
  have s1: "counters s1 = counters s" "healthy s1" "view s1 = (view s)\<lparr>v_links := (v_links (view s))(sn_ShortCode l :=
      (if sn_Disabled l then None else Some (sn_LongURL l)))\<rparr>"
  proof -
    obtain a where "wDeleteLink w (sn_ShortCode l) s = (None, a)" "healthy a"
      using reliable(2) [OF Cons.prems(2)] by blast
    moreover obtain b where "wSaveLink w (sn_ShortCode l) (sn_LongURL l) s = (None, b)" "healthy b"
      using reliable(1) [OF Cons.prems(2)] by blast
    ultimately show "counters s1 = counters s" "healthy s1" "view s1 = (view s)\<lparr>v_links := (v_links (view s))(sn_ShortCode l :=
      (if sn_Disabled l then None else Some (sn_LongURL l)))\<rparr>"
      using SaveLink [of "sn_ShortCode l" "sn_LongURL l" s None b] DeleteLink [of "sn_ShortCode l" s None a]
        SaveLink_counters [of "sn_ShortCode l" "sn_LongURL l" s None b]
        DeleteLink_counters [of "sn_ShortCode l" s None a]
      by (auto simp: s1_def)
  qed
  have step: "boot_links w (l # ls) s = boot_links w ls s1" by (simp add: s1_def)
  have "inj_on sn_ShortCode (set ls)" using Cons.prems by (simp add: inj_on_def)
  note ih = Cons.IH [OF this s1(2)]
  have dup: "l' = l" if "l' \<in> set ls" "sn_ShortCode l' = sn_ShortCode l" for l'
    using inj_onD [OF Cons.prems(1) that(2)] that(1) by simp
  have "v_links (view (boot_links w ls s1)) (sn_ShortCode l)
      = (if sn_Disabled l then None else Some (sn_LongURL l))"
  proof (cases "sn_ShortCode l \<in> sn_ShortCode ` set ls")
    case True
    then obtain l' where "l' \<in> set ls" "sn_ShortCode l' = sn_ShortCode l" by auto
    with dup have "l \<in> set ls" by metis
    with ih show ?thesis by blast
  next
    case False
    with ih have "v_links (view (boot_links w ls s1)) (sn_ShortCode l) = v_links (view s1) (sn_ShortCode l)"
      by blast
    with s1 show ?thesis by simp
  qed
  note head = this
  show ?case unfolding step
  proof (intro conjI ballI allI impI)
    show "healthy (boot_links w ls s1)" using ih by simp
    show "counters (boot_links w ls s1) = counters s" using ih s1(1) by simp
    show "v_clicks (view (boot_links w ls s1)) = v_clicks (view s)" using ih s1(3) by simp
    fix l' assume "l' \<in> set (l # ls)"
    then show "v_links (view (boot_links w ls s1)) (sn_ShortCode l')
        = (if sn_Disabled l' then None else Some (sn_LongURL l'))"
      using head ih by (cases "l' = l") simp_all
  next
    fix c assume "c \<notin> sn_ShortCode ` set (l # ls)"
    then have "c \<noteq> sn_ShortCode l" "c \<notin> sn_ShortCode ` set ls" by simp_all
    then show "v_links (view (boot_links w ls s1)) c = v_links (view s) c" using ih s1(3) by simp
  qed
qed simp

lemma boot_counts_spec:
  assumes reliable: "\<And>c n s. healthy s \<Longrightarrow> \<exists>s'. wSetClicks w c n s = (None, s') \<and> healthy s'"
  shows "healthy s \<Longrightarrow> distinct (map fst cs) \<Longrightarrow> \<forall>(c, n) \<in> set cs. int64 n \<Longrightarrow>
    counters (boot_counts w cs s) = counters s \<and> v_links (view (boot_counts w cs s)) = v_links (view s)
    \<and> (\<forall>c. v_clicks (view (boot_counts w cs s)) c
          = (case map_of cs c of None \<Rightarrow> v_clicks (view s) c | Some n \<Rightarrow> Some n))"
proof (induction cs arbitrary: s)
  case (Cons p cs)
  obtain c n where p: "p = (c, n)" by (cases p)
  obtain s1 where s1: "wSetClicks w c n s = (None, s1)" and h1: "healthy s1"
    using reliable [OF Cons.prems(1)] by blast
  have v1: "view s1 = (view s)\<lparr>v_clicks := (v_clicks (view s))(c \<mapsto> n)\<rparr>" "counters s1 = counters s"
    using SetClicks [OF _ s1] SetClicks_counters [OF s1] Cons.prems p by auto
  have "map_of cs c = None" using Cons.prems p by (simp add: map_of_eq_None_iff)
  with Cons.IH [OF h1] Cons.prems p s1 v1 show ?case by (auto split: option.splits)
qed simp

end

end
