(* ===== verification/Short_World.thy ===== *)
theory Short_World
  imports Short_Relay Short_Projector
begin

text \<open>
  url-shortener: the three servers together (locale \<open>world\<close>), a database, a key-value store and a
  stream, none of which touches what another one holds. In it the adapters, wired as the three
  \<open>main\<close> functions of \<open>cmd/\<close> wire them, satisfy the contracts of the handlers, the relay and the projector.
\<close>

definition keeps :: "('s \<Rightarrow> 'o) \<Rightarrow> ('s \<Rightarrow> 'a \<times> 's) \<Rightarrow> bool" where
  "keeps f m \<longleftrightarrow> (\<forall>s. f (snd (m s)) = f s)"

lemma keepsD: "keeps f m \<Longrightarrow> m s = (r, s') \<Longrightarrow> f s' = f s"
  by (auto simp: keeps_def) (metis snd_conv)

lemma keepsI: "(\<And>s r s'. m s = (r, s') \<Longrightarrow> f s' = f s) \<Longrightarrow> keeps f m"
  by (auto simp: keeps_def) (metis prod.collapse)

definition gorm_keeps :: "'s gorm \<Rightarrow> ('s \<Rightarrow> 'o) \<Rightarrow> bool" where
  "gorm_keeps pg f \<longleftrightarrow>
     (\<forall>body. keeps f body \<longrightarrow> keeps f (gTransaction pg body))
   \<and> (\<forall>m. keeps f (gSaveLink pg m)) \<and> (\<forall>c. keeps f (gFirstLink pg c)) \<and> (\<forall>c. keeps f (gCountLinks pg c))
   \<and> keeps f (gFindLinks pg) \<and> (\<forall>r. keeps f (gCreateOutbox pg r))
   \<and> (\<forall>n. keeps f (gFindUnpublished pg n)) \<and> (\<forall>ss t. keeps f (gUpdatePublished pg ss t))
   \<and> (\<forall>p. keeps f (gCreateProcessed pg p)) \<and> (\<forall>a t. keeps f (gUpsertAnalytics pg a t))
   \<and> (\<forall>c. keeps f (gFirstAnalytics pg c)) \<and> keeps f (gFindAnalytics pg)"

definition redis_keeps :: "'s redis \<Rightarrow> ('s \<Rightarrow> 'o) \<Rightarrow> bool" where
  "redis_keeps rdb f \<longleftrightarrow> (\<forall>k. keeps f (kGet rdb k)) \<and> (\<forall>k. keeps f (kExists rdb k))
     \<and> (\<forall>k v. keeps f (kSet rdb k v)) \<and> (\<forall>k. keeps f (kDel rdb k))"

lemma keeps_create_rows: "gorm_keeps pg f \<Longrightarrow> keeps f (create_rows pg es)"
proof (induction es)
  case Nil
  then show ?case by (simp add: keeps_def)
next
  case (Cons e es)
  then have "keeps f (gCreateOutbox pg (toOutboxRow e))" "keeps f (create_rows pg es)"
    by (simp_all add: gorm_keeps_def)
  then show ?case
    by (intro keepsI) (auto split: prod.splits option.splits, (metis keepsD)+)
qed

lemma keeps_Append: "gorm_keeps pg f \<Longrightarrow> keeps f (OutboxStore_Append pg es)"
proof (rule keepsI)
  fix s r s'
  assume k: "gorm_keeps pg f" and "OutboxStore_Append pg es s = (r, s')"
  moreover have "keeps f (gTransaction pg (\<lambda>tx. create_rows pg es tx))"
    using k keeps_create_rows [OF k] by (simp add: gorm_keeps_def)
  ultimately show "f s' = f s"
    by (auto simp: OutboxStore_Append_def dest: keepsD split: prod.splits sum.splits if_splits)
qed

lemma keeps_record_click_tx: "gorm_keeps pg f \<Longrightarrow> keeps f (record_click_tx pg i c t)"
proof (rule keepsI)
  fix s r s'
  assume k: "gorm_keeps pg f" and r: "record_click_tx pg i c t s = (r, s')"
  let ?row = "\<lparr>am_ShortCode = c, am_ClickCount = 1, am_LastClickedAt = Some t\<rparr>"
  obtain n s1 where n: "gCreateProcessed pg \<lparr>pm_EventID = i, pm_ProcessedAt = t\<rparr> s = (n, s1)" by force
  obtain u s2 where u: "gUpsertAnalytics pg ?row t s1 = (u, s2)" by force
  obtain a s3 where a: "gFirstAnalytics pg c s1 = (a, s3)" by force
  obtain b s4 where b: "gFirstAnalytics pg c s2 = (b, s4)" by force
  have "f s1 = f s" "f s2 = f s1" "f s3 = f s1" "f s4 = f s2"
    using k n u a b keepsD unfolding gorm_keeps_def by metis+
  with r n u a b show "f s' = f s"
    by (auto simp: record_click_tx_def split: sum.splits option.splits if_splits)
qed

lemma keeps_RecordClick: "gorm_keeps pg f \<Longrightarrow> keeps f (AnalyticsStore_RecordClick pg i c t)"
proof -
  assume k: "gorm_keeps pg f"
  then have "keeps f (gTransaction pg (\<lambda>tx. record_click_tx pg i c t tx))"
    using keeps_record_click_tx [OF k] by (simp add: gorm_keeps_def)
  then show ?thesis by (simp add: keeps_def AnalyticsStore_RecordClick_def)
qed

lemma keeps_ListCounts: "gorm_keeps pg f \<Longrightarrow> keeps f (AnalyticsStore_ListAll pg)"
  by (rule keepsI) (auto simp: gorm_keeps_def AnalyticsStore_ListAll_def dest: keepsD split: prod.splits sum.splits)

lemma keeps_Fetch: "gorm_keeps pg f \<Longrightarrow> keeps f (OutboxStore_FetchUnpublished pg us n)"
  by (rule keepsI)
    (auto simp: gorm_keeps_def OutboxStore_FetchUnpublished_def dest: keepsD split: prod.splits sum.splits)

lemma keeps_Mark: "gorm_keeps pg f \<Longrightarrow> keeps f (OutboxStore_MarkPublished pg now ss)"
proof (rule keepsI)
  fix s r s'
  assume "gorm_keeps pg f" and r: "OutboxStore_MarkPublished pg now ss s = (r, s')"
  then have k: "keeps f (gUpdatePublished pg ss now)" by (simp add: gorm_keeps_def)
  obtain u s1 where u: "gUpdatePublished pg ss now s = (u, s1)" by force
  from keepsD [OF k u] r u show "f s' = f s"
    by (auto simp: OutboxStore_MarkPublished_def split: option.splits if_splits)
qed

lemma keeps_LongURL: "redis_keeps rdb f \<Longrightarrow> keeps f (ReadModel_LongURL rdb c)"
  by (rule keepsI)
    (auto simp: redis_keeps_def ReadModel_LongURL_def dest: keepsD split: prod.splits sum.splits option.splits)

lemma keeps_Clicks: "redis_keeps rdb f \<Longrightarrow> keeps f (ReadModel_Clicks rdb c)"
proof (rule keepsI)
  fix s r s'
  assume k: "redis_keeps rdb f" and run: "ReadModel_Clicks rdb c s = (r, s')"
  obtain n s1 where n: "kExists rdb (linkPrefix @ c) s = (n, s1)" by force
  obtain g s2 where g: "kGet rdb (clickPrefix @ c) s1 = (g, s2)" by force
  have "f s1 = f s" "f s2 = f s1"
    using k n g keepsD unfolding redis_keeps_def by metis+
  with run n g show "f s' = f s"
    by (auto simp: ReadModel_Clicks_def split: sum.splits option.splits if_splits)
qed

lemma keeps_cmd_err: "keeps f m \<Longrightarrow> keeps f (\<lambda>s. cmd_err (m s))"
  by (simp add: keeps_def cmd_err_def)

lemma keeps_writers:
  assumes "redis_keeps rdb f"
  shows "keeps f (ReadModel_SaveLink rdb c u)" "keeps f (ReadModel_DeleteLink rdb c)"
    "keeps f (ReadModel_SetClicks rdb c n)"
  using assms
  by (simp_all add: redis_keeps_def keeps_def cmd_err_def ReadModel_SaveLink_def
      ReadModel_DeleteLink_def ReadModel_SetClicks_def)

subsection \<open>The servers\<close>

locale world = postgres pg tables stamp + key_value rdb kv + publisher_port pub stream
  for pg :: "'s gorm" and tables :: "'s \<Rightarrow> tables" and stamp :: "time \<Rightarrow> time"
    and rdb :: "'s redis" and kv :: "'s \<Rightarrow> (string \<rightharpoonup> string)"
    and pub :: "'s Publisher" and stream :: "'s \<Rightarrow> bus_msg list" +
  assumes pg_frame: "gorm_keeps pg kv" "gorm_keeps pg stream"
    and redis_frame: "redis_keeps rdb tables" "redis_keeps rdb stream"
    and publish_frame: "keeps tables (pPublish pub subj data i)" "keeps kv (pPublish pub subj data i)"
begin

lemma api_queries:
  "query_side (Redis_ReadModel rdb) (\<lambda>s. view_of (kv s)) (OutboxStore pg) (\<lambda>s. store_of (tables s))"
proof (intro query_side.intro query_side_axioms.intro implements_read_model implements_outbox)
  fix c s res s'
  assume "rmLongURL (Redis_ReadModel rdb) c s = (res, s')"
  then show "store_of (tables s') = store_of (tables s)"
    using keepsD [OF keeps_LongURL [OF redis_frame(1)]] by (simp add: Redis_ReadModel_def)
next
  fix es s err s'
  assume "oAppend (OutboxStore pg) es s = (err, s')"
  then show "view_of (kv s') = view_of (kv s)"
    using keepsD [OF keeps_Append [OF pg_frame(1)]] by (simp add: OutboxStore_def)
qed

lemma projector_wired:
  "projector (Redis_Writer rdb) (\<lambda>s. view_of (kv s)) (Postgres_AnalyticsStore pg) (\<lambda>s. counters_of (tables s))"
proof (intro projector.intro projector_axioms.intro implements_writer implements_analytics)
  note w = keeps_writers [OF redis_frame(1), THEN keepsD]
  show "counters_of (tables s') = counters_of (tables s)" if "wSaveLink (Redis_Writer rdb) c u s = (res, s')"
    for c u s res s' using w(1) that by (simp add: Redis_Writer_def)
  show "counters_of (tables s') = counters_of (tables s)" if "wDeleteLink (Redis_Writer rdb) c s = (res, s')"
    for c s res s' using w(2) that by (simp add: Redis_Writer_def)
  show "counters_of (tables s') = counters_of (tables s)" if "wSetClicks (Redis_Writer rdb) c n s = (res, s')"
    for c n s res s' using w(3) that by (simp add: Redis_Writer_def)
  show "view_of (kv s') = view_of (kv s)" if "aRecordClick (Postgres_AnalyticsStore pg) i c t s = (tot, s')"
    for i c t s tot s'
    using keepsD [OF keeps_RecordClick [OF pg_frame(1)]] that by (simp add: Postgres_AnalyticsStore_def)
  show "view_of (kv s') = view_of (kv s)" if "aListAll (Postgres_AnalyticsStore pg) s = (rows, s')" for s rows s'
    using keepsD [OF keeps_ListCounts [OF pg_frame(1)]] that by (simp add: Postgres_AnalyticsStore_def)
qed

lemma Fetch_rows:
  assumes "OutboxStore_FetchUnpublished pg us limit s = (recs, s')"
  shows "t_outbox (tables s') = t_outbox (tables s) \<and>
    (case recs of Inl e \<Rightarrow> is_infra e
     | Inr rs \<Rightarrow> 0 < limit \<longrightarrow>
         rs = map (record_of us) (take (nat limit) (filter is_unpublished (t_outbox (tables s)))))"
proof -
  obtain f s1 where f: "gFindUnpublished pg limit s = (f, s1)" by force
  from assms f FindUnpublished [OF f] show ?thesis
    by (auto simp: OutboxStore_FetchUnpublished_def split: sum.splits)
qed

lemma Mark_rows:
  assumes "OutboxStore_MarkPublished pg now seqs s = (err, s')"
  shows "(t_outbox (tables s') = map (publish_row stamp now seqs) (t_outbox (tables s))
        \<and> (\<forall>e. err = Some e \<longrightarrow> is_infra e))
      \<or> (\<exists>e. err = Some e \<and> is_infra e) \<and> t_outbox (tables s') = t_outbox (tables s)"
proof (cases "seqs = []")
  case True
  have "map (publish_row stamp now []) rs = rs" for rs
    by (rule map_idI) (simp add: publish_row_def)
  with True assms show ?thesis by (simp add: OutboxStore_MarkPublished_def)
next
  case False
  obtain u s1 where u: "gUpdatePublished pg seqs now s = (u, s1)" by force
  with assms False have "s' = s1" "err = map_option ErrInfra u"
    by (auto simp: OutboxStore_MarkPublished_def split: option.splits)
  with UpdatePublished [OF u] show ?thesis by (auto simp: tab_publish_def)
qed

lemma relay_wired:
  "relay (OutboxStore_Source pg us) (\<lambda>s. t_outbox (tables s)) stamp us pub stream"
proof (intro relay.intro relay_axioms.intro source_port.intro)
  show "publisher_port pub stream" by (rule publisher_port_axioms)
  show "t_outbox (tables s') = t_outbox (tables s) \<and>
      (case recs of Inl e \<Rightarrow> is_infra e
       | Inr rs \<Rightarrow> 0 < limit \<longrightarrow>
           rs = map (record_of us) (take (nat limit) (filter is_unpublished (t_outbox (tables s)))))"
    if "sFetchUnpublished (OutboxStore_Source pg us) limit s = (recs, s')" for limit s recs s'
    using Fetch_rows that by (simp add: OutboxStore_Source_def)
  show "t_outbox (tables s') = map (publish_row stamp now seqs) (t_outbox (tables s))
        \<and> (\<forall>e. err = Some e \<longrightarrow> is_infra e)
      \<or> (\<exists>e. err = Some e \<and> is_infra e) \<and> t_outbox (tables s') = t_outbox (tables s)"
    if "sMarkPublished (OutboxStore_Source pg us) now seqs s = (err, s')" for now seqs s err s'
    using Mark_rows that by (simp add: OutboxStore_Source_def)
  show "stream s' = stream s" if "sFetchUnpublished (OutboxStore_Source pg us) limit s = (recs, s')"
    for limit s recs s'
    using keepsD [OF keeps_Fetch [OF pg_frame(2)]] that by (simp add: OutboxStore_Source_def)
  show "stream s' = stream s" if "sMarkPublished (OutboxStore_Source pg us) now seqs s = (err, s')"
    for now seqs s err s'
    using keepsD [OF keeps_Mark [OF pg_frame(2)]] that by (simp add: OutboxStore_Source_def)
  show "t_outbox (tables s') = t_outbox (tables s)" if "pPublish pub subj data i s = (res, s')"
    for subj data i s res s'
    using keepsD [OF publish_frame(1)] that by simp
qed

end

sublocale world \<subseteq> api: query_side "Redis_ReadModel rdb" "\<lambda>s. view_of (kv s)" "OutboxStore pg"
    "\<lambda>s. store_of (tables s)"
  by (rule api_queries)

sublocale world \<subseteq> consumer: projector "Redis_Writer rdb" "\<lambda>s. view_of (kv s)" "Postgres_AnalyticsStore pg"
    "\<lambda>s. counters_of (tables s)" uuid_Parse
  for uuid_Parse
  by (rule projector_wired)

sublocale world \<subseteq> publisher: relay "OutboxStore_Source pg us" "\<lambda>s. t_outbox (tables s)" stamp us pub stream tf
  for us tf
  by (rule relay_wired)

end
