(* ===== verification/Go_Duration.thy ===== *)
theory Go_Duration
  imports Go_Base Go_Text
begin

text \<open>
  \<open>time.ParseDuration\<close>: a sequence of decimal numbers with units, as \<open>1h15m30.5s\<close>. The numbers are
  unsigned 64-bit integers. A fraction goes through \<open>float64\<close>, whose product, quotient and rounding
  to the nearest, ties to even, are written out below on pairs of a mantissa and an exponent. The exponent
  is not bounded here: beyond its range, after more than 300 zeros, the fraction is below a nanosecond
  and truncated to zero either way.
\<close>

subsection \<open>Positive floating-point numbers\<close>

text \<open>The pair of \<open>m\<close> and \<open>e\<close> is \<open>m\<close> times 2 to the power \<open>e\<close>.\<close>

type_synonym float64 = "nat \<times> int"

fun bits :: "nat \<Rightarrow> nat" where
  "bits n = (if n = 0 then 0 else Suc (bits (n div 2)))"

declare bits.simps [simp del]

lemma bits_0 [simp]: "bits 0 = 0"
  by (subst bits.simps) simp

lemma bits_pos: "0 < n \<Longrightarrow> bits n = Suc (bits (n div 2))"
  by (subst bits.simps) simp

lemma bits_1 [simp]: "bits (Suc 0) = 1"
  by (simp add: bits_pos)

lemma bits_bounds: "0 < n \<Longrightarrow> 2 ^ (bits n - 1) \<le> n \<and> n < 2 ^ bits n"
proof (induction n rule: less_induct)
  case (less n)
  show ?case
  proof (cases "n = 1")
    case False
    with less.prems have pos: "0 < n div 2" "n div 2 < n" by simp_all
    obtain k where k: "bits (n div 2) = Suc k" using bits_pos [OF pos(1)] by blast
    have "bits n = Suc (Suc k)" using bits_pos [OF less.prems] k by simp
    with less.IH [OF pos(2,1)] k show ?thesis by auto
  qed simp
qed

definition round_even :: "nat \<Rightarrow> nat \<Rightarrow> nat" where
  "round_even p q =
     (let k = p div q; r = p mod q in if 2 * r < q \<or> 2 * r = q \<and> even k then k else k + 1)"

text \<open>The quotient of two integers, times a power of two, rounded to 53 binary digits.\<close>

definition scaled :: "nat \<Rightarrow> nat \<Rightarrow> int \<Rightarrow> nat \<times> nat" where
  "scaled p q e = (if e < 0 then (p * 2 ^ nat (- e), q) else (p, q * 2 ^ nat e))"

definition float64_ratio :: "nat \<Rightarrow> nat \<Rightarrow> int \<Rightarrow> float64" where
  "float64_ratio p q x =
     (let e0 = int (bits p) - int (bits q) - 53;
          e = (case scaled p q e0 of (a, b) \<Rightarrow> if 2 ^ 53 * b \<le> a then e0 + 1 else e0)
      in (case scaled p q e of (a, b) \<Rightarrow> round_even a b, e + x))"

definition float64_of :: "nat \<Rightarrow> float64" where "float64_of n = float64_ratio n 1 0"

fun float64_mul :: "float64 \<Rightarrow> float64 \<Rightarrow> float64" where
  "float64_mul (m, e) (k, f) = float64_ratio (m * k) 1 (e + f)"

fun float64_div :: "float64 \<Rightarrow> float64 \<Rightarrow> float64" where
  "float64_div (m, e) (k, f) = float64_ratio m k (e - f)"

text \<open>The conversion to an unsigned integer truncates.\<close>

fun uint64_of :: "float64 \<Rightarrow> nat" where
  "uint64_of (m, e) = (if e < 0 then m div 2 ^ nat (- e) else m * 2 ^ nat e)"

text \<open>Integers of at most 53 binary digits are exact.\<close>

lemma uint64_float64_of:
  assumes "n < 2 ^ 53"
  shows "uint64_of (float64_of n) = n"
proof (cases "n = 0")
  case True
  then show ?thesis by (simp add: float64_of_def float64_ratio_def scaled_def round_even_def)
next
  case False
  have b: "2 ^ (bits n - 1) \<le> n" using bits_bounds [of n] False by simp
  have "bits n \<le> 53"
  proof (rule ccontr)
    assume "\<not> ?thesis"
    then have "(2::nat) ^ 53 \<le> 2 ^ (bits n - 1)" by (intro power_increasing) simp_all
    with b assms show False by linarith
  qed
  then obtain k where k: "53 = bits n + k" by (metis le_add_diff_inverse)
  obtain l where l: "bits n = Suc l" using bits_pos [of n] False by blast
  have "53 = l + Suc k" using k l by simp
  then have "(2::nat) ^ 53 = 2 ^ l * 2 ^ Suc k" by (metis power_add)
  also have "\<dots> \<le> n * 2 ^ Suc k" using b l by simp
  finally have big: "(2::nat) ^ 53 \<le> n * 2 ^ Suc k" .
  have e: "int (bits n) - int (bits 1) - 53 = - int (Suc k)" using k by simp
  have first: "scaled n 1 (- int (Suc k)) = (n * 2 ^ Suc k, 1)" by (simp add: scaled_def nat_add_distrib)
  have second: "scaled n 1 (- int (Suc k) + 1) = (n * 2 ^ k, 1)" by (simp add: scaled_def)
  have "float64_of n = (n * 2 ^ k, - int k)"
    unfolding float64_of_def float64_ratio_def Let_def e first
    using big by (simp add: second [simplified] round_even_def)
  then show ?thesis by simp
qed

subsection \<open>The parser\<close>

text \<open>\<open>leadingInt\<close>: the digits at the start, \<open>None\<close> beyond \<open>2 ^ 63\<close>.\<close>

fun leadingInt :: "nat \<Rightarrow> string \<Rightarrow> (nat \<times> string) option" where
  "leadingInt x [] = Some (x, [])"
| "leadingInt x (c # s) =
     (case digit_value c of
        None \<Rightarrow> Some (x, c # s)
      | Some d \<Rightarrow>
          if 2 ^ 63 div 10 < x then None
          else if 2 ^ 63 < x * 10 + d then None
          else leadingInt (x * 10 + d) s)"

text \<open>\<open>leadingFraction\<close>: digits that no longer fit are skipped.\<close>

fun leadingFraction :: "nat \<Rightarrow> float64 \<Rightarrow> bool \<Rightarrow> string \<Rightarrow> nat \<times> float64 \<times> string" where
  "leadingFraction x scale overflow [] = (x, scale, [])"
| "leadingFraction x scale overflow (c # s) =
     (case digit_value c of
        None \<Rightarrow> (x, scale, c # s)
      | Some d \<Rightarrow>
          if overflow \<or> (2 ^ 63 - 1) div 10 < x \<or> 2 ^ 63 < x * 10 + d
          then leadingFraction x scale True s
          else leadingFraction (x * 10 + d) (float64_mul scale (float64_of 10)) False s)"

text \<open>The units in nanoseconds; the two spellings with a micro sign are in UTF-8.\<close>

definition unitMap :: "string \<rightharpoonup> nat" where
  "unitMap = map_of
     [(''ns'', 1), (''us'', 1000), ([CHR 0xC2, CHR 0xB5, CHR ''s''], 1000),
      ([CHR 0xCE, CHR 0xBC, CHR ''s''], 1000), (''ms'', 1000000), (''s'', 1000000000),
      (''m'', 60000000000), (''h'', 3600000000000)]"

definition unit_char :: "char \<Rightarrow> bool" where
  "unit_char c \<longleftrightarrow> c \<noteq> CHR ''.'' \<and> digit_value c = None"

text \<open>One number with its unit, as nanoseconds.\<close>

definition duration_item :: "string \<Rightarrow> (nat \<times> string) option" where
  "duration_item s =
     (if s = [] \<or> unit_char (hd s) then None
      else case leadingInt 0 s of
        None \<Rightarrow> None
      | Some (v, s1) \<Rightarrow>
          let dot = (s1 \<noteq> [] \<and> hd s1 = CHR ''.'');
              (f, scale, s2) = (if dot then leadingFraction 0 (float64_of 1) False (tl s1) else (0, float64_of 1, s1));
              pre = length s1 \<noteq> length s;
              post = dot \<and> length s2 \<noteq> length (tl s1);
              u = takeWhile unit_char s2;
              rest = dropWhile unit_char s2
          in if \<not> pre \<and> \<not> post then None
             else if u = [] then None
             else case unitMap u of
               None \<Rightarrow> None
             | Some unit \<Rightarrow>
                 if 2 ^ 63 div unit < v then None
                 else let ns = v * unit + (if 0 < f then uint64_of (float64_mul (float64_of f) (float64_div (float64_of unit) scale)) else 0)
                      in if 2 ^ 63 < ns then None else Some (ns, rest))"

lemma leadingInt_length: "leadingInt x s = Some (y, r) \<Longrightarrow> length r \<le> length s"
  by (induction x s rule: leadingInt.induct) (auto split: option.splits if_splits)

lemma leadingFraction_length: "leadingFraction x sc v s = (f, sc', r) \<Longrightarrow> length r \<le> length s"
  by (induction x sc v s rule: leadingFraction.induct) (auto split: option.splits if_splits)

lemma duration_item_shorter:
  assumes "duration_item s = Some (v, rest)"
  shows "length rest < length s"
proof -
  obtain w s1 where i: "leadingInt 0 s = Some (w, s1)"
    using assms by (auto simp: duration_item_def split: if_splits option.splits)
  obtain f scale s2 where
    f: "(if s1 \<noteq> [] \<and> hd s1 = CHR ''.'' then leadingFraction 0 (float64_of 1) False (tl s1) else (0, float64_of 1, s1))
      = (f, scale, s2)" by (metis prod_cases3)
  have "length s2 \<le> length s1"
    using f leadingFraction_length [of 0 "float64_of 1" False "tl s1" f scale s2] by (auto split: if_splits)
  then have "length s2 \<le> length s" using leadingInt_length [OF i] by simp
  moreover have "rest = dropWhile unit_char s2" "takeWhile unit_char s2 \<noteq> []"
    using assms unfolding duration_item_def i
    by (auto simp: f Let_def split: if_splits option.splits)
  moreover have "length (takeWhile unit_char s2) + length (dropWhile unit_char s2) = length s2"
    by (metis length_append takeWhile_dropWhile_id)
  ultimately show ?thesis by (cases "takeWhile unit_char s2") simp_all
qed

text \<open>The sum of the numbers is taken modulo \<open>2 ^ 64\<close> before it is compared with its bound.\<close>

function duration_loop :: "nat \<Rightarrow> string \<Rightarrow> nat option" where
  "duration_loop d s =
     (if s = [] then Some d
      else case duration_item s of
        None \<Rightarrow> None
      | Some (v, rest) \<Rightarrow>
          let d' = (d + v) mod 2 ^ 64 in if 2 ^ 63 < d' then None else duration_loop d' rest)"
  by pat_completeness auto

termination
  by (relation "measure (\<lambda>(d, s). length s)") (auto simp: duration_item_shorter)

declare duration_loop.simps [simp del]

definition ParseDuration :: "string \<Rightarrow> duration option" where
  "ParseDuration s =
     (let signed = (s \<noteq> [] \<and> (hd s = CHR ''-'' \<or> hd s = CHR ''+''));
          neg = (s \<noteq> [] \<and> hd s = CHR ''-'');
          body = (if signed then tl s else s) in
      if body = ''0'' then Some 0
      else if body = [] then None
      else case duration_loop 0 body of
        None \<Rightarrow> None
      | Some d \<Rightarrow>
          if neg then Some (- of_nat d) else if 2 ^ 63 - 1 < d then None else Some (of_nat d))"

text \<open>A number of seconds.\<close>

lemma leadingInt_digits: "n \<le> 2 ^ 63 \<Longrightarrow> leadingInt 0 (digits n @ r) = leadingInt n r"
proof (induction n arbitrary: r rule: digits.induct)
  case (1 n)
  show ?case
  proof (cases "n < 10")
    case True
    then show ?thesis by (simp add: digits.simps [of n])
  next
    case False
    have "n div 10 \<le> 2 ^ 63" "n div 10 \<le> 2 ^ 63 div 10" "n div 10 * 10 + n mod 10 = n"
      using "1.prems" div_le_mono [of n "2 ^ 63" 10] by (simp_all add: order.trans [OF div_le_dividend])
    moreover from this have "922337203685477580 < n div 10 \<Longrightarrow> False" by simp
    ultimately show ?thesis using 1 False by (auto simp: digits.simps [of n])
  qed
qed

lemma digits_hd:
  obtains d ds where "digits n = digit d # ds" "d < 10"
  using digits_decimal [of n] by (cases "digits n") auto

lemma ParseDuration_seconds:
  assumes "n * 1000000000 < 2 ^ 63"
  shows "ParseDuration (digits n @ ''s'') = Some (of_nat (n * 1000000000))"
proof -
  obtain d ds where d: "digits n = digit d # ds" "d < 10" by (rule digits_hd)
  have n: "n \<le> 2 ^ 63" "\<not> 2 ^ 63 div 1000000000 < n" using assms by linarith+
  have lead: "leadingInt 0 (digits n @ ''s'') = Some (n, ''s'')"
    unfolding leadingInt_digits [OF n(1)] by (simp add: digit_value_def)
  have s: "unit_char CHR ''s''" "unitMap ''s'' = Some 1000000000" "\<not> unit_char (digit d)"
    using d(2) by (simp_all add: unit_char_def digit_value_def [of "CHR ''s''"] unitMap_def)
  have "duration_item (digits n @ ''s'') = Some (n * 1000000000, [])"
    using d lead s n(2) assms unfolding duration_item_def by (simp add: Let_def)
  then have "duration_loop 0 (digits n @ ''s'') = Some (n * 1000000000)"
    using assms d by (simp add: duration_loop.simps [of 0] duration_loop.simps [of _ "[]"] Let_def)
  moreover have "digits n @ ''s'' \<noteq> ''0''" "hd (digits n @ ''s'') \<noteq> CHR ''-''" "hd (digits n @ ''s'') \<noteq> CHR ''+''"
    using d digit_not_sign [of d] by simp_all
  ultimately show ?thesis
    using assms unfolding ParseDuration_def by (simp add: Let_def)
qed

lemmas duration_run = ParseDuration_def duration_loop.simps duration_item_def unit_char_def digit_value_def
  unitMap_def float64_of_def float64_ratio_def scaled_def round_even_def bits_pos

lemma ParseDuration_examples:
  "ParseDuration ''0s'' = Some 0" "ParseDuration ''500ms'' = Some 500000000" "ParseDuration ''-250ms'' = Some (- 250000000)"
  "ParseDuration ''1.5h'' = Some 5400000000000"
  "ParseDuration ''1m0.1s'' = Some 60100000000" "ParseDuration ''.s'' = None" "ParseDuration ''5'' = None"
  by (simp_all add: duration_run)

end
