(* ===== verification/Short_Invariant.thy ===== *)
theory Short_Invariant
  imports Short_Http
begin

text \<open>
  url-shortener: the write side as a whole. Every request of the API is a sequence of abstract steps
  on the store, and the steps keep the links and the event log consistent with one another.
\<close>

subsection \<open>Abstract steps\<close>

inductive store_step :: "store \<Rightarrow> store \<Rightarrow> bool" where
  created: "NewShortCode (code_String code) = Inr code \<Longrightarrow> \<not> code_taken (code_String code) st \<Longrightarrow>
    mt_event mt \<notin> log_ids st \<Longrightarrow> st_links st (mt_id mt) = None \<Longrightarrow>
    store_step st (creation mt code u st)"
| disabled: "st_links st i = Some r \<Longrightarrow> \<not> IsDisabled (sl_status r) \<Longrightarrow> eventID \<notin> log_ids st \<Longrightarrow>
    store_step st (disabling eventID i r u st)"
| clicked: "eventID \<notin> log_ids st \<Longrightarrow> store_step st (clicking eventID c st)"

abbreviation store_steps :: "store \<Rightarrow> store \<Rightarrow> bool" where
  "store_steps \<equiv> store_step\<^sup>*\<^sup>*"

lemma steps1: "store_step st st' \<Longrightarrow> store_steps st st'"
  by (rule r_into_rtranclp)

lemma disabled_steps:
  "st_links st i = Some r \<Longrightarrow> \<not> IsDisabled (sl_status r) \<Longrightarrow> eventID \<notin> log_ids st \<Longrightarrow>
     store_steps st (disabling eventID i r u st)"
  by (intro steps1 store_step.disabled)

lemma clicked_steps: "eventID \<notin> log_ids st \<Longrightarrow> store_steps st (clicking eventID c st)"
  by (intro steps1 store_step.clicked)

lemma lost_steps:
  assumes "lost u mts st st'" "set (map mt_id mts) \<inter> dom (st_links st) = {}" "distinct (map mt_id mts)"
  shows "store_steps st st'"
  using assms
proof (induction rule: lost.induct)
  case (lost_commit code st mt u mts st')
  have "store_step st (creation mt code u st)"
    using lost_commit.prems lost_commit.hyps by (intro store_step.created) auto
  moreover have "store_steps (creation mt code u st) st'"
  proof (rule lost_commit.IH)
    show "set (map mt_id mts) \<inter> dom (st_links (creation mt code u st)) = {}"
      using lost_commit.prems unfolding creation_links dom_fun_upd by auto
    show "distinct (map mt_id mts)" using lost_commit.prems by simp
  qed
  ultimately show ?case by (rule converse_rtranclp_into_rtranclp)
qed auto

text \<open>The ids a creation mints are new, as those of \<open>uuid.New\<close> are.\<close>

definition mints_fresh :: "(nat \<Rightarrow> minted) \<Rightarrow> store \<Rightarrow> bool" where
  "mints_fresh mint st \<longleftrightarrow> distinct (map (mt_id \<circ> mint) [0..<maxShortCodeAttempts])
     \<and> (\<forall>k < maxShortCodeAttempts. st_links st (mt_id (mint k)) = None)"

lemma mints_fresh_list:
  assumes "mints_fresh mint st"
  shows "set (map mt_id (map mint [0..<maxShortCodeAttempts])) \<inter> dom (st_links st) = {}"
    "distinct (map mt_id (map mint [0..<maxShortCodeAttempts]))"
  using assms by (auto simp: mints_fresh_def comp_def)

context write_side
begin

lemma CreateLink_steps:
  assumes "CreateLink_Handle repo gen mint url s = (res, s')" "mints_fresh mint (store s)"
  shows "store_steps (store s) (store s')"
proof (cases "NewURL url")
  case (Inl e)
  with assms show ?thesis by (simp add: CreateLink_Handle_def)
next
  case (Inr u)
  let ?mts = "map mint [0..<maxShortCodeAttempts]"
  note fresh = mints_fresh_list [OF assms(2)]
  from assms(1) Inr have loop: "create_loop repo gen u ?mts s = (res, s')" by (simp add: CreateLink_Handle_def)
  show ?thesis
  proof (cases res)
    case (Inl e)
    with create_loop_spec [OF loop] have "lost u ?mts (store s) (store s')" by simp
    then show ?thesis using fresh by (rule lost_steps)
  next
    case res: (Inr r)
    from create_loop_spec [OF loop] res obtain pre mt post st code where c: "?mts = pre @ mt # post"
      "lost u pre (store s) st" "NewShortCode (code_String code) = Inr code"
      "\<not> code_taken (code_String code) st" "mt_event mt \<notin> log_ids st" "store s' = creation mt code u st"
      by auto
    have pre: "set (map mt_id pre) \<inter> dom (st_links (store s)) = {}" "distinct (map mt_id pre)"
      using fresh unfolding c(1) by auto
    have "st_links st (mt_id mt) = None"
    proof (rule ccontr)
      assume "st_links st (mt_id mt) \<noteq> None"
      moreover have "st_links (store s) (mt_id mt) = None" using fresh(1) unfolding c(1) by auto
      ultimately have "mt_id mt \<in> mt_id ` set pre"
        using lost_extends [OF c(2) pre] by blast
      with fresh(2) show False unfolding c(1) by auto
    qed
    then have "store_step st (store s')" unfolding c(6) by (intro store_step.created c)
    with lost_steps [OF c(2) pre] show ?thesis by (rule rtranclp.rtrancl_into_rtrancl)
  qed
qed

end

context repository_port
begin

lemma DisableLink_steps:
  assumes "DisableLink_Handle repo eventID now short s = (res, s')"
  shows "store_steps (store s) (store s')"
proof -
  have "store s' = store s \<or> (\<exists>i r u. st_links (store s) i = Some r \<and> \<not> IsDisabled (sl_status r)
      \<and> eventID \<notin> log_ids (store s) \<and> store s' = disabling eventID i r u (store s))"
    using DisableLink_spec [OF assms] by (cases res) auto
  then show ?thesis by (auto intro: disabled_steps)
qed

end

context outbox_port
begin

lemma RecordClick_steps:
  assumes "RecordClick_Handle outbox agg eventID now short s = (res, s')"
  shows "store_steps (store s) (store s')"
  using RecordClick_spec [OF assms] by (cases res) (auto intro: clicked_steps)

end

subsection \<open>Consistency of links and log\<close>

text \<open>
  The lifecycle facts of a code are a creation, then a disabling if the link is disabled; there are
  none for a code without a link. The version counts them.
\<close>

definition lifecycle_types :: "LinkStatus \<Rightarrow> string list" where
  "lifecycle_types s =
     (if IsDisabled s then [EventTypeLinkCreated, EventTypeLinkDisabled] else [EventTypeLinkCreated])"

definition link_consistent :: "stored \<Rightarrow> fact list \<Rightarrow> bool" where
  "link_consistent r log \<longleftrightarrow>
     sl_status r \<in> {StatusActive, StatusDisabled}
     \<and> NewShortCode (sl_code r) = Inr (ShortCode (sl_code r))
     \<and> map f_type (lifecycle_of (sl_code r) log) = lifecycle_types (sl_status r)
     \<and> sl_version r = int (length (lifecycle_of (sl_code r) log))
     \<and> (\<not> IsDisabled (sl_status r) \<longrightarrow> f_url (hd (lifecycle_of (sl_code r) log)) = to_valid (sl_url r))"

lemma link_consistent_cong:
  "lifecycle_of (sl_code r) log = lifecycle_of (sl_code r) log' \<Longrightarrow> link_consistent r log = link_consistent r log'"
  by (simp add: link_consistent_def)

definition consistent :: "store \<Rightarrow> bool" where
  "consistent st \<longleftrightarrow> store_ok st
     \<and> (\<forall>c. \<not> code_taken c st \<longrightarrow> lifecycle_of c (st_log st) = [])
     \<and> (\<forall>i r. st_links st i = Some r \<longrightarrow> link_consistent r (st_log st))"

lemma consistent_empty [simp]: "consistent \<lparr>st_links = Map.empty, st_log = []\<rparr>"
  by (simp add: consistent_def lifecycle_of_def)

lemma valid_code_ascii: "NewShortCode c = Inr code \<Longrightarrow> ascii c"
proof -
  have "ascii shortCodeAlphabet" by (simp add: shortCodeAlphabet_def ascii_def)
  moreover assume "NewShortCode c = Inr code"
  ultimately show ?thesis by (auto simp: NewShortCode_Inr ascii_def)
qed

lemma valid_code_to_valid: "NewShortCode c = Inr code \<Longrightarrow> to_valid c = c"
  using valid_code_ascii by simp

lemma store_ok_snoc:
  assumes "store_ok st" "i \<notin> log_ids st" "st_links st' = st_links st" "st_log st' = st_log st @ [f]" "f_id f = i"
  shows "store_ok st'"
  using assms by (auto simp: store_ok_def log_ids_def)

lemma lifecycle_snoc:
  "lifecycle_of c (fs @ [f]) = lifecycle_of c fs @ (if is_lifecycle f \<and> f_code f = c then [f] else [])"
  by (simp add: lifecycle_of_def)

lemma event_type_facts [simp]:
  "is_lifecycle (disabled_fact e c)" "f_code (disabled_fact e c) = to_valid c"
  "f_type (disabled_fact e c) = EventTypeLinkDisabled" "f_id (disabled_fact e c) = e"
  "\<not> is_lifecycle (clicked_fact e c)" "f_id (clicked_fact e c) = e"
  by (simp_all add: disabled_fact_def clicked_fact_def is_lifecycle_def)

lemma taken_update:
  "st_links st' = (st_links st)(i \<mapsto> r) \<Longrightarrow> st_links st i = None \<or> (\<exists>q. st_links st i = Some q \<and> sl_code q = sl_code r) \<Longrightarrow>
     code_taken c st' \<longleftrightarrow> code_taken c st \<or> c = sl_code r"
  by (auto simp: code_taken_def split: if_splits) (metis option.distinct(1) option.inject)+

lemma consistent_step:
  assumes "store_step st st'" "consistent st"
  shows "consistent st'"
  using assms
proof (induction rule: store_step.induct)
  case (created code st mt u)
  let ?c = "code_String code" and ?st = "creation mt code u st"
  let ?r = "\<lparr>sl_code = ?c, sl_url = url_String u, sl_status = StatusActive, sl_version = 1\<rparr>"
  let ?f = "\<lparr>f_id = mt_event mt, f_type = EventTypeLinkCreated, f_code = to_valid ?c, f_url = to_valid (url_String u)\<rparr>"
  have vc: "to_valid ?c = ?c" "NewShortCode ?c = Inr (ShortCode ?c)"
    using created valid_code_to_valid by (auto simp: NewShortCode_Inr)
  have log: "lifecycle_of d (st_log ?st) = lifecycle_of d (st_log st) @ (if d = ?c then [?f] else [])" for d
    by (simp add: lifecycle_snoc is_lifecycle_def vc(1))
  have none: "lifecycle_of ?c (st_log st) = []" using created by (simp add: consistent_def)
  have ok: "store_ok ?st"
    using created unfolding creation_def
    by (intro store_ok_saved)
      (auto simp: consistent_def ids_fresh_def new_link_def EventID_def newBaseEvent_def code_free_def code_taken_def)
  have taken: "code_taken d ?st \<longleftrightarrow> code_taken d st \<or> d = ?c" for d
    using taken_update [of ?st st "mt_id mt" ?r d] created by simp
  show ?case
    unfolding consistent_def
  proof (intro conjI allI impI)
    show "store_ok ?st" by (rule ok)
    show "lifecycle_of d (st_log ?st) = []" if "\<not> code_taken d ?st" for d
      using that created unfolding log taken by (simp add: consistent_def)
    show "link_consistent r (st_log ?st)" if r: "st_links ?st i = Some r" for i r
    proof (cases "i = mt_id mt")
      case True
      with r have "r = ?r" by simp
      then show ?thesis
        unfolding link_consistent_def log using none vc by (simp add: lifecycle_types_def)
    next
      case False
      with r have old: "st_links st i = Some r" by simp
      then have "sl_code r \<noteq> ?c" using created by (auto simp: code_taken_def)
      then have eq: "lifecycle_of (sl_code r) (st_log ?st) = lifecycle_of (sl_code r) (st_log st)"
        unfolding log by simp
      show ?thesis unfolding link_consistent_cong [OF eq] using created old by (simp add: consistent_def)
    qed
  qed
next
  case (disabled st i r e u)
  let ?r = "r\<lparr>sl_url := url_String u, sl_status := StatusDisabled, sl_version := sl_version r + 1\<rparr>"
  let ?st = "disabling e i r u st"
  have lr: "link_consistent r (st_log st)" using disabled by (simp add: consistent_def)
  then have vc: "to_valid (sl_code r) = sl_code r" using valid_code_to_valid by (auto simp: link_consistent_def)
  have log: "lifecycle_of d (st_log ?st) = lifecycle_of d (st_log st)
      @ (if d = sl_code r then [disabled_fact e (sl_code r)] else [])" for d
    by (simp add: lifecycle_snoc vc)
  have uniq: "j = i" if "st_links st j = Some q" "sl_code q = sl_code r" for j q
    using disabled that by (auto simp: consistent_def store_ok_def)
  have ok: "store_ok ?st"
    using disabled uniq by (auto simp: consistent_def store_ok_def log_ids_def)
  have taken: "code_taken d ?st \<longleftrightarrow> code_taken d st \<or> d = sl_code r" for d
    using taken_update [of ?st st i ?r d] disabled by simp
  show ?case
    unfolding consistent_def
  proof (intro conjI allI impI)
    show "store_ok ?st" by (rule ok)
    show "lifecycle_of d (st_log ?st) = []" if "\<not> code_taken d ?st" for d
      using that disabled unfolding log taken by (simp add: consistent_def)
    show "link_consistent q (st_log ?st)" if q: "st_links ?st j = Some q" for j q
    proof (cases "j = i")
      case True
      with q have "q = ?r" by simp
      then show ?thesis
        unfolding link_consistent_def log using lr disabled by (simp add: link_consistent_def lifecycle_types_def)
    next
      case False
      with q have old: "st_links st j = Some q" by simp
      then have "sl_code q \<noteq> sl_code r" using uniq False by blast
      then have eq: "lifecycle_of (sl_code q) (st_log ?st) = lifecycle_of (sl_code q) (st_log st)"
        unfolding log by simp
      show ?thesis unfolding link_consistent_cong [OF eq] using disabled old by (simp add: consistent_def)
    qed
  qed
next
  case (clicked e st c)
  let ?st = "clicking e c st"
  have log: "lifecycle_of d (st_log ?st) = lifecycle_of d (st_log st)" for d
    by (simp add: lifecycle_snoc)
  have "store_ok ?st"
  proof (rule store_ok_snoc [where st = st and i = e and f = "clicked_fact e c"])
    show "store_ok st" using clicked by (simp add: consistent_def)
    show "e \<notin> log_ids st" by (rule clicked)
  qed simp_all
  moreover have "lifecycle_of d (st_log ?st) = []" if "\<not> code_taken d ?st" for d
    using that clicked unfolding log by (simp add: consistent_def code_taken_def)
  moreover have "link_consistent r (st_log ?st)" if "st_links ?st i = Some r" for i r
    using that clicked unfolding link_consistent_cong [OF log] by (simp add: consistent_def)
  ultimately show ?case unfolding consistent_def by blast
qed

lemma consistent_steps: "store_steps st st' \<Longrightarrow> consistent st \<Longrightarrow> consistent st'"
  by (induction rule: rtranclp_induct) (auto intro: consistent_step)

text \<open>The active link of a code, and its destination as a message carries it.\<close>

definition resolves :: "store \<Rightarrow> string \<Rightarrow> string \<Rightarrow> bool" where
  "resolves st c u \<longleftrightarrow> (\<exists>i r. st_links st i = Some r \<and> sl_code r = c
     \<and> \<not> IsDisabled (sl_status r) \<and> to_valid (sl_url r) = u)"

text \<open>The log of a consistent store, projected in order, resolves exactly the active links.\<close>

lemma consistent_resolution:
  assumes "consistent st"
  shows "v_links (fst (project_all (st_log st) (\<lparr>v_links = Map.empty, v_clicks = k\<rparr>, an))) c = Some u
    \<longleftrightarrow> resolves st c u"
proof (cases "code_taken c st")
  case False
  then have "lifecycle_of c (st_log st) = []" using assms by (simp add: consistent_def)
  with False show ?thesis by (auto simp: project_all_links code_taken_def resolves_def)
next
  case True
  then obtain i r where r: "st_links st i = Some r" "sl_code r = c" by (auto simp: code_taken_def)
  have uniq: "q = r" if "st_links st j = Some q" "sl_code q = c" for j q
  proof -
    have "j = i" using assms r that by (auto simp: consistent_def store_ok_def)
    with r that show ?thesis by simp
  qed
  have lc: "link_consistent r (st_log st)" using assms r by (simp add: consistent_def)
  show ?thesis
  proof (cases "IsDisabled (sl_status r)")
    case True
    with lc r have "map f_type (lifecycle_of c (st_log st)) = [EventTypeLinkCreated, EventTypeLinkDisabled]"
      by (simp add: link_consistent_def lifecycle_types_def)
    then obtain f g where "lifecycle_of c (st_log st) = [f, g]" "f_type g = EventTypeLinkDisabled" by auto
    then have "v_links (fst (project_all (st_log st) (\<lparr>v_links = Map.empty, v_clicks = k\<rparr>, an))) c = None"
      by (simp add: project_all_links resolution_def)
    moreover have "\<not> (\<exists>j q. st_links st j = Some q \<and> sl_code q = c \<and> \<not> IsDisabled (sl_status q)
        \<and> to_valid (sl_url q) = u)"
      using True uniq by metis
    ultimately show ?thesis by (simp add: resolves_def)
  next
    case False
    with lc r have "map f_type (lifecycle_of c (st_log st)) = [EventTypeLinkCreated]"
      "f_url (hd (lifecycle_of c (st_log st))) = to_valid (sl_url r)"
      by (simp_all add: link_consistent_def lifecycle_types_def)
    then obtain f where "lifecycle_of c (st_log st) = [f]" "f_type f = EventTypeLinkCreated"
      "f_url f = to_valid (sl_url r)" by auto
    then have "v_links (fst (project_all (st_log st) (\<lparr>v_links = Map.empty, v_clicks = k\<rparr>, an))) c
        = Some (to_valid (sl_url r))"
      by (simp add: project_all_links resolution_def)
    moreover have "(\<exists>j q. st_links st j = Some q \<and> sl_code q = c \<and> \<not> IsDisabled (sl_status q)
        \<and> to_valid (sl_url q) = u) \<longleftrightarrow> to_valid (sl_url r) = u"
      using False uniq r by metis
    ultimately show ?thesis by (simp add: resolves_def)
  qed
qed

end
