(* ===== verification/Short_Memory.thy ===== *)
theory Short_Memory
  imports Short_Http "HOL-Library.AList"
begin

text \<open>
  url-shortener: an executable world in which the whole system runs, a database, a key-value store,
  a stream and a source of random draws in memory. Every call consumes one entry of a schedule of
  faults and fails when it is \<open>True\<close>: a failed statement has done nothing, a failed commit and a
  failed publication have been done. All contracts of the development are interpreted on it.
\<close>

record mem =
  m_links :: "linkModel list"
  m_outbox :: "outboxModel list"
  m_analytics :: "analyticsModel list"
  m_processed :: "(uuid \<times> time) list"
  m_kv :: "(string \<times> string) list"
  m_stream :: "bus_msg list"
  m_rand :: "int list list"
  m_faults :: "bool list"

definition empty_mem :: mem where
  "empty_mem = \<lparr>m_links = [], m_outbox = [], m_analytics = [], m_processed = [], m_kv = [],
     m_stream = [], m_rand = [], m_faults = []\<rparr>"

definition faulty :: "'a \<Rightarrow> (mem \<Rightarrow> 'a \<times> mem) \<Rightarrow> mem \<Rightarrow> 'a \<times> mem" where
  "faulty fail f s =
     (case m_faults s of
        [] \<Rightarrow> f s
      | b # bs \<Rightarrow> if b then (fail, s\<lparr>m_faults := bs\<rparr>) else f (s\<lparr>m_faults := bs\<rparr>))"

lemma faulty_cases:
  assumes "faulty fail f s = (r, s')"
  obtains (fault) bs where "r = fail" "s' = s\<lparr>m_faults := bs\<rparr>"
    | (run) bs where "f (s\<lparr>m_faults := bs\<rparr>) = (r, s')"
proof (cases "m_faults s")
  case Nil
  then have same: "s\<lparr>m_faults := []\<rparr> = s" by (cases s) simp
  have "f s = (r, s')" using Nil assms by (simp add: faulty_def)
  then have "f (s\<lparr>m_faults := []\<rparr>) = (r, s')" unfolding same .
  then show thesis by (rule run)
next
  case (Cons b bs)
  show thesis
  proof (cases b)
    case True
    with Cons assms have "r = fail" "s' = s\<lparr>m_faults := bs\<rparr>" by (simp_all add: faulty_def)
    then show thesis by (rule fault)
  next
    case False
    with Cons assms have "f (s\<lparr>m_faults := bs\<rparr>) = (r, s')" by (simp add: faulty_def)
    then show thesis by (rule run)
  qed
qed

subsection \<open>Rows by key\<close>

definition keyed :: "('a \<Rightarrow> 'k) \<Rightarrow> 'a list \<Rightarrow> ('k \<times> 'a) list" where
  "keyed k xs = map (\<lambda>x. (k x, x)) xs"

definition live :: "('a \<Rightarrow> 'k) \<Rightarrow> 'a list \<Rightarrow> 'a list" where
  "live k xs = map snd (AList.clearjunk (keyed k xs))"

lemma map_of_keyed: "map_of (keyed k xs) i = Some x \<Longrightarrow> x \<in> set xs \<and> i = k x"
  by (drule map_of_SomeD) (auto simp: keyed_def)

lemma clearjunk_keyed: "(i, x) \<in> set (AList.clearjunk (keyed k xs)) \<Longrightarrow> i = k x"
  unfolding graph_map_of [symmetric] by (drule in_graphD) (simp add: map_of_keyed)

lemma keyed_live: "map (\<lambda>x. (k x, x)) (live k xs) = AList.clearjunk (keyed k xs)"
  unfolding live_def map_map by (rule map_idI) (auto dest: clearjunk_keyed)

lemma live_iteration: "is_iteration (map_of (keyed k xs)) (map (\<lambda>x. (k x, x)) (live k xs))"
  by (simp only: is_iteration_def keyed_live distinct_clearjunk map_of_clearjunk simp_thms)

lemma set_live: "set (live k xs) = ran (map_of (keyed k xs))"
  using is_iteration_set [OF live_iteration [of k xs]] by (force simp: ran_def)

lemma map_of_keyed_Cons: "map_of (keyed k (x # xs)) = (map_of (keyed k xs))(k x \<mapsto> x)"
  by (simp add: keyed_def)

lemma live_mem: "x \<in> set (live k xs) \<Longrightarrow> map_of (keyed k xs) (k x) = Some x"
  using is_iteration_mem [OF live_iteration [of k xs], of "k x" x] by auto

subsection \<open>The database\<close>

definition micro :: "time \<Rightarrow> time" where
  "micro t = t - t mod 1000"

definition mem_tables :: "mem \<Rightarrow> tables" where
  "mem_tables s =
     \<lparr>t_links = map_of (keyed lm_ID (m_links s)), t_outbox = m_outbox s,
      t_analytics = map_of (keyed am_ShortCode (m_analytics s)), t_processed = map_of (m_processed s)\<rparr>"

lemma mem_tables_other [simp]:
  "mem_tables (s\<lparr>m_faults := bs\<rparr>) = mem_tables s" "mem_tables (s\<lparr>m_kv := k\<rparr>) = mem_tables s"
  "mem_tables (s\<lparr>m_stream := ms\<rparr>) = mem_tables s" "mem_tables (s\<lparr>m_rand := rs\<rparr>) = mem_tables s"
  by (simp_all add: mem_tables_def)

definition mem_Transaction ::
  "(mem \<Rightarrow> (app_error + int) \<times> mem) \<Rightarrow> mem \<Rightarrow> (app_error + int) \<times> mem" where
  "mem_Transaction body =
     faulty (Inl (ErrInfra ''begin'')) (\<lambda>s.
       case body s of
         (Inl e, s1) \<Rightarrow> (Inl e, s\<lparr>m_faults := m_faults s1\<rparr>)
       | (Inr n, s1) \<Rightarrow>
           (case m_faults s1 of
              [] \<Rightarrow> (Inr n, s1)
            | b # bs \<Rightarrow> (if b then Inl (ErrInfra ''commit'') else Inr n, s1\<lparr>m_faults := bs\<rparr>)))"

definition mem_SaveLink :: "linkModel \<Rightarrow> mem \<Rightarrow> string option \<times> mem" where
  "mem_SaveLink m =
     faulty (Some ''save'') (\<lambda>s.
       if list_ex (\<lambda>r. lm_ShortCode r = lm_ShortCode m \<and> lm_ID r \<noteq> lm_ID m) (m_links s)
       then (Some ''unique'', s)
       else (None, s\<lparr>m_links := m\<lparr>lm_CreatedAt := micro (lm_CreatedAt m)\<rparr> # m_links s\<rparr>))"

definition mem_FirstLink :: "string \<Rightarrow> mem \<Rightarrow> (string + linkModel option) \<times> mem" where
  "mem_FirstLink c =
     faulty (Inl ''first'') (\<lambda>s. (Inr (find (\<lambda>r. lm_ShortCode r = c) (live lm_ID (m_links s))), s))"

definition mem_CountLinks :: "string \<Rightarrow> mem \<Rightarrow> (string + int) \<times> mem" where
  "mem_CountLinks c =
     faulty (Inl ''count'')
       (\<lambda>s. (Inr (int (length (filter (\<lambda>r. lm_ShortCode r = c) (live lm_ID (m_links s))))), s))"

definition mem_FindLinks :: "mem \<Rightarrow> (string + linkModel list) \<times> mem" where
  "mem_FindLinks = faulty (Inl ''find'') (\<lambda>s. (Inr (live lm_ID (m_links s)), s))"

definition next_seq :: "outboxModel list \<Rightarrow> int" where
  "next_seq rs = foldr (\<lambda>r. max (om_Seq r)) rs 0 + 1"

lemma next_seq: "r \<in> set rs \<Longrightarrow> om_Seq r < next_seq rs"
  unfolding next_seq_def by (induction rs) auto

definition mem_CreateOutbox :: "outboxModel \<Rightarrow> mem \<Rightarrow> string option \<times> mem" where
  "mem_CreateOutbox r =
     faulty (Some ''create'') (\<lambda>s.
       if list_ex (\<lambda>q. om_ID q = om_ID r) (m_outbox s) then (Some ''unique'', s)
       else (None, s\<lparr>m_outbox := m_outbox s
         @ [r\<lparr>om_Seq := next_seq (m_outbox s), om_OccurredAt := micro (om_OccurredAt r)\<rparr>]\<rparr>))"

definition mem_FindUnpublished :: "int \<Rightarrow> mem \<Rightarrow> (string + outboxModel list) \<times> mem" where
  "mem_FindUnpublished limit =
     faulty (Inl ''find'') (\<lambda>s. (Inr (take (nat limit) (filter is_unpublished (m_outbox s))), s))"

definition mem_UpdatePublished :: "int list \<Rightarrow> time \<Rightarrow> mem \<Rightarrow> string option \<times> mem" where
  "mem_UpdatePublished seqs now =
     faulty (Some ''update'') (\<lambda>s. (None, s\<lparr>m_outbox := map (publish_row micro now seqs) (m_outbox s)\<rparr>))"

definition mem_CreateProcessed :: "processedEventModel \<Rightarrow> mem \<Rightarrow> (string + int) \<times> mem" where
  "mem_CreateProcessed p =
     faulty (Inl ''create'') (\<lambda>s.
       if map_of (m_processed s) (pm_EventID p) \<noteq> None then (Inr 0, s)
       else (Inr 1, s\<lparr>m_processed := (pm_EventID p, micro (pm_ProcessedAt p)) # m_processed s\<rparr>))"

definition mem_UpsertAnalytics :: "analyticsModel \<Rightarrow> time \<Rightarrow> mem \<Rightarrow> string option \<times> mem" where
  "mem_UpsertAnalytics a at =
     faulty (Some ''upsert'') (\<lambda>s.
       (None, s\<lparr>m_analytics :=
          (case map_of (keyed am_ShortCode (m_analytics s)) (am_ShortCode a) of
             None \<Rightarrow> a\<lparr>am_LastClickedAt := map_option micro (am_LastClickedAt a)\<rparr>
           | Some r \<Rightarrow> r\<lparr>am_ClickCount := am_ClickCount r + 1, am_LastClickedAt := Some (micro at)\<rparr>)
          # m_analytics s\<rparr>))"

definition mem_FirstAnalytics :: "string \<Rightarrow> mem \<Rightarrow> (string + analyticsModel option) \<times> mem" where
  "mem_FirstAnalytics c =
     faulty (Inl ''first'') (\<lambda>s.
       (case map_of (keyed am_ShortCode (m_analytics s)) c of
          None \<Rightarrow> (Inr None, s)
        | Some a \<Rightarrow> if int64 (am_ClickCount a) then (Inr (Some a), s) else (Inl ''bigint'', s)))"

definition mem_FindAnalytics :: "mem \<Rightarrow> (string + analyticsModel list) \<times> mem" where
  "mem_FindAnalytics =
     faulty (Inl ''find'') (\<lambda>s.
       let rs = live am_ShortCode (m_analytics s) in
       if list_all (\<lambda>a. int64 (am_ClickCount a)) rs then (Inr rs, s) else (Inl ''bigint'', s))"

definition mem_pg :: "mem gorm" where
  "mem_pg =
     \<lparr>gTransaction = mem_Transaction, gSaveLink = mem_SaveLink, gFirstLink = mem_FirstLink,
      gCountLinks = mem_CountLinks, gFindLinks = mem_FindLinks, gCreateOutbox = mem_CreateOutbox,
      gFindUnpublished = mem_FindUnpublished, gUpdatePublished = mem_UpdatePublished,
      gCreateProcessed = mem_CreateProcessed, gUpsertAnalytics = mem_UpsertAnalytics,
      gFirstAnalytics = mem_FirstAnalytics, gFindAnalytics = mem_FindAnalytics\<rparr>"

lemma mem_Transaction_outcome:
  assumes "mem_Transaction body s = (res, s')"
  shows "transaction_outcome mem_tables body s res s'"
proof -
  consider (fault) bs where "res = Inl (ErrInfra ''begin'')" "s' = s\<lparr>m_faults := bs\<rparr>"
    | (run) bs where "(case body (s\<lparr>m_faults := bs\<rparr>) of
         (Inl e, s1) \<Rightarrow> (Inl e, (s\<lparr>m_faults := bs\<rparr>)\<lparr>m_faults := m_faults s1\<rparr>)
       | (Inr n, s1) \<Rightarrow>
           (case m_faults s1 of
              [] \<Rightarrow> (Inr n, s1)
            | b # bs \<Rightarrow> (if b then Inl (ErrInfra ''commit'') else Inr n, s1\<lparr>m_faults := bs\<rparr>))) = (res, s')"
    using assms unfolding mem_Transaction_def by (rule faulty_cases)
  then show ?thesis
  proof cases
    case fault
    then show ?thesis by (simp add: transaction_outcome_def)
  next
    case (run bs)
    obtain r s1 where b: "body (s\<lparr>m_faults := bs\<rparr>) = (r, s1)" by (cases "body (s\<lparr>m_faults := bs\<rparr>)")
    have s0: "mem_tables (s\<lparr>m_faults := bs\<rparr>) = mem_tables s" by simp
    show ?thesis
    proof (cases r)
      case (Inl e)
      with run b have "res = Inl e" "mem_tables s' = mem_tables s" by auto
      then show ?thesis using b Inl s0 unfolding transaction_outcome_def by blast
    next
      case (Inr n)
      with run b have "mem_tables s' = mem_tables s1" "res = Inr n \<or> (\<exists>e. res = Inl e \<and> is_infra e)"
        by (auto split: list.splits if_splits)
      then show ?thesis using b Inr s0 unfolding transaction_outcome_def by blast
    qed
  qed
qed

lemma mem_pg_sel [simp]:
  "gTransaction mem_pg = mem_Transaction" "gSaveLink mem_pg = mem_SaveLink"
  "gFirstLink mem_pg = mem_FirstLink" "gCountLinks mem_pg = mem_CountLinks"
  "gFindLinks mem_pg = mem_FindLinks" "gCreateOutbox mem_pg = mem_CreateOutbox"
  "gFindUnpublished mem_pg = mem_FindUnpublished" "gUpdatePublished mem_pg = mem_UpdatePublished"
  "gCreateProcessed mem_pg = mem_CreateProcessed" "gUpsertAnalytics mem_pg = mem_UpsertAnalytics"
  "gFirstAnalytics mem_pg = mem_FirstAnalytics" "gFindAnalytics mem_pg = mem_FindAnalytics"
  by (simp_all add: mem_pg_def)

interpretation mem_db: postgres mem_pg mem_tables micro
proof
  fix body and s s' :: mem and res
  assume "gTransaction mem_pg body s = (res, s')"
  then show "transaction_outcome mem_tables body s res s'"
    by (intro mem_Transaction_outcome) (simp add: mem_pg_def)
next
  fix m s s'
  assume "gSaveLink mem_pg m s = (None, s')"
  then have "mem_SaveLink m s = (None, s')" by simp
  then show "(\<forall>i r. t_links (mem_tables s) i = Some r \<and> lm_ShortCode r = lm_ShortCode m \<longrightarrow> i = lm_ID m)
      \<and> mem_tables s' = tab_save_link micro m (mem_tables s)"
    unfolding mem_SaveLink_def
    by (rule faulty_cases)
      (auto simp: mem_tables_def tab_save_link_def map_of_keyed_Cons list_ex_iff split: if_splits
        dest!: map_of_keyed)
next
  fix c s first s'
  assume "gFirstLink mem_pg c s = (first, s')"
  then have "mem_FirstLink c s = (first, s')" by simp
  then show "mem_tables s' = mem_tables s \<and>
      (case first of Inl e \<Rightarrow> True
       | Inr None \<Rightarrow> \<not> (\<exists>i r. t_links (mem_tables s) i = Some r \<and> lm_ShortCode r = c)
       | Inr (Some m) \<Rightarrow> t_links (mem_tables s) (lm_ID m) = Some m \<and> lm_ShortCode m = c)"
    unfolding mem_FirstLink_def
  proof (rule faulty_cases)
    fix bs
    assume "(Inr (find (\<lambda>r. lm_ShortCode r = c) (live lm_ID (m_links (s\<lparr>m_faults := bs\<rparr>)))), s\<lparr>m_faults := bs\<rparr>) = (first, s')"
    then have f: "first = Inr (find (\<lambda>r. lm_ShortCode r = c) (live lm_ID (m_links s)))"
      "mem_tables s' = mem_tables s" by auto
    show ?thesis
    proof (cases "find (\<lambda>r. lm_ShortCode r = c) (live lm_ID (m_links s))")
      case None
      with f show ?thesis by (auto simp: find_None_iff set_live ran_def mem_tables_def)
    next
      case (Some m)
      then have "m \<in> set (live lm_ID (m_links s))" "lm_ShortCode m = c" by (auto simp: find_Some_iff)
      with Some f show ?thesis by (auto dest: live_mem simp: mem_tables_def)
    qed
  qed auto
next
  fix c s count s'
  assume "gCountLinks mem_pg c s = (count, s')"
  then have "mem_CountLinks c s = (count, s')" by simp
  then show "mem_tables s' = mem_tables s \<and>
      (case count of Inl e \<Rightarrow> True
       | Inr n \<Rightarrow> 0 < n \<longleftrightarrow> (\<exists>i r. t_links (mem_tables s) i = Some r \<and> lm_ShortCode r = c))"
    unfolding mem_CountLinks_def
    by (rule faulty_cases) (force simp: mem_tables_def filter_empty_conv set_live ran_def)+
next
  fix s links s'
  assume "gFindLinks mem_pg s = (links, s')"
  then have "mem_FindLinks s = (links, s')" by simp
  then show "mem_tables s' = mem_tables s \<and>
      (case links of Inl e \<Rightarrow> True | Inr ms \<Rightarrow> set ms = ran (t_links (mem_tables s)))"
    unfolding mem_FindLinks_def by (rule faulty_cases) (auto simp: mem_tables_def set_live)
next
  fix r s s'
  assume "gCreateOutbox mem_pg r s = (None, s')"
  then have "mem_CreateOutbox r s = (None, s')" by simp
  then show "\<exists>seq. (\<forall>q \<in> set (t_outbox (mem_tables s)). om_Seq q < seq \<and> om_ID q \<noteq> om_ID r)
        \<and> mem_tables s' = tab_create_outbox micro seq r (mem_tables s)"
    unfolding mem_CreateOutbox_def
    by (rule faulty_cases)
      (auto simp: mem_tables_def tab_create_outbox_def list_ex_iff next_seq split: if_splits
        intro!: exI [of _ "next_seq (m_outbox s)"])
next
  fix limit s rows s'
  assume "gFindUnpublished mem_pg limit s = (rows, s')"
  then have "mem_FindUnpublished limit s = (rows, s')" by simp
  then show "mem_tables s' = mem_tables s \<and>
      (case rows of Inl e \<Rightarrow> True
       | Inr rs \<Rightarrow> 0 < limit \<longrightarrow> rs = take (nat limit) (filter is_unpublished (t_outbox (mem_tables s))))"
    unfolding mem_FindUnpublished_def by (rule faulty_cases) (auto simp: mem_tables_def)
next
  fix seqs now s upd s'
  assume "gUpdatePublished mem_pg seqs now s = (upd, s')"
  then have "mem_UpdatePublished seqs now s = (upd, s')" by simp
  then show "mem_tables s' = tab_publish micro now seqs (mem_tables s) \<or> upd \<noteq> None \<and> mem_tables s' = mem_tables s"
    unfolding mem_UpdatePublished_def by (rule faulty_cases) (auto simp: mem_tables_def tab_publish_def)
next
  fix pe s n s'
  assume "gCreateProcessed mem_pg pe s = (Inr n, s')"
  then have "mem_CreateProcessed pe s = (Inr n, s')" by simp
  then show "(n, mem_tables s') = tab_create_processed micro pe (mem_tables s)"
    unfolding mem_CreateProcessed_def
    by (rule faulty_cases) (auto simp: mem_tables_def tab_create_processed_def split: if_splits)
next
  fix a at s s'
  assume "gUpsertAnalytics mem_pg a at s = (None, s')"
  then have "mem_UpsertAnalytics a at s = (None, s')" by simp
  then show "mem_tables s' = tab_upsert_analytics micro a at (mem_tables s)"
    unfolding mem_UpsertAnalytics_def
    by (rule faulty_cases)
      (auto simp: mem_tables_def tab_upsert_analytics_def map_of_keyed_Cons split: option.splits dest: map_of_keyed)
next
  fix c s counter s'
  assume "gFirstAnalytics mem_pg c s = (counter, s')"
  then have "mem_FirstAnalytics c s = (counter, s')" by simp
  then show "mem_tables s' = mem_tables s \<and>
      (case counter of Inl e \<Rightarrow> True
       | Inr None \<Rightarrow> t_analytics (mem_tables s) c = None
       | Inr (Some a) \<Rightarrow> t_analytics (mem_tables s) c = Some a \<and> int64 (am_ClickCount a))"
    unfolding mem_FirstAnalytics_def
    by (rule faulty_cases) (auto simp: mem_tables_def split: option.splits if_splits)
next
  fix s counters s'
  assume "gFindAnalytics mem_pg s = (counters, s')"
  then have "mem_FindAnalytics s = (counters, s')" by simp
  then show "mem_tables s' = mem_tables s \<and>
      (case counters of Inl e \<Rightarrow> True
       | Inr rs \<Rightarrow> is_iteration (t_analytics (mem_tables s)) (map (\<lambda>a. (am_ShortCode a, a)) rs)
           \<and> (\<forall>a \<in> set rs. int64 (am_ClickCount a)))"
    unfolding mem_FindAnalytics_def Let_def
    by (rule faulty_cases) (auto simp: mem_tables_def live_iteration list_all_iff split: if_splits)
qed

subsection \<open>The key-value store and the stream\<close>

definition mem_kv :: "mem \<Rightarrow> (string \<rightharpoonup> string)" where
  "mem_kv s = map_of (m_kv s)"

definition mem_redis :: "mem redis" where
  "mem_redis =
     \<lparr>kGet = (\<lambda>k. faulty (Inl ''get'') (\<lambda>s. (Inr (map_of (m_kv s) k), s))),
      kExists = (\<lambda>k. faulty (Inl ''exists'') (\<lambda>s. (Inr (if map_of (m_kv s) k = None then 0 else 1), s))),
      kSet = (\<lambda>k v. faulty (Some ''set'') (\<lambda>s. (None, s\<lparr>m_kv := AList.update k v (m_kv s)\<rparr>))),
      kDel = (\<lambda>k. faulty (Some ''del'') (\<lambda>s. (None, s\<lparr>m_kv := AList.delete k (m_kv s)\<rparr>)))\<rparr>"

text \<open>A fault of the publication is a lost acknowledgement: the message is stored.\<close>

definition mem_store_msg :: "bus_msg \<Rightarrow> mem \<Rightarrow> mem" where
  "mem_store_msg m s =
     (if list_ex (\<lambda>q. bm_id q = bm_id m) (m_stream s) then s else s\<lparr>m_stream := m_stream s @ [m]\<rparr>)"

definition mem_bus :: "mem Publisher" where
  "mem_bus =
     \<lparr>pPublish = (\<lambda>subj data i s.
        let m = \<lparr>bm_subject = subj, bm_data = data, bm_id = i\<rparr> in
        (case m_faults s of
           [] \<Rightarrow> (None, mem_store_msg m s)
         | b # bs \<Rightarrow> (if b then Some (ErrInfra ''ack'') else None, mem_store_msg m (s\<lparr>m_faults := bs\<rparr>))))\<rparr>"

text \<open>The generator of short codes on recorded draws.\<close>

definition mem_gen :: "mem \<Rightarrow> (app_error + ShortCode) \<times> mem" where
  "mem_gen s =
     (case m_rand s of
        [] \<Rightarrow> (Inl (ErrInfra ''rand''), s)
      | ds # dss \<Rightarrow>
          (case GenerateShortCode (\<lambda>i. if i < length ds \<and> 0 \<le> ds ! i \<and> ds ! i < 62 then Inr (ds ! i)
             else Inl (ErrInfra ''rand'')) of
             Panic p \<Rightarrow> (Inl (ErrInfra ''panic''), s\<lparr>m_rand := dss\<rparr>)
           | Ret r \<Rightarrow> (r, s\<lparr>m_rand := dss\<rparr>)))"

lemma keeps_faulty:
  assumes "\<And>s bs. f (s\<lparr>m_faults := bs\<rparr>) = f s" and "\<And>s. f (snd (m s)) = f s"
  shows "keeps f (faulty fail m)"
proof (rule keepsI)
  fix s r s'
  assume "faulty fail m s = (r, s')"
  then show "f s' = f s"
  proof (rule faulty_cases)
    fix bs assume "m (s\<lparr>m_faults := bs\<rparr>) = (r, s')"
    with assms(2) [of "s\<lparr>m_faults := bs\<rparr>"] assms(1) show "f s' = f s" by simp
  qed (simp add: assms)
qed

lemma keeps_mem_Transaction:
  assumes "\<And>s bs. f (s\<lparr>m_faults := bs\<rparr>) = f s" and "keeps f body"
  shows "keeps f (mem_Transaction body)"
  unfolding mem_Transaction_def
  using assms by (intro keeps_faulty) (auto simp: keeps_def split: prod.splits sum.splits list.splits, (metis snd_conv)+)

lemma mem_pg_keeps:
  assumes "\<And>s bs. f (s\<lparr>m_faults := bs\<rparr>) = f s" "\<And>s x. f (s\<lparr>m_links := x\<rparr>) = f s"
    "\<And>s x. f (s\<lparr>m_outbox := x\<rparr>) = f s" "\<And>s x. f (s\<lparr>m_analytics := x\<rparr>) = f s"
    "\<And>s x. f (s\<lparr>m_processed := x\<rparr>) = f s"
  shows "gorm_keeps mem_pg f"
  unfolding gorm_keeps_def mem_pg_sel
  using keeps_mem_Transaction [of f] assms
  by (auto simp: mem_SaveLink_def mem_FirstLink_def mem_CountLinks_def mem_FindLinks_def
      mem_CreateOutbox_def mem_FindUnpublished_def mem_UpdatePublished_def mem_CreateProcessed_def
      mem_UpsertAnalytics_def mem_FirstAnalytics_def mem_FindAnalytics_def Let_def
      intro!: keeps_faulty split: option.splits)

lemma mem_redis_keeps:
  assumes "\<And>s bs. f (s\<lparr>m_faults := bs\<rparr>) = f s" "\<And>s x. f (s\<lparr>m_kv := x\<rparr>) = f s"
  shows "redis_keeps mem_redis f"
  using assms by (auto simp: redis_keeps_def mem_redis_def intro!: keeps_faulty)

interpretation mem_world: world mem_pg mem_tables micro mem_redis mem_kv mem_bus m_stream
proof
  fix k s and got :: "string + string option" and s'
  assume "kGet mem_redis k s = (got, s')"
  then have "faulty (Inl ''get'') (\<lambda>s. (Inr (map_of (m_kv s) k), s)) s = (got, s')"
    by (simp add: mem_redis_def)
  then show "mem_kv s' = mem_kv s \<and> (case got of Inl e \<Rightarrow> True | Inr v \<Rightarrow> v = mem_kv s k)"
    by (rule faulty_cases) (auto simp: mem_kv_def)
next
  fix k s n s'
  assume "kExists mem_redis k s = (n, s')"
  then have "faulty (Inl ''exists'') (\<lambda>s. (Inr (if map_of (m_kv s) k = None then 0 else 1), s)) s = (n, s')"
    by (simp add: mem_redis_def)
  then show "mem_kv s' = mem_kv s \<and>
      (case n of Inl e \<Rightarrow> True | Inr n \<Rightarrow> n = (if mem_kv s k = None then 0 else 1))"
    by (rule faulty_cases) (auto simp: mem_kv_def)
next
  fix k v s err s'
  assume "kSet mem_redis k v s = (err, s')"
  then have "faulty (Some ''set'') (\<lambda>s. (None, s\<lparr>m_kv := AList.update k v (m_kv s)\<rparr>)) s = (err, s')"
    by (simp add: mem_redis_def)
  then show "mem_kv s' = (mem_kv s)(k \<mapsto> v) \<or> err \<noteq> None \<and> mem_kv s' = mem_kv s"
    by (rule faulty_cases) (auto simp: mem_kv_def update_conv')
next
  fix k s err s'
  assume "kDel mem_redis k s = (err, s')"
  then have "faulty (Some ''del'') (\<lambda>s. (None, s\<lparr>m_kv := AList.delete k (m_kv s)\<rparr>)) s = (err, s')"
    by (simp add: mem_redis_def)
  then show "mem_kv s' = (mem_kv s)(k := None) \<or> err \<noteq> None \<and> mem_kv s' = mem_kv s"
    by (rule faulty_cases) (auto simp: mem_kv_def delete_conv')
next
  fix subj data i s res s'
  assume "pPublish mem_bus subj data i s = (res, s')"
  then show "m_stream s' = m_stream s @ [\<lparr>bm_subject = subj, bm_data = data, bm_id = i\<rparr>]
      \<or> m_stream s' = m_stream s \<and> (res = None \<longrightarrow> (\<exists>m \<in> set (m_stream s). bm_id m = i))"
    by (auto simp: mem_bus_def mem_store_msg_def list_ex_iff Let_def split: list.splits if_splits)
next
  show "gorm_keeps mem_pg mem_kv" by (rule mem_pg_keeps) (simp_all add: mem_kv_def)
  show "gorm_keeps mem_pg m_stream" by (rule mem_pg_keeps) simp_all
  show "redis_keeps mem_redis mem_tables" by (rule mem_redis_keeps) simp_all
  show "redis_keeps mem_redis m_stream" by (rule mem_redis_keeps) simp_all
  show "keeps mem_tables (pPublish mem_bus subj data i)" for subj data i
    by (auto simp: keeps_def mem_bus_def mem_store_msg_def Let_def split: list.splits)
  show "keeps mem_kv (pPublish mem_bus subj data i)" for subj data i
    by (auto simp: keeps_def mem_bus_def mem_store_msg_def mem_kv_def Let_def split: list.splits)
qed

lemma memory_is_world: "world mem_pg mem_tables micro mem_redis mem_kv mem_bus m_stream"
  by (rule mem_world.world_axioms)

subsection \<open>The generator\<close>

interpretation mem_api: write_side "LinkRepository mem_pg" "\<lambda>s. store_of (mem_tables s)" mem_gen
proof (intro write_side.intro write_side_axioms.intro mem_db.implements_repository)
  fix s
  let ?rand = "\<lambda>ds i. if i < length ds \<and> 0 \<le> ds ! i \<and> ds ! i < (62::int) then Inr (ds ! i) else Inl (ErrInfra ''rand'')"
  have gen: "\<exists>res. GenerateShortCode (?rand ds) = Ret res \<and>
      (case res of Inl e \<Rightarrow> is_infra e | Inr c \<Rightarrow> NewShortCode (code_String c) = Inr c)" for ds
  proof -
    have infra: "is_infra e" if "?rand ds i = Inl e" for i e using that by (auto split: if_splits)
    have "\<forall>i n. ?rand ds i = Inr n \<longrightarrow> 0 \<le> n \<and> n < 62" by (simp split: if_splits)
    from GenerateShortCode_valid [OF this] obtain res where r: "GenerateShortCode (?rand ds) = Ret res"
      "case res of Inl e \<Rightarrow> \<exists>i. ?rand ds i = Inl e | Inr c \<Rightarrow> NewShortCode (code_String c) = Inr c" by blast
    show ?thesis
    proof (cases res)
      case (Inl e)
      with r(2) have "is_infra e" using infra by auto
      with r(1) Inl show ?thesis by simp
    next
      case (Inr c)
      with r show ?thesis by simp
    qed
  qed
  show "store_of (mem_tables s') = store_of (mem_tables s)" if "mem_gen s = (res, s')" for s' res
    using that by (auto simp: mem_gen_def split: list.splits go.splits)
  show "NewShortCode (code_String code) = Inr code" if "mem_gen s = (Inr code, s')" for code s'
  proof (cases "m_rand s")
    case (Cons ds dss)
    with that gen [of ds] show ?thesis by (auto simp: mem_gen_def)
  qed (use that in \<open>simp add: mem_gen_def\<close>)
  show "is_infra e" if "mem_gen s = (Inl e, s')" for e s'
  proof (cases "m_rand s")
    case (Cons ds dss)
    with that gen [of ds] show ?thesis by (auto simp: mem_gen_def)
  qed (use that in \<open>auto simp: mem_gen_def\<close>)
qed

end
