(* ===== verification/Short_Properties.thy ===== *)
theory Short_Properties
  imports Short_Invariant Short_Memory
begin

text \<open>
  The properties of the write side of url-shortener. The hypotheses \<open>postgres\<close> and \<open>generator_ok\<close>
  state the documented behaviour of the database and of the random source; the witnesses run the
  code on the memory world, with faults.
\<close>

subsection \<open>Wiring\<close>

definition generator_ok :: "('s \<Rightarrow> (app_error + ShortCode) \<times> 's) \<Rightarrow> ('s \<Rightarrow> tables) \<Rightarrow> bool" where
  "generator_ok gen tables \<longleftrightarrow>
     (\<forall>s res s'. gen s = (res, s') \<longrightarrow> tables s' = tables s \<and>
        (case res of Inl e \<Rightarrow> is_infra e | Inr c \<Rightarrow> NewShortCode (code_String c) = Inr c))"

lemma write_side_wired:
  assumes "postgres pg tables stamp" "generator_ok gen tables"
  shows "write_side (LinkRepository pg) (\<lambda>s. store_of (tables s)) gen"
proof (intro write_side.intro write_side_axioms.intro postgres.implements_repository [OF assms(1)])
  fix s res s'
  assume "gen s = (res, s')"
  with assms(2) show "store_of (tables s') = store_of (tables s)" by (force simp: generator_ok_def)
next
  fix s code s'
  assume "gen s = (Inr code, s')"
  with assms(2) show "NewShortCode (code_String code) = Inr code" by (force simp: generator_ok_def)
next
  fix s e s'
  assume "gen s = (Inl e, s')"
  with assms(2) show "is_infra e" by (force simp: generator_ok_def)
qed

lemma mem_gen_tables: "mem_gen s = (res, s') \<Longrightarrow> mem_tables s' = mem_tables s"
  by (auto simp: mem_gen_def split: list.splits go.splits)

lemma mem_generator_ok: "generator_ok mem_gen mem_tables"
  unfolding generator_ok_def
proof (intro allI impI)
  fix s res s'
  assume g: "mem_gen s = (res, s')"
  then show "mem_tables s' = mem_tables s \<and>
      (case res of Inl e \<Rightarrow> is_infra e | Inr c \<Rightarrow> NewShortCode (code_String c) = Inr c)"
    using mem_gen_tables [OF g] mem_api.gen_err [of s] mem_api.gen_valid [of s] by (cases res) auto
qed

text \<open>The identities minted in the examples.\<close>

definition demo_mint :: "nat \<Rightarrow> minted" where
  "demo_mint k = \<lparr>mt_id = of_nat (100 + k), mt_event = of_nat (200 + k), mt_t1 = 5000, mt_t2 = 6000\<rparr>"

text \<open>The first save is committed although it reports an error; the second one succeeds.\<close>

definition demo_before :: mem where
  "demo_before = empty_mem\<lparr>m_rand := [[1, 1, 1, 1, 1, 1, 1], [2, 2, 2, 2, 2, 2, 2]],
     m_faults := [False, False, False, False, True]\<rparr>"

lemma mints_fresh_demo: "mints_fresh demo_mint (store_of (mem_tables demo_before))"
  by (simp add: mints_fresh_def demo_mint_def maxShortCodeAttempts_def upt_rec store_of_def mem_tables_def
      demo_before_def empty_mem_def keyed_def)

lemma demo_url: "NewURL ''https://a.io'' = Inr (URL ''https://a.io'')"
  by (simp add: NewURL_def TrimSpace_def trim_left.simps leading_def space_encodings_def url_simps
      Let_def)

lemmas mem_run = faulty_def mem_Transaction_def mem_SaveLink_def mem_FirstLink_def mem_CountLinks_def
  mem_FindLinks_def mem_CreateOutbox_def mem_FindUnpublished_def mem_UpdatePublished_def mem_CreateProcessed_def
  mem_UpsertAnalytics_def mem_FirstAnalytics_def mem_FindAnalytics_def next_seq_def live_def keyed_def micro_def
  empty_mem_def

lemma demo_gen:
  "m_rand s = [1, 1, 1, 1, 1, 1, 1] # dss \<Longrightarrow> mem_gen s = (Inr (ShortCode ''1111111''), s\<lparr>m_rand := dss\<rparr>)"
  "m_rand s = [2, 2, 2, 2, 2, 2, 2] # dss \<Longrightarrow> mem_gen s = (Inr (ShortCode ''2222222''), s\<lparr>m_rand := dss\<rparr>)"
  "m_rand s = [] \<Longrightarrow> mem_gen s = (Inl (ErrInfra ''rand''), s)"
  by (simp_all add: mem_gen_def GenerateShortCode_def shortCodeLength_def shortCodeAlphabet_def upt_rec
      slice_get_def)


definition demo_row :: "nat \<Rightarrow> string \<Rightarrow> linkModel" where
  "demo_row k c = \<lparr>lm_ID = of_nat (100 + k), lm_ShortCode = c, lm_LongURL = ''https://a.io'',
     lm_Status = ''active'', lm_Version = 1, lm_CreatedAt = 5000\<rparr>"

definition demo_event :: "nat \<Rightarrow> int \<Rightarrow> string \<Rightarrow> outboxModel" where
  "demo_event k n c = \<lparr>om_Seq = n, om_ID = of_nat (200 + k), om_AggregateID = of_nat (100 + k),
     om_EventType = ''link.created'',
     om_Payload = JObj [(''short_code'', JStr c), (''long_url'', JStr ''https://a.io'')],
     om_OccurredAt = 6000, om_PublishedAt = None\<rparr>"

definition demo_after :: mem where
  "demo_after = empty_mem\<lparr>m_links := [demo_row 1 ''2222222'', demo_row 0 ''1111111''],
     m_outbox := [demo_event 0 1 ''1111111'', demo_event 1 2 ''2222222'']\<rparr>"

lemma demo_code_valid:
  "NewShortCode ''1111111'' = Inr (ShortCode ''1111111'')"
  "NewShortCode ''2222222'' = Inr (ShortCode ''2222222'')"
  by (simp_all add: NewShortCode_Inr shortCodeAlphabet_def)

lemma ascii_demo:
  "to_valid ''1111111'' = ''1111111''" "to_valid ''2222222'' = ''2222222''"
  "to_valid ''https://a.io'' = ''https://a.io''"
  by (rule to_valid_ascii, simp add: ascii_def)+

lemmas write_run = CreateLink_Handle_def maxShortCodeAttempts_def upt_rec
  LinkRepository_ExistsByShortCode_def LinkRepository_Save_def LinkRepository_FindByShortCode_def
  toAggregate_def LinkIDFromUUID_def Reconstitute_def save_tx_def model_of_def NewLink_def code_IsZero_def
  url_IsZero_def PullEvents_def record_event_def Let_def toOutboxRow_def marshal_payload_def
  newBaseEvent_def EventID_def AggregateID_def OccurredAt_def EventTypeLinkCreated_def
  EventTypeLinkDisabled_def StatusActive_def StatusDisabled_def

lemma demo_created:
  "CreateLink_Handle (LinkRepository mem_pg) mem_gen demo_mint ''https://a.io'' demo_before
     = (Inr \<lparr>clr_ShortCode = ''2222222'', clr_LongURL = ''https://a.io''\<rparr>, demo_after)"
  by (simp add: write_run mem_run demo_gen demo_url ascii_demo demo_mint_def demo_before_def demo_after_def
      demo_row_def demo_event_def)

subsection \<open>Short codes and aggregates\<close>

text \<open>C16. Generating a short code never panics, as long as the random source draws below the size of
  the alphabet: it fails with the error of a draw, or yields a code that validation accepts unchanged,
  seven characters of the base-62 alphabet.\<close>

theorem short_code_generation:
  assumes "\<forall>i n. rand i = Inr n \<longrightarrow> 0 \<le> n \<and> n < 62"
  shows "\<exists>res. GenerateShortCode rand = Ret res \<and>
    (case res of
       Inl e \<Rightarrow> \<exists>i. rand i = Inl e
     | Inr c \<Rightarrow> NewShortCode (code_String c) = Inr c \<and> length (code_String c) = 7
         \<and> set (code_String c) \<subseteq> set shortCodeAlphabet)"
  using GenerateShortCode_valid [OF assms] by (auto simp: NewShortCode_Inr split: sum.splits)

theorem short_code_generation_witness:
  "\<exists>c. GenerateShortCode (\<lambda>i. Inr (int i mod 62)) = Ret (Inr c) \<and> NewShortCode (code_String c) = Inr c"
proof -
  have "\<forall>i n. (Inr (int i mod 62) :: app_error + int) = Inr n \<longrightarrow> 0 \<le> n \<and> n < 62" by auto
  from short_code_generation [OF this] obtain res where
    res: "GenerateShortCode (\<lambda>i. Inr (int i mod 62)) = Ret res"
      "case res of
         Inl e \<Rightarrow> \<exists>i. (Inr (int i mod 62) :: app_error + int) = Inl e
       | Inr c \<Rightarrow> NewShortCode (code_String c) = Inr c \<and> length (code_String c) = 7
           \<and> set (code_String c) \<subseteq> set shortCodeAlphabet"
    by blast
  then show ?thesis by (cases res) simp_all
qed

lemma link_run_prefix:
  "link_run ops l = (es, l') \<Longrightarrow> \<exists>xs. es @ lk_events l' = lk_events l @ xs \<and> (\<forall>e \<in> set xs. is_disabled_event e)"
proof (induction ops l arbitrary: es rule: link_run.induct)
  case (2 i t ops l)
  show ?case
  proof (cases "IsDisabled (lk_status l)")
    case True
    with 2 show ?thesis by (simp add: Disable_def)
  next
    case False
    with 2 obtain xs where "es @ lk_events l' = lk_events (snd (Disable i t l)) @ xs"
      "\<forall>e \<in> set xs. is_disabled_event e" by auto
    with False show ?thesis by (auto simp: Disable_def record_event_def is_disabled_event_def)
  qed
next
  case (3 ops l)
  obtain es1 where r: "link_run ops (l\<lparr>lk_events := []\<rparr>) = (es1, l')" "es = lk_events l @ es1"
    using 3(2) by (auto simp: PullEvents_def split: prod.splits)
  with 3(1) [of "lk_events l" "l\<lparr>lk_events := []\<rparr>" es1] show ?case by (auto simp: PullEvents_def)
qed simp

text \<open>C17. Whatever a client does with a new aggregate, disabling it and draining its events in any
  order, the events it ever raised are one creation followed by at most one disabling; its version is
  their number, its status says whether there is a disabling, and its identity, code and URL are those
  it was created with.\<close>

theorem aggregate_lifecycle:
  assumes "NewLink newID eventID t1 t2 code u = Inr l" "link_run ops l = (es, l')"
  shows "\<exists>ds. es @ lk_events l' =
        LinkCreated (newBaseEvent eventID t2 newID) (code_String code) (url_String u) # ds
      \<and> (\<forall>d \<in> set ds. is_disabled_event d) \<and> length ds \<le> 1
      \<and> lk_version l' = 1 + int (length ds) \<and> (IsDisabled (lk_status l') \<longleftrightarrow> length ds = 1)
      \<and> lk_id l' = LinkID newID \<and> lk_shortCode l' = code \<and> lk_longURL l' = u"
proof -
  let ?c = "LinkCreated (newBaseEvent eventID t2 newID) (code_String code) (url_String u)"
  have l: "lk_events l = [?c]" "lk_version l = 1" "\<not> IsDisabled (lk_status l)" "lk_id l = LinkID newID"
    "lk_shortCode l = code" "lk_longURL l = u"
    using assms(1) by (auto simp: NewLink_def record_event_def split: if_splits)
  obtain ds where ds: "es @ lk_events l' = ?c # ds" "\<forall>d \<in> set ds. is_disabled_event d"
    using link_run_prefix [OF assms(2)] l by auto
  have "filter is_disabled_event (?c # ds) = ds" "filter is_disabled_event [?c] = []"
    using ds(2) by (simp_all add: is_disabled_event_def filter_id_conv)
  with link_run_events [OF assms(2)] ds(1) l show ?thesis
    by (intro exI [of _ ds]) (auto simp: ds(2))
qed

theorem aggregate_lifecycle_witness:
  "\<exists>l es l'. NewLink 1 2 0 0 (ShortCode ''abc'') (URL ''u'') = Inr l
    \<and> link_run [OpDisable 3 7, OpPull, OpDisable 4 9] l = (es, l') \<and> lk_version l' = 2"
proof -
  obtain l where l: "NewLink 1 2 0 0 (ShortCode ''abc'') (URL ''u'') = Inr l"
    by (simp add: NewLink_def code_IsZero_def url_IsZero_def)
  obtain es l' where r: "link_run [OpDisable 3 7, OpPull, OpDisable 4 9] l = (es, l')" by force
  have "IsDisabled (lk_status l')"
    using l r by (auto simp: NewLink_def code_IsZero_def url_IsZero_def record_event_def Disable_def PullEvents_def)
  with aggregate_lifecycle [OF l r] l r show ?thesis by auto
qed

subsection \<open>Creating links\<close>

text \<open>The attempt that succeeded, and what the earlier ones left.\<close>

lemma create_link_attempt:
  assumes ws: "write_side repo store gen"
    and run: "CreateLink_Handle repo gen mint url s = (Inr r, s')"
    and fresh: "mints_fresh mint (store s)"
  obtains u k st fs where "NewURL url = Inr u" "k < 5"
    "NewShortCode (clr_ShortCode r) = Inr (ShortCode (clr_ShortCode r))" "clr_LongURL r = url_String u"
    "\<not> code_taken (clr_ShortCode r) st" "\<forall>i row. st_links (store s) i = Some row \<longrightarrow> st_links st i = Some row"
    "store s' = creation (mint k) (ShortCode (clr_ShortCode r)) u st" "st_links st (mt_id (mint k)) = None"
    "st_log st = st_log (store s) @ fs" "length fs \<le> 4"
    "\<forall>f \<in> set fs. f_type f = EventTypeLinkCreated \<and> f_url f = to_valid (url_String u)"
proof -
  obtain u where u: "NewURL url = Inr u"
    and loop: "create_loop repo gen u (map mint [0..<maxShortCodeAttempts]) s = (Inr r, s')"
    using run by (auto simp: CreateLink_Handle_def split: sum.splits)
  let ?mts = "map mint [0..<maxShortCodeAttempts]"
  from write_side.create_loop_spec [OF ws loop] obtain pre mt post st code where
    c: "?mts = pre @ mt # post" "lost u pre (store s) st" "NewShortCode (code_String code) = Inr code"
      "\<not> code_taken (code_String code) st" "store s' = creation mt code u st"
      "r = \<lparr>clr_ShortCode = code_String code, clr_LongURL = url_String u\<rparr>"
    by auto
  have "length pre + Suc (length post) = 5"
    using arg_cong [OF c(1), of length] by (simp add: maxShortCodeAttempts_def)
  then have k: "length pre < 5" "length pre \<le> 4" by simp_all
  have mt: "mt = mint (length pre)"
    using arg_cong [OF c(1), of "\<lambda>xs. xs ! length pre"] k by (simp add: maxShortCodeAttempts_def)
  note fl = mints_fresh_list [OF fresh]
  have pre: "set (map mt_id pre) \<inter> dom (st_links (store s)) = {}" "distinct (map mt_id pre)"
    using fl unfolding c(1) by auto
  note ext = lost_extends [OF c(2) pre]
  have "st_links (store s) (mt_id mt) = None" using fl(1) unfolding c(1) by auto
  moreover have "mt_id mt \<notin> mt_id ` set pre" using fl(2) unfolding c(1) by auto
  ultimately have none: "st_links st (mt_id mt) = None"
    using ext by (metis option.exhaust)
  from ext obtain fs where fs: "st_log st = st_log (store s) @ fs" "length fs \<le> length pre"
    "\<forall>f \<in> set fs. f_type f = EventTypeLinkCreated \<and> f_url f = to_valid (url_String u)" by auto
  show thesis
    by (rule that [OF u k(1) _ _ _ _ _ _ fs(1) _ fs(3)])
      (use c ext mt none fs k in \<open>auto simp: NewShortCode_Inr\<close>)
qed

text \<open>What the attempts of a creation that failed left.\<close>

lemma create_link_lost:
  assumes ws: "write_side repo store gen"
    and run: "CreateLink_Handle repo gen mint url s = (Inl e, s')"
    and fresh: "mints_fresh mint (store s)" and u: "NewURL url = Inr u"
  shows "(e = ErrShortCodeExhausted \<or> is_infra e)
    \<and> (\<forall>i row. st_links (store s) i = Some row \<longrightarrow> st_links (store s') i = Some row)
    \<and> (\<forall>i row. st_links (store s') i = Some row \<and> st_links (store s) i = None \<longrightarrow>
          sl_url row = url_String u \<and> sl_status row = StatusActive
          \<and> sl_version row = 1 \<and> i \<in> (mt_id \<circ> mint) ` {..<5})
    \<and> (\<exists>fs. st_log (store s') = st_log (store s) @ fs \<and> length fs \<le> 5
          \<and> (\<forall>f \<in> set fs. f_type f = EventTypeLinkCreated))"
proof -
  let ?mts = "map mint [0..<maxShortCodeAttempts]"
  from run u have loop: "create_loop repo gen u ?mts s = (Inl e, s')"
    by (simp add: CreateLink_Handle_def)
  have "\<not> url_IsZero u" using NewURL_shape [OF u] by (auto simp: url_IsZero_def)
  with write_side.create_loop_spec [OF ws loop]
  have l: "lost u ?mts (store s) (store s')" "e = ErrShortCodeExhausted \<or> is_infra e" by auto
  note ext = lost_extends [OF l(1) mints_fresh_list [OF fresh]]
  have "mt_id ` set ?mts = (mt_id \<circ> mint) ` {..<5}" "length ?mts = 5"
    by (auto simp: maxShortCodeAttempts_def)
  with ext l(2) show ?thesis by auto
qed

text \<open>The url a request asks for, if it asks for one.\<close>

definition requested_url :: "string \<Rightarrow> string option" where
  "requested_url request =
     (case Option.bind (json_Decode request) decode_createLinkRequest of
        None \<Rightarrow> None
      | Some r \<Rightarrow> if createLinkRequest_valid r then Some (rq_URL r) else None)"

lemma requested_url_text: "to_valid url \<noteq> [] \<Longrightarrow> requested_url (createLink_text url) = Some (to_valid url)"
  by (simp add: requested_url_def decode_createLink_text createLinkRequest_valid_def)

lemma post_links_cases:
  assumes gin: "json_binder decode_createLinkRequest createLinkRequest_valid bound"
    and run: "post_links bound pg gen cfg mint request s = (resp, s')"
  obtains (refused) "requested_url request = None" "http_status resp = 400" "s' = s"
  | (failed) url e where "requested_url request = Some url" "resp = writeError e"
      "CreateLink_Handle (LinkRepository pg) gen mint url s = (Inl e, s')"
  | (created) url r where "requested_url request = Some url"
      "resp = JSON 201 [(''short_code'', JStr (clr_ShortCode r)), (''long_url'', JStr (clr_LongURL r)),
        (''short_url'', JStr (BaseURL cfg @ ''/'' @ clr_ShortCode r))]"
      "CreateLink_Handle (LinkRepository pg) gen mint url s = (Inr r, s')"
proof (cases "requested_url request")
  case None
  then have "isl (bound request)"
    by (intro json_binder.refuses [OF gin]) (auto simp: requested_url_def split: if_splits)
  with run have "http_status resp = 400" "s' = s"
    by (auto simp: isl_def post_links_def api_CreateLink_def http_CreateLink_def)
  with None refused show thesis by blast
next
  case (Some url)
  then have "bound request = Inr \<lparr>rq_URL = url\<rparr>"
    by (intro json_binder.binds [OF gin])
      (auto simp: requested_url_def createLinkRequest_valid_def split: option.splits if_splits)
  with run Some failed created show thesis
    by (auto simp: post_links_def api_CreateLink_def http_CreateLink_def split: prod.splits sum.splits)
qed

lemma created_body:
  "gin_H [(''short_code'', a), (''long_url'', b), (''short_url'', c)]
     = JObj [(''long_url'', b), (''short_code'', a), (''short_url'', c)]"
  by (simp add: gin_H_def)


text \<open>A request and its answer, as text; the first of the two attempts is lost.\<close>

definition demo_cfg :: Config where
  "demo_cfg = Load Map.empty"

definition demo_bind_link :: "string \<Rightarrow> string + createLinkRequest" where
  "demo_bind_link = ShouldBindJSON (\<lambda>_. ''bad request'') decode_createLinkRequest createLinkRequest_valid"

lemma demo_binder: "json_binder decode_createLinkRequest createLinkRequest_valid demo_bind_link"
  unfolding demo_bind_link_def by (rule gin.json_binder_axioms)

lemma demo_request: \<open>createLink_text ''https://a.io'' = ''{"url":"https://a.io"}''\<close>
  by (simp add: createLink_text_def json_quote_def json_ascii_def)

lemma demo_bound: "demo_bind_link (createLink_text ''https://a.io'') = Inr \<lparr>rq_URL = ''https://a.io''\<rparr>"
  by (rule json_binder.binds [OF demo_binder])
    (simp_all add: decode_createLink_text ascii_demo createLinkRequest_valid_def)

lemma demo_posted:
  \<open>post_links demo_bind_link mem_pg mem_gen demo_cfg demo_mint ''{"url":"https://a.io"}'' demo_before
     = (JSON 201 [(''short_code'', JStr ''2222222''), (''long_url'', JStr ''https://a.io''),
          (''short_url'', JStr ''http://localhost:8080/2222222'')], demo_after)\<close>
  using demo_created
  by (simp add: demo_request [symmetric] post_links_def api_CreateLink_def http_CreateLink_def demo_bound demo_cfg_def
      Load_def getEnv_def)



text \<open>Two commits of unknown outcome and a source of randomness that then runs dry.\<close>

definition demo_fail :: mem where
  "demo_fail = demo_before\<lparr>m_faults := [False, False, False, False, True, False, False, False, False, True]\<rparr>"

lemma demo_fail_run:
  "CreateLink_Handle (LinkRepository mem_pg) mem_gen demo_mint ''https://a.io'' demo_fail
     = (Inl (ErrInfra ''rand''), demo_after)"
  by (simp add: write_run mem_run demo_gen demo_url ascii_demo demo_mint_def demo_before_def demo_after_def
      demo_row_def demo_event_def demo_fail_def)

lemma demo_fail_posted:
  \<open>post_links demo_bind_link mem_pg mem_gen demo_cfg demo_mint ''{"url":"https://a.io"}'' demo_fail
     = (JSON 500 [(''error'', JStr ''internal server error'')], demo_after)\<close>
  using demo_fail_run
  by (simp add: demo_request [symmetric] post_links_def api_CreateLink_def http_CreateLink_def demo_bound writeError_def)


subsection \<open>Disabling links\<close>




definition demo_active :: Link where
  "demo_active = \<lparr>lk_id = LinkID 101, lk_shortCode = ShortCode ''2222222'', lk_longURL = URL ''https://a.io'',
     lk_status = ''active'', lk_createdAt = 5000, lk_version = 1, lk_events = []\<rparr>"

lemma demo_find:
  "LinkRepository_FindByShortCode mem_pg (ShortCode ''2222222'') demo_after = (Inr demo_active, demo_after)"
  by (simp add: write_run mem_run demo_code_valid demo_url demo_after_def demo_row_def demo_event_def demo_active_def)

lemma demo_store_ok: "store_ok (store_of (mem_tables demo_after))"
  by (auto simp: store_ok_def store_of_def mem_tables_def demo_after_def empty_mem_def keyed_def demo_row_def
      demo_event_def row_fact_def fact_of_payload_def stored_of_row_def field_matches_def fold_char_def
      in_range_def map_filter_def split: if_splits)


subsection \<open>The API as a whole\<close>

text \<open>The requests of the API, with what serving one mints and reads from the clock.\<close>

datatype api_request =
    ReqCreate "nat \<Rightarrow> minted" "string + createLinkRequest"
  | ReqDisable uuid time string
  | ReqRedirect uuid uuid time string
  | ReqStats string

fun api_serve ::
  "'s gorm \<Rightarrow> 's redis \<Rightarrow> ('s \<Rightarrow> (app_error + ShortCode) \<times> 's) \<Rightarrow> Config
     \<Rightarrow> api_request \<Rightarrow> 's \<Rightarrow> http_response \<times> 's" where
  "api_serve pg rdb gen cfg (ReqCreate mint bound) s = api_CreateLink pg gen cfg mint bound s"
| "api_serve pg rdb gen cfg (ReqDisable i now c) s = api_DisableLink pg i now c s"
| "api_serve pg rdb gen cfg (ReqRedirect a i now c) s = api_Redirect pg rdb a i now c s"
| "api_serve pg rdb gen cfg (ReqStats c) s = api_Stats rdb c s"

fun request_fresh :: "api_request \<Rightarrow> store \<Rightarrow> bool" where
  "request_fresh (ReqCreate mint bound) st = mints_fresh mint st"
| "request_fresh _ st = True"

text \<open>A run of the API serves requests one after the other; every creation mints fresh identities.\<close>

inductive api_run ::
  "(api_request \<Rightarrow> 's \<Rightarrow> http_response \<times> 's) \<Rightarrow> ('s \<Rightarrow> store) \<Rightarrow> 's \<Rightarrow> 's \<Rightarrow> bool"
  for serve :: "api_request \<Rightarrow> 's \<Rightarrow> http_response \<times> 's" and store :: "'s \<Rightarrow> store" and s :: 's where
  api_start: "api_run serve store s s"
| api_next: "api_run serve store s s1 \<Longrightarrow> request_fresh req (store s1) \<Longrightarrow> serve req s1 = (resp, s2) \<Longrightarrow>
    api_run serve store s s2"

lemma serve_steps:
  assumes w: "world pg tables stamp rdb kv pub stream" and gen: "generator_ok gen tables"
    and run: "api_serve pg rdb gen cfg req s = (resp, s')"
    and fresh: "request_fresh req (store_of (tables s))"
  shows "store_steps (store_of (tables s)) (store_of (tables s'))"
proof -
  have pg: "postgres pg tables stamp" using w by (simp add: world_def)
  have kv: "key_value rdb kv" using w by (simp add: world_def)
  have frame: "redis_keeps rdb tables" using w by (simp add: world_def world_axioms_def)
  show ?thesis
  proof (cases req)
    case (ReqCreate mint bound)
    show ?thesis
    proof (cases bound)
      case (Inl err)
      with ReqCreate run have "s' = s" by (simp add: api_CreateLink_def http_CreateLink_def)
      then show ?thesis by simp
    next
      case (Inr rq)
      obtain res s1 where c: "CreateLink_Handle (LinkRepository pg) gen mint (rq_URL rq) s = (res, s1)" by force
      with run ReqCreate Inr have "s' = s1"
        by (auto simp: api_CreateLink_def http_CreateLink_def split: sum.splits)
      with write_side.CreateLink_steps [OF write_side_wired [OF pg gen] c] fresh ReqCreate show ?thesis by simp
    qed
  next
    case (ReqDisable i now c)
    obtain res s1 where d: "DisableLink_Handle (LinkRepository pg) i now c s = (res, s1)" by force
    with run ReqDisable have "s' = s1"
      by (auto simp: api_DisableLink_def http_DisableLink_def split: option.splits)
    with repository_port.DisableLink_steps [OF postgres.implements_repository [OF pg] d] show ?thesis by simp
  next
    case (ReqRedirect a i now c)
    obtain res s1 where d: "Redirect_Handle (Redis_ReadModel rdb) (OutboxStore pg) a i now c s = (res, s1)" by force
    with run ReqRedirect have "s' = s1"
      by (auto simp: api_Redirect_def http_Redirect_def split: sum.splits)
    moreover have "store_of (tables s1) = store_of (tables s)
        \<or> i \<notin> log_ids (store_of (tables s)) \<and> store_of (tables s1) = clicking i c (store_of (tables s))"
      using query_side.Redirect_spec [OF world.api_queries [OF w] d] by (cases res) auto
    ultimately show ?thesis by (auto intro: clicked_steps)
  next
    case (ReqStats c)
    obtain n s1 where e: "kExists rdb (linkPrefix @ c) s = (n, s1)" by force
    obtain g s2 where g: "kGet rdb (clickPrefix @ c) s1 = (g, s2)" by force
    have "tables s1 = tables s" "tables s2 = tables s1"
      using keepsD [where f = tables and m = "kExists rdb (linkPrefix @ c)", OF _ e]
        keepsD [where f = tables and m = "kGet rdb (clickPrefix @ c)", OF _ g] frame
      by (auto simp: redis_keeps_def)
    moreover have "s' = s1 \<or> s' = s2"
      using run ReqStats e g
      by (auto simp: api_Stats_def http_Stats_def GetStats_Handle_def ReadModel_Clicks_def
          split: sum.splits option.splits if_splits)
    ultimately show ?thesis by auto
  qed
qed


text \<open>A creation with a commit of unknown outcome, a disabling, a redirect.\<close>

lemma demo_start: "store_of (mem_tables demo_before) = \<lparr>st_links = Map.empty, st_log = []\<rparr>"
  by (simp add: store_of_def mem_tables_def demo_before_def empty_mem_def keyed_def)

abbreviation demo_serve :: "api_request \<Rightarrow> mem \<Rightarrow> http_response \<times> mem" where
  "demo_serve \<equiv> api_serve mem_pg mem_redis mem_gen demo_cfg"

lemma demo_api_run:
  "api_run demo_serve (\<lambda>s. store_of (mem_tables s)) demo_before
     (snd (demo_serve (ReqDisable 300 7000 ''2222222'') demo_after))"
proof -
  have a: "api_run demo_serve (\<lambda>s. store_of (mem_tables s)) demo_before demo_after"
  proof (rule api_run.api_next [OF api_run.api_start])
    show "request_fresh (ReqCreate demo_mint (Inr \<lparr>rq_URL = ''https://a.io''\<rparr>)) (store_of (mem_tables demo_before))"
      using mints_fresh_demo by simp
    show "demo_serve (ReqCreate demo_mint (Inr \<lparr>rq_URL = ''https://a.io''\<rparr>)) demo_before
        = (fst (demo_serve (ReqCreate demo_mint (Inr \<lparr>rq_URL = ''https://a.io''\<rparr>)) demo_before), demo_after)"
      using demo_created by (simp add: api_CreateLink_def http_CreateLink_def)
  qed
  show ?thesis
    by (rule api_run.api_next [OF a, where req = "ReqDisable 300 7000 ''2222222''" and
          resp = "fst (demo_serve (ReqDisable 300 7000 ''2222222'') demo_after)"]) simp_all
qed



text \<open>The outbox is down: the redirect still answers.\<close>

definition demo_redirect :: mem where
  "demo_redirect = empty_mem\<lparr>m_kv := [(''link:2222222'', ''https://a.io'')], m_faults := [False, True]\<rparr>"


subsection \<open>Destinations\<close>

text \<open>C13. A destination the service accepts is an absolute http or https URL without a control
  character, so it is one line of a response header, and it survives storage: the row of a new link,
  whatever time the database keeps, is loaded as the same aggregate without its events. Left aside are
  a destination that ends in white space and a host that is an IP literal with a zone, for which the
  text that is stored is not read back as it was.\<close>

theorem destination_survives_storage:
  assumes u: "NewURL raw = Inr u" and c: "NewShortCode given = Inr code"
    and l: "NewLink newID eventID t1 t2 code u = Inr l"
  shows "(prefix ''http://'' (url_String u) \<or> prefix ''https://'' (url_String u))
    \<and> (\<forall>d \<in> set (url_String u). \<not> ctl d)
    \<and> (TrimSpace (url_String u) = url_String u \<longrightarrow>
        (\<forall>v. url_Parse (TrimSpace raw) = Some v \<longrightarrow> \<not> zoned (pu_Host v)) \<longrightarrow>
        toAggregate ((model_of l)\<lparr>lm_CreatedAt := t\<rparr>) = Inr (l\<lparr>lk_createdAt := t, lk_events := []\<rparr>))"
proof -
  have code: "NewShortCode (code_String code) = Inr code" using c by (auto simp: NewShortCode_Inr)
  have sel: "lk_shortCode l = code" "lk_longURL l = u"
    using l by (auto simp: NewLink_def record_event_def Let_def split: if_splits)
  have "toAggregate ((model_of l)\<lparr>lm_CreatedAt := t\<rparr>) = Inr (l\<lparr>lk_createdAt := t, lk_events := []\<rparr>)"
    if "TrimSpace (url_String u) = url_String u" "\<And>v. url_Parse (TrimSpace raw) = Some v \<Longrightarrow> \<not> zoned (pu_Host v)"
    using code sel NewURL_reload [OF u that]
    by (cases "lk_id l") (simp add: toAggregate_def model_of_def Reconstitute_def LinkIDFromUUID_def)
  with NewURL_shape [OF u] show ?thesis by blast
qed

text \<open>Parsing lowers the scheme and escapes the path and the fragment.\<close>

lemmas demo_destination_simps = NewURL_def TrimSpace_def trim_left.simps leading_def space_encodings_def
  url_simps Let_def

lemma demo_destination:
  "NewURL '' HTTP://u@A.io:8080/a b?q=1#x y '' = Inr (URL ''http://u@A.io:8080/a%20b?q=1#x%20y'')"
  by (simp add: demo_destination_simps)

theorem destination_survives_storage_witness:
  "toAggregate \<lparr>lm_ID = 7, lm_ShortCode = ''2222222'', lm_LongURL = ''http://u@A.io:8080/a%20b?q=1#x%20y'',
      lm_Status = ''active'', lm_Version = 1, lm_CreatedAt = 5\<rparr>
    = Inr \<lparr>lk_id = LinkID 7, lk_shortCode = ShortCode ''2222222'',
        lk_longURL = URL ''http://u@A.io:8080/a%20b?q=1#x%20y'', lk_status = ''active'', lk_createdAt = 5,
        lk_version = 1, lk_events = []\<rparr>"
proof -
  let ?u = "URL ''http://u@A.io:8080/a%20b?q=1#x%20y''"
  obtain l where l: "NewLink 7 8 4 6 (ShortCode ''2222222'') ?u = Inr l"
    by (simp add: NewLink_def code_IsZero_def url_IsZero_def)
  have trim: "TrimSpace (url_String ?u) = url_String ?u" by (simp add: demo_destination_simps)
  have host: "\<forall>v. url_Parse (TrimSpace '' HTTP://u@A.io:8080/a b?q=1#x y '') = Some v \<longrightarrow> \<not> zoned (pu_Host v)"
    by (simp add: demo_destination_simps zoned_def)
  from destination_survives_storage [OF demo_destination demo_code_valid(2) l, of 5] trim host
  have "toAggregate ((model_of l)\<lparr>lm_CreatedAt := 5\<rparr>) = Inr (l\<lparr>lk_createdAt := 5, lk_events := []\<rparr>)" by blast
  with l show ?thesis
    by (auto simp: NewLink_def code_IsZero_def url_IsZero_def Let_def model_of_def record_event_def StatusActive_def)
qed

text \<open>
  What is left aside: white space at the end of a query is lost when the link is loaded, and a zone with
  a byte beyond ASCII makes a link that is stored and can no longer be loaded.
\<close>

lemma trailing_space_lost:
  "NewURL ''http://h/?q #'' = Inr (URL ''http://h/?q '')" "NewURL ''http://h/?q '' = Inr (URL ''http://h/?q'')"
  by (simp_all add: demo_destination_simps)

lemma zone_not_reloaded:
  "NewURL (''http://[::1%25'' @ [CHR 0xC3, CHR 0xA9] @ '']/'') = Inr (URL ''http://[::1%25%C3%A9]/'')"
  "NewURL ''http://[::1%25%C3%A9]/'' = Inl ErrInvalidURL"
  by (simp_all add: demo_destination_simps)

end
