(* ===== verification/Short_Outbox.thy ===== *)
theory Short_Outbox
  imports Short_Properties
begin

text \<open>
  url-shortener: the outbox between the API that fills it and the relay that drains it. Requests
  append unpublished rows with larger numbers and leave the stream alone; with the relay's own
  invariant this gives the invariant of the two programs running side by side.
\<close>

subsection \<open>What requests do to the outbox\<close>

text \<open>Every row of the outbox is the form of a domain event.\<close>

definition event_row :: "outboxModel \<Rightarrow> bool" where
  "event_row r \<longleftrightarrow>
     (\<exists>e. row_fact r = Some (fact_of e) \<and> om_EventType r = EventType e \<and> om_ID r = EventID e)"

lemma event_row_publish [simp]: "event_row (publish_row st now seqs r) = event_row r"
  by (simp add: event_row_def publish_row_def)

definition grows :: "tables \<Rightarrow> tables \<Rightarrow> bool" where
  "grows t t' \<longleftrightarrow> (\<exists>new. t_outbox t' = t_outbox t @ new \<and> (\<forall>r \<in> set new. is_unpublished r \<and> event_row r)
     \<and> (outbox_ok (t_outbox t) \<longrightarrow> outbox_ok (t_outbox t')))
     \<and> counters_of t' = counters_of t"

lemma grows_same: "t_outbox t' = t_outbox t \<Longrightarrow> counters_of t' = counters_of t \<Longrightarrow> grows t t'"
  by (simp add: grows_def)

lemma grows_eq: "t' = t \<Longrightarrow> grows t t'"
  by (simp add: grows_same)

lemma grows_trans: "grows t t1 \<Longrightarrow> grows t1 t2 \<Longrightarrow> grows t t2"
  unfolding grows_def by (elim exE conjE) (auto intro: exI [of _ "_ @ _"])

lemma outbox_ok_snoc:
  assumes "outbox_ok rs" "\<forall>q \<in> set rs. om_Seq q < om_Seq r \<and> om_ID q \<noteq> om_ID r"
  shows "outbox_ok (rs @ [r])"
  using assms by (auto simp: outbox_ok_def sorted_wrt_append)

context postgres
begin

lemma transaction_rel:
  assumes tx: "gTransaction pg body s = (res, s')"
    and refl: "\<And>t. R t t"
    and good: "\<And>s0 n s1. body s0 = (Inr n, s1) \<Longrightarrow> R (tables s0) (tables s1)"
  shows "R (tables s) (tables s')"
  using Transaction [OF tx] refl good unfolding transaction_outcome_def by metis

lemma CreateOutbox_grows:
  assumes "gCreateOutbox pg (toOutboxRow e) s = (None, s')"
  shows "grows (tables s) (tables s')"
proof -
  obtain seq where seq: "\<forall>q \<in> set (t_outbox (tables s)). om_Seq q < seq \<and> om_ID q \<noteq> om_ID (toOutboxRow e)"
    "tables s' = tab_create_outbox stamp seq (toOutboxRow e) (tables s)"
    using CreateOutbox [OF assms] by blast
  let ?r = "(toOutboxRow e)\<lparr>om_Seq := seq, om_OccurredAt := stamp (om_OccurredAt (toOutboxRow e))\<rparr>"
  have "t_outbox (tables s') = t_outbox (tables s) @ [?r]" "is_unpublished ?r"
    unfolding seq(2) by (simp_all add: tab_create_outbox_def is_unpublished_def)
  moreover have "event_row ?r" unfolding event_row_def by (intro exI [of _ e]) simp
  moreover have "outbox_ok (t_outbox (tables s)) \<longrightarrow> outbox_ok (t_outbox (tables s) @ [?r])"
    using seq(1) by (intro impI outbox_ok_snoc) auto
  moreover have "counters_of (tables s') = counters_of (tables s)"
    unfolding seq(2) by (simp add: tab_create_outbox_def counters_of_def)
  ultimately show ?thesis unfolding grows_def by (intro conjI exI [of _ "[?r]"]) simp_all
qed

lemma create_rows_grows: "create_rows pg es s = (Inr n, s') \<Longrightarrow> grows (tables s) (tables s')"
proof (induction es arbitrary: s)
  case (Cons e es)
  obtain s1 where s1: "gCreateOutbox pg (toOutboxRow e) s = (None, s1)" "create_rows pg es s1 = (Inr n, s')"
    using Cons.prems by (auto split: prod.splits option.splits)
  from CreateOutbox_grows [OF s1(1)] Cons.IH [OF s1(2)] show ?case by (rule grows_trans)
qed (simp add: grows_same)

lemma Save_grows:
  assumes "LinkRepository_Save pg l s = (res, s')"
  shows "grows (tables s) (tables s')"
proof -
  obtain r s1 where r: "gTransaction pg (\<lambda>tx. save_tx pg (model_of l) (lk_events l) tx) s = (r, s1)" by force
  with assms have "s' = s1"
    by (auto simp: LinkRepository_Save_def PullEvents_def split: sum.splits)
  moreover have "grows (tables s) (tables s1)"
  proof (rule transaction_rel [OF r])
    show "grows (tables s0) (tables s2)" if b: "save_tx pg (model_of l) (lk_events l) s0 = (Inr n, s2)" for s0 n s2
    proof -
      obtain s3 where s3: "gSaveLink pg (model_of l) s0 = (None, s3)" "create_rows pg (lk_events l) s3 = (Inr n, s2)"
        using b by (auto simp: save_tx_def split: prod.splits option.splits)
      have "grows (tables s0) (tables s3)"
        using SaveLink [OF s3(1)] by (intro grows_same) (simp_all add: tab_save_link_def counters_of_def)
      then show ?thesis using create_rows_grows [OF s3(2)] by (rule grows_trans)
    qed
  qed (simp add: grows_same)
  ultimately show ?thesis by simp
qed

lemma Append_grows:
  assumes "OutboxStore_Append pg es s = (res, s')"
  shows "grows (tables s) (tables s')"
proof (cases "es = []")
  case True
  with assms show ?thesis by (simp add: OutboxStore_Append_def grows_same)
next
  case False
  obtain r s1 where r: "gTransaction pg (\<lambda>tx. create_rows pg es tx) s = (r, s1)" by force
  with assms False have "s' = s1" by (auto simp: OutboxStore_Append_def split: sum.splits)
  with transaction_rel [OF r, where R = grows] create_rows_grows grows_same show ?thesis by blast
qed

end

subsection \<open>Requests and the stream\<close>

lemma keeps_save_tx: "gorm_keeps pg f \<Longrightarrow> keeps f (save_tx pg m es)"
proof (rule keepsI)
  fix s r s'
  assume k: "gorm_keeps pg f" and r: "save_tx pg m es s = (r, s')"
  obtain u s1 where u: "gSaveLink pg m s = (u, s1)" by force
  have "f s1 = f s" using k keepsD [where f = f and m = "gSaveLink pg m", OF _ u] by (simp add: gorm_keeps_def)
  with r u keepsD [OF keeps_create_rows [OF k, of es]] show "f s' = f s"
    by (auto simp: save_tx_def split: option.splits)
qed

lemma keeps_Save: "gorm_keeps pg f \<Longrightarrow> keeps f (LinkRepository_Save pg l)"
proof (rule keepsI)
  fix s r s'
  assume k: "gorm_keeps pg f" and r: "LinkRepository_Save pg l s = (r, s')"
  have "keeps f (gTransaction pg (\<lambda>tx. save_tx pg (model_of l) (lk_events l) tx))"
    using k keeps_save_tx [OF k] by (simp add: gorm_keeps_def)
  with r show "f s' = f s"
    by (auto simp: LinkRepository_Save_def PullEvents_def dest: keepsD split: prod.splits sum.splits)
qed

lemma keeps_Find: "gorm_keeps pg f \<Longrightarrow> keeps f (LinkRepository_FindByShortCode pg c)"
  by (rule keepsI)
    (auto simp: gorm_keeps_def LinkRepository_FindByShortCode_def dest: keepsD
      split: prod.splits sum.splits option.splits)

lemma keeps_Exists: "gorm_keeps pg f \<Longrightarrow> keeps f (LinkRepository_ExistsByShortCode pg c)"
  by (rule keepsI)
    (auto simp: gorm_keeps_def LinkRepository_ExistsByShortCode_def dest: keepsD split: prod.splits sum.splits)

lemma keeps_create_loop:
  assumes pg: "gorm_keeps pg f" and gen: "keeps f gen"
  shows "create_loop (LinkRepository pg) gen u mts s = (res, s') \<Longrightarrow> f s' = f s"
proof (induction mts arbitrary: s)
  case (Cons mt mts)
  obtain g s1 where g: "gen s = (g, s1)" by force
  have s1: "f s1 = f s" using keepsD [OF gen g] .
  show ?case
  proof (cases g)
    case (Inl e)
    with Cons.prems g s1 show ?thesis by simp
  next
    case (Inr code)
    obtain x s2 where x: "LinkRepository_ExistsByShortCode pg code s1 = (x, s2)" by force
    have s2: "f s2 = f s" using keepsD [OF keeps_Exists [OF pg] x] s1 by simp
    obtain n where n: "NewLink (mt_id mt) (mt_event mt) (mt_t1 mt) (mt_t2 mt) code u = n" by simp
    show ?thesis
    proof (cases "\<exists>l. x = Inr False \<and> n = Inr l")
      case True
      then obtain l where l: "x = Inr False" "n = Inr l" by blast
      obtain r s3 where r: "LinkRepository_Save pg l s2 = (r, s3)" by (metis surj_pair)
      have s3: "f s3 = f s" using keepsD [OF keeps_Save [OF pg] r] s2 by simp
      obtain a b where "r = (a, b)" by force
      with Cons.prems Cons.IH [of s3] g Inr x l n r s3 show ?thesis
        by (auto split: option.splits)
    next
      case False
      with Cons.prems Cons.IH [of s2] g Inr x n s2 show ?thesis
        by (auto split: sum.splits bool.splits)
    qed
  qed
qed simp

text \<open>One request of the API grows the outbox and keeps the stream.\<close>

lemma create_loop_grows:
  assumes pg: "postgres pg tables stamp" and gen: "generator_ok gen tables"
  shows "create_loop (LinkRepository pg) gen u mts s = (res, s') \<Longrightarrow> grows (tables s) (tables s')"
proof (induction mts arbitrary: s)
  case (Cons mt mts)
  obtain g s1 where g: "gen s = (g, s1)" by force
  have s1: "tables s1 = tables s" using gen g by (auto simp: generator_ok_def)
  show ?case
  proof (cases g)
    case (Inl e)
    with Cons.prems g s1 show ?thesis by (simp add: grows_same)
  next
    case (Inr code)
    obtain x s2 where x: "LinkRepository_ExistsByShortCode pg code s1 = (x, s2)" by force
    have s2: "tables s2 = tables s" using postgres.Exists_spec [OF pg x] s1 by simp
    obtain n where n: "NewLink (mt_id mt) (mt_event mt) (mt_t1 mt) (mt_t2 mt) code u = n" by simp
    show ?thesis
    proof (cases "\<exists>l. x = Inr False \<and> n = Inr l")
      case True
      then obtain l where l: "x = Inr False" "n = Inr l" by blast
      obtain r s3 where r: "LinkRepository_Save pg l s2 = (r, s3)" by (metis surj_pair)
      have s3: "grows (tables s) (tables s3)" using postgres.Save_grows [OF pg r] s2 by simp
      obtain a b where ab: "r = (a, b)" by force
      show ?thesis
      proof (cases a)
        case None
        with Cons.prems g Inr x l n r ab s3 show ?thesis by simp
      next
        case (Some e)
        with Cons.prems g Inr x l n r ab have "create_loop (LinkRepository pg) gen u mts s3 = (res, s')" by simp
        from Cons.IH [OF this] s3 show ?thesis by (blast intro: grows_trans)
      qed
    next
      case False
      with Cons.prems Cons.IH [of s2] g Inr x n s2 show ?thesis
        by (auto intro: grows_same split: sum.splits bool.splits)
    qed
  qed
qed (simp add: grows_same)


lemma serve_grows:
  assumes w: "world pg tables stamp rdb kv pub stream" and gen: "generator_ok gen tables"
    and run: "api_serve pg rdb gen cfg req s = (resp, s')"
  shows "grows (tables s) (tables s')"
proof -
  have pg: "postgres pg tables stamp" using w by (simp add: world_def)
  have frame: "redis_keeps rdb tables" using w by (simp add: world_def world_axioms_def)
  note same = grows_eq
  show ?thesis
  proof (cases req)
    case (ReqCreate mint bound)
    show ?thesis
    proof (cases "isl bound \<or> (\<exists>rq e. bound = Inr rq \<and> NewURL (rq_URL rq) = Inl e)")
      case True
      with ReqCreate run have "s' = s"
        by (auto simp: isl_def api_CreateLink_def http_CreateLink_def CreateLink_Handle_def)
      then show ?thesis by (simp add: same)
    next
      case False
      then obtain rq u where u: "bound = Inr rq" "NewURL (rq_URL rq) = Inr u"
        by (metis isl_def sum.exhaust)
      obtain res s1 where c: "create_loop (LinkRepository pg) gen u (map mint [0..<maxShortCodeAttempts]) s = (res, s1)"
        by (metis surj_pair)
      with run ReqCreate u have "s' = s1"
        by (cases res) (simp_all add: api_CreateLink_def http_CreateLink_def CreateLink_Handle_def)
      with create_loop_grows [OF pg gen c] show ?thesis by simp
    qed
  next
    case (ReqDisable i now c)
    show ?thesis
    proof (cases "NewShortCode c")
      case (Inl e)
      with ReqDisable run have "s' = s"
        by (simp add: api_DisableLink_def http_DisableLink_def DisableLink_Handle_def)
      then show ?thesis by (simp add: same)
    next
      case (Inr code)
      obtain f s1 where f: "LinkRepository_FindByShortCode pg code s = (f, s1)" by (metis surj_pair)
      have s1: "tables s1 = tables s" using postgres.Find_spec [OF pg f] by simp
      have "s' = s1 \<or> (\<exists>l r. LinkRepository_Save pg l s1 = (r, s'))"
        using ReqDisable run Inr f
        by (auto simp: api_DisableLink_def http_DisableLink_def DisableLink_Handle_def
            split: sum.splits prod.splits option.splits)
      then show ?thesis using postgres.Save_grows [OF pg] s1 by (metis same)
    qed
  next
    case (ReqRedirect a i now c)
    obtain u s1 where u: "ReadModel_LongURL rdb c s = (u, s1)" by (metis surj_pair)
    have s1: "tables s1 = tables s" using keepsD [OF keeps_LongURL [OF frame] u] .
    have "s' = s1 \<or> (\<exists>es r. OutboxStore_Append pg es s1 = (r, s'))"
      using ReqRedirect run u
      by (auto simp: api_Redirect_def http_Redirect_def Redirect_Handle_def RecordClick_Handle_def
          split: sum.splits prod.splits option.splits)
    then show ?thesis using postgres.Append_grows [OF pg] s1 by (metis same)
  next
    case (ReqStats c)
    obtain n s1 where n: "ReadModel_Clicks rdb c s = (n, s1)" by (metis surj_pair)
    with ReqStats run have "s' = s1"
      by (cases n) (simp_all add: api_Stats_def http_Stats_def GetStats_Handle_def)
    with keepsD [OF keeps_Clicks [OF frame] n] have "tables s' = tables s" by simp
    then show ?thesis by (rule same)
  qed
qed

lemma keeps_serve:
  assumes pg: "gorm_keeps pg f" and rdb: "\<And>c. keeps f (ReadModel_LongURL rdb c)" "\<And>c. keeps f (ReadModel_Clicks rdb c)" and gen: "keeps f gen"
    and run: "api_serve pg rdb gen cfg req s = (resp, s')"
  shows "f s' = f s"
proof (cases req)
  case (ReqCreate mint bound)
  show ?thesis
  proof (cases "isl bound \<or> (\<exists>rq e. bound = Inr rq \<and> NewURL (rq_URL rq) = Inl e)")
    case True
    with ReqCreate run show ?thesis
      by (auto simp: isl_def api_CreateLink_def http_CreateLink_def CreateLink_Handle_def)
  next
    case False
    then obtain rq u where u: "bound = Inr rq" "NewURL (rq_URL rq) = Inr u"
      by (metis isl_def sum.exhaust)
    obtain res s1 where c: "create_loop (LinkRepository pg) gen u (map mint [0..<maxShortCodeAttempts]) s = (res, s1)"
      by (metis surj_pair)
    with run ReqCreate u have "s' = s1"
      by (cases res) (simp_all add: api_CreateLink_def http_CreateLink_def CreateLink_Handle_def)
    with keeps_create_loop [OF pg gen c] show ?thesis by simp
  qed
next
  case (ReqDisable i now c)
  with run show ?thesis
    using keepsD [OF keeps_Find [OF pg]] keepsD [OF keeps_Save [OF pg]]
    by (auto simp: api_DisableLink_def http_DisableLink_def DisableLink_Handle_def
        split: sum.splits prod.splits option.splits)
next
  case (ReqRedirect a i now c)
  with run show ?thesis
    using keepsD [OF rdb(1)] keepsD [OF keeps_Append [OF pg]]
    by (auto simp: api_Redirect_def http_Redirect_def Redirect_Handle_def RecordClick_Handle_def
        split: sum.splits prod.splits option.splits)
next
  case (ReqStats c)
  obtain n s1 where n: "ReadModel_Clicks rdb c s = (n, s1)" by (metis surj_pair)
  with ReqStats run have "s' = s1"
    by (cases n) (simp_all add: api_Stats_def http_Stats_def GetStats_Handle_def)
  with keepsD [OF rdb(2) n] show ?thesis by simp
qed

end
