(* ===== verification/Short_System.thy ===== *)
theory Short_System
  imports Short_Outbox
begin

text \<open>
  url-shortener: the installation, the three programs of \<open>cmd/\<close> on their three servers. A run is
  any interleaving of requests to the API, ticks of the relay, deliveries to the projector and
  restarts of the projector; each of them is one step. Its invariant \<open>pipeline_ok\<close> says that the
  write side, the stream and the read side never contradict one another.
\<close>

subsection \<open>Frames\<close>

lemma keeps_RunOnce:
  assumes "\<And>n. keeps f (sFetchUnpublished source n)" "\<And>now ss. keeps f (sMarkPublished source now ss)"
    and pub: "\<And>subj data i. keeps f (pPublish pub subj data i)"
  shows "keeps f (RunOnce tf source pub limit now)"
proof (rule keepsI)
  have batch: "keeps f (publish_batch tf pub rs)" for rs
  proof (induction rs)
    case (Cons r rs)
    show ?case
    proof (rule keepsI)
      fix s a s'
      assume run: "publish_batch tf pub (r # rs) s = (a, s')"
      show "f s' = f s"
      proof (cases "marshal_envelope tf (envelope_of r)")
        case None
        with run keepsD [OF Cons.IH] show ?thesis by simp
      next
        case (Some data)
        obtain p s1 where p: "pPublish pub (rec_EventType r) data (rec_EventID r) s = (p, s1)" by (metis surj_pair)
        obtain q s2 where q: "publish_batch tf pub rs s1 = (q, s2)" by (metis surj_pair)
        have "s' = s1 \<or> s' = s2" using run Some p q by (auto split: option.splits)
        with keepsD [OF pub p] keepsD [OF Cons.IH q] show ?thesis by auto
      qed
    qed
  qed (simp add: keeps_def)
  fix s r s'
  assume run: "RunOnce tf source pub limit now s = (r, s')"
  obtain x s1 where x: "sFetchUnpublished source limit s = (x, s1)" by (metis surj_pair)
  have s1: "f s1 = f s" using keepsD [OF assms(1) x] .
  show "f s' = f s"
  proof (cases x)
    case (Inl e)
    with run x s1 show ?thesis by (simp add: RunOnce_def)
  next
    case (Inr rs)
    obtain b s2 where b: "publish_batch tf pub rs s1 = (b, s2)" by (metis surj_pair)
    obtain m s3 where m: "sMarkPublished source now b s2 = (m, s3)" by (metis surj_pair)
    have "s' = s1 \<or> s' = s2 \<or> s' = s3"
      using run x Inr b m by (auto simp: RunOnce_def split: if_splits option.splits)
    with s1 keepsD [OF batch b] keepsD [OF assms(2) m] show ?thesis by auto
  qed
qed

lemma keeps_on_message:
  assumes w: "\<And>c u. keeps f (wSaveLink w c u)" "\<And>c. keeps f (wDeleteLink w c)" "\<And>c n. keeps f (wSetClicks w c n)"
    and an: "\<And>i c t. keeps f (aRecordClick an i c t)"
  shows "keeps f (on_message z tp (Projector_Handle up w an now) data)"
proof (rule keepsI)
  have clicked: "keeps f (onClicked up w an now i p)" for i p
  proof (rule keepsI)
    fix s r s'
    assume run: "onClicked up w an now i p s = (r, s')"
    show "f s' = f s"
    proof (cases "up i")
      case (Some j)
      obtain x s1 where x: "aRecordClick an j (pl_ShortCode p) now s = (x, s1)" by (metis surj_pair)
      with run Some keepsD [OF w(3)] keepsD [OF an x] show ?thesis
        by (cases x) (fastforce simp: onClicked_def)+
    qed (use run in \<open>simp add: onClicked_def\<close>)
  qed
  have handle: "keeps f (Projector_Handle up w an now env)" for env
    using w clicked
    by (cases "unmarshal_payload (env_Payload env)")
      (auto simp: keeps_def Projector_Handle_def onCreated_def onDisabled_def)
  fix s r s'
  assume "on_message z tp (Projector_Handle up w an now) data s = (r, s')"
  then show "f s' = f s"
    by (cases "Option.bind data (unmarshal_envelope z tp)")
      (auto simp: on_message_def dest: keepsD [OF handle] split: prod.splits option.splits)
qed

lemma keeps_boot:
  assumes w: "\<And>c u. keeps f (wSaveLink w c u)" "\<And>c. keeps f (wDeleteLink w c)" "\<And>c n. keeps f (wSetClicks w c n)"
  shows "f (boot_links w ls s) = f s" "f (boot_counts w cs s) = f s"
proof -
  show "f (boot_links w ls s) = f s"
    using w by (induction ls arbitrary: s) (simp_all add: keeps_def)
  show "f (boot_counts w cs s) = f s"
    using w by (induction cs arbitrary: s) (auto simp: keeps_def)
qed

lemma keeps_Bootstrap:
  assumes w: "\<And>c u. keeps f (wSaveLink w c u)" "\<And>c. keeps f (wDeleteLink w c)" "\<And>c n. keeps f (wSetClicks w c n)"
    and "keeps f (lListAll reader)" "keeps f (aListAll an)"
  shows "keeps f (Bootstrap reader an w)"
proof (rule keepsI)
  fix s r s'
  assume run: "Bootstrap reader an w s = (r, s')"
  obtain x s1 where x: "lListAll reader s = (x, s1)" by (metis surj_pair)
  show "f s' = f s"
  proof (cases x)
    case (Inl e)
    with run x keepsD [OF assms(4) x] show ?thesis by (simp add: Bootstrap_def)
  next
    case (Inr ls)
    obtain y s2 where y: "aListAll an (boot_links w ls s1) = (y, s2)" by (metis surj_pair)
    with run x Inr have "s' = s2 \<or> (\<exists>cs. s' = boot_counts w cs s2)"
      by (cases y) (auto simp: Bootstrap_def)
    with keepsD [OF assms(4) x] keepsD [OF assms(5) y] keeps_boot [OF w] show ?thesis by auto
  qed
qed


subsection \<open>What the programs leave alone\<close>

context postgres
begin

lemma record_click_tx_frame:
  assumes "record_click_tx pg i c t s = (Inr n, s')"
  shows "t_outbox (tables s') = t_outbox (tables s) \<and> t_links (tables s') = t_links (tables s)"
proof -
  let ?row = "\<lparr>am_ShortCode = c, am_ClickCount = 1, am_LastClickedAt = Some t\<rparr>"
  obtain k s1 where k: "gCreateProcessed pg \<lparr>pm_EventID = i, pm_ProcessedAt = t\<rparr> s = (Inr k, s1)"
    using assms by (auto simp: record_click_tx_def split: prod.splits sum.splits)
  have s1: "t_outbox (tables s1) = t_outbox (tables s) \<and> t_links (tables s1) = t_links (tables s)"
    using CreateProcessed [OF k] by (auto simp: tab_create_processed_def split: option.splits)
  obtain u s2 where u: "(if k > 0 then gUpsertAnalytics pg ?row t s1 else (None, s1)) = (u, s2)" by (metis surj_pair)
  with k assms have none: "u = None" by (cases u) (auto simp: record_click_tx_def split: if_splits)
  have s2: "t_outbox (tables s2) = t_outbox (tables s1) \<and> t_links (tables s2) = t_links (tables s1)"
    using u none UpsertAnalytics [of ?row t s1 s2] by (auto simp: tab_upsert_analytics_def split: if_splits)
  obtain f s3 where f: "gFirstAnalytics pg c s2 = (f, s3)" by (metis surj_pair)
  have "s' = s3" using assms k u none f
    by (cases "k > 0") (auto simp: record_click_tx_def split: sum.splits option.splits)
  with s1 s2 FirstAnalytics [OF f] show ?thesis by simp
qed

lemma keeps_clicks: "keeps (\<lambda>s. (t_outbox (tables s), t_links (tables s))) (AnalyticsStore_RecordClick pg i c t)"
proof (rule keepsI)
  let ?R = "\<lambda>t t'. t_outbox t' = t_outbox t \<and> t_links t' = t_links t"
  fix s r s'
  assume "AnalyticsStore_RecordClick pg i c t s = (r, s')"
  then have tx: "gTransaction pg (\<lambda>tx. record_click_tx pg i c t tx) s = (r, s')"
    by (simp add: AnalyticsStore_RecordClick_def)
  from transaction_rel [OF tx, where R = ?R] record_click_tx_frame
  show "(t_outbox (tables s'), t_links (tables s')) = (t_outbox (tables s), t_links (tables s))" by blast
qed

lemma store_of_publish [simp]: "store_of (tab_publish stamp now seqs t) = store_of t"
  by (simp add: tab_publish_def store_of_def List.map_filter_def filter_map comp_def)

lemma counters_of_publish [simp]: "counters_of (tab_publish stamp now seqs t) = counters_of t"
  by (simp add: tab_publish_def counters_of_def)

lemma keeps_Mark_store:
  "keeps (\<lambda>s. (store_of (tables s), counters_of (tables s))) (OutboxStore_MarkPublished pg now seqs)"
proof (rule keepsI)
  fix s r s'
  assume run: "OutboxStore_MarkPublished pg now seqs s = (r, s')"
  obtain u s1 where u: "gUpdatePublished pg seqs now s = (u, s1)" by (metis surj_pair)
  have "tables s1 = tab_publish stamp now seqs (tables s) \<or> tables s1 = tables s"
    using UpdatePublished [OF u] by auto
  moreover have "s' = s \<or> s' = s1"
    using run u by (auto simp: OutboxStore_MarkPublished_def split: option.splits if_splits)
  ultimately show "(store_of (tables s'), counters_of (tables s')) = (store_of (tables s), counters_of (tables s))"
    by auto
qed

end

context world
begin

lemma keeps_relay:
  "keeps kv (RunOnce tf (OutboxStore_Source pg us) pub limit now)"
  "keeps (\<lambda>s. (store_of (tables s), counters_of (tables s))) (RunOnce tf (OutboxStore_Source pg us) pub limit now)"
proof -
  show "keeps kv (RunOnce tf (OutboxStore_Source pg us) pub limit now)"
    using keeps_Fetch [OF pg_frame(1)] keeps_Mark [OF pg_frame(1)] publish_frame(2)
    by (intro keeps_RunOnce) simp_all
  have "keeps tables (OutboxStore_FetchUnpublished pg us n)" for n
  proof (rule keepsI)
    fix s r s' assume r: "OutboxStore_FetchUnpublished pg us n s = (r, s')"
    obtain f s1 where f: "gFindUnpublished pg n s = (f, s1)" by (metis surj_pair)
    with r have "s' = s1" by (auto simp: OutboxStore_FetchUnpublished_def split: sum.splits)
    with FindUnpublished [OF f] show "tables s' = tables s" by simp
  qed
  then show "keeps (\<lambda>s. (store_of (tables s), counters_of (tables s)))
      (RunOnce tf (OutboxStore_Source pg us) pub limit now)"
    using keeps_Mark_store publish_frame(1)
    by (intro keeps_RunOnce) (simp_all add: keeps_def)
qed

lemma keeps_callback:
  "keeps stream (projector_callback z tp up rdb pg now data)"
  "keeps (\<lambda>s. (t_outbox (tables s), t_links (tables s))) (projector_callback z tp up rdb pg now data)"
proof -
  have *: "keeps f (projector_callback z tp up rdb pg now data)"
    if "redis_keeps rdb f" "\<And>i c t. keeps f (AnalyticsStore_RecordClick pg i c t)" for f :: "'s \<Rightarrow> 'o"
    using keeps_writers [OF that(1)] that(2)
    unfolding projector_callback_def by (intro keepsI, elim keepsD [OF keeps_on_message, rotated -1]) simp_all
  show "keeps stream (projector_callback z tp up rdb pg now data)"
    by (rule * [OF redis_frame(2) keeps_RecordClick [OF pg_frame(2)]])
  have "redis_keeps rdb (\<lambda>s. (t_outbox (tables s), t_links (tables s)))"
    using redis_frame(1) by (simp add: redis_keeps_def keeps_def)
  from * [OF this keeps_clicks]
  show "keeps (\<lambda>s. (t_outbox (tables s), t_links (tables s))) (projector_callback z tp up rdb pg now data)" .
qed

lemma keeps_consume:
  assumes "consume (projector_callback z tp up rdb pg) ds s = (acks, s')"
  shows "t_outbox (tables s') = t_outbox (tables s) \<and> t_links (tables s') = t_links (tables s)"
  using assms
proof (induction ds arbitrary: s acks)
  case (Cons d ds)
  obtain data now where d: "d = (data, now)" by (cases d)
  obtain a s1 where a: "projector_callback z tp up rdb pg now data s = (a, s1)" by (metis surj_pair)
  obtain bs where bs: "consume (projector_callback z tp up rdb pg) ds s1 = (bs, s')"
    using Cons.prems d a by (auto split: prod.splits)
  from Cons.IH [OF bs] keepsD [OF keeps_callback(2) a] show ?case by simp
qed simp

lemma keeps_restart:
  "keeps stream (projector_bootstrap rdb pg)" "keeps tables (projector_bootstrap rdb pg)"
proof -
  have *: "keeps f (projector_bootstrap rdb pg)"
    if "redis_keeps rdb f" "keeps f (LinkRepository_ListAll pg)" "keeps f (AnalyticsStore_ListAll pg)" for f :: "'s \<Rightarrow> 'o"
    unfolding projector_bootstrap_def
    using keeps_writers [OF that(1)] that(2,3) by (intro keeps_Bootstrap) simp_all
  have "keeps stream (LinkRepository_ListAll pg)"
    using pg_frame(2)
    by (intro keepsI) (auto simp: gorm_keeps_def LinkRepository_ListAll_def dest: keepsD split: prod.splits sum.splits)
  with * [OF redis_frame(2)] keeps_ListCounts [OF pg_frame(2)] show "keeps stream (projector_bootstrap rdb pg)"
    by blast
  have "keeps tables (LinkRepository_ListAll pg)" "keeps tables (AnalyticsStore_ListAll pg)"
    by (auto intro!: keepsI dest: ListLinks_spec ListCounts_spec)
  with * [OF redis_frame(1)] show "keeps tables (projector_bootstrap rdb pg)" by blast
qed

end


subsection \<open>The installation and its runs\<close>

text \<open>The servers with what the programs take from their libraries and their configuration.\<close>

record 's servers =
  sv_db :: "'s gorm"
  sv_redis :: "'s redis"
  sv_bus :: "'s Publisher"
  sv_gen :: "'s \<Rightarrow> (app_error + ShortCode) \<times> 's"
  sv_config :: Config
  sv_time_Format :: "time \<Rightarrow> string option"
  sv_time_Parse :: "string \<Rightarrow> time option"
  sv_zero_time :: time
  sv_uuid_String :: "uuid \<Rightarrow> string"
  sv_uuid_Parse :: "string \<Rightarrow> uuid option"

datatype pipeline_event =
    Request api_request
  | Tick time
  | Deliver json time
  | Restart

text \<open>The effect of a step. What the programs answer, log or acknowledge does not change the servers.\<close>

definition relay_tick :: "'s servers \<Rightarrow> time \<Rightarrow> 's \<Rightarrow> (int \<times> app_error option) \<times> 's" where
  "relay_tick sv now =
     RunOnce (sv_time_Format sv) (OutboxStore_Source (sv_db sv) (sv_uuid_String sv)) (sv_bus sv)
       (RelayBatchSize (sv_config sv)) now"

definition deliver :: "'s servers \<Rightarrow> time \<Rightarrow> json option \<Rightarrow> 's \<Rightarrow> ack \<times> 's" where
  "deliver sv now data =
     projector_callback (sv_zero_time sv) (sv_time_Parse sv) (sv_uuid_Parse sv) (sv_redis sv) (sv_db sv) now data"

fun pipeline_next :: "'s servers \<Rightarrow> pipeline_event \<Rightarrow> 's \<Rightarrow> 's" where
  "pipeline_next sv (Request req) s =
     snd (api_serve (sv_db sv) (sv_redis sv) (sv_gen sv) (sv_config sv) req s)"
| "pipeline_next sv (Tick now) s = snd (relay_tick sv now s)"
| "pipeline_next sv (Deliver data now) s = snd (deliver sv now (Some data) s)"
| "pipeline_next sv Restart s = snd (projector_bootstrap (sv_redis sv) (sv_db sv) s)"

text \<open>A creation mints fresh ids; the bus delivers what is on the stream, any message at any time.\<close>

fun pipeline_can :: "('s \<Rightarrow> tables) \<Rightarrow> ('s \<Rightarrow> bus_msg list) \<Rightarrow> pipeline_event \<Rightarrow> 's \<Rightarrow> bool" where
  "pipeline_can tables stream (Request req) s = request_fresh req (store_of (tables s))"
| "pipeline_can tables stream (Deliver data now) s = (data \<in> bm_data ` set (stream s))"
| "pipeline_can tables stream _ s = True"

inductive pipeline_run ::
  "'s servers \<Rightarrow> ('s \<Rightarrow> tables) \<Rightarrow> ('s \<Rightarrow> bus_msg list) \<Rightarrow> 's \<Rightarrow> 's \<Rightarrow> bool"
  for sv :: "'s servers" and tables :: "'s \<Rightarrow> tables" and stream :: "'s \<Rightarrow> bus_msg list" and s :: 's where
  pipeline_start: "pipeline_run sv tables stream s s"
| pipeline_step: "pipeline_run sv tables stream s s1 \<Longrightarrow> pipeline_can tables stream ev s1 \<Longrightarrow>
    pipeline_run sv tables stream s (pipeline_next sv ev s1)"

text \<open>The state of fresh servers.\<close>

definition fresh_servers ::
  "('s \<Rightarrow> tables) \<Rightarrow> ('s \<Rightarrow> (string \<rightharpoonup> string)) \<Rightarrow> ('s \<Rightarrow> bus_msg list) \<Rightarrow> 's \<Rightarrow> bool" where
  "fresh_servers tables kv stream s \<longleftrightarrow>
     t_links (tables s) = Map.empty \<and> t_outbox (tables s) = [] \<and> t_analytics (tables s) = Map.empty
     \<and> t_processed (tables s) = Map.empty \<and> kv s = Map.empty \<and> stream s = []"

locale installation =
  fixes sv :: "'s servers" and tables :: "'s \<Rightarrow> tables" and stamp :: "time \<Rightarrow> time"
    and kv :: "'s \<Rightarrow> (string \<rightharpoonup> string)" and stream :: "'s \<Rightarrow> bus_msg list"
  assumes servers: "world (sv_db sv) tables stamp (sv_redis sv) kv (sv_bus sv) stream"
    and texts: "wire (sv_time_Format sv) (sv_time_Parse sv) (sv_uuid_String sv) (sv_uuid_Parse sv)"
    and codes: "generator_ok (sv_gen sv) tables" "keeps kv (sv_gen sv)" "keeps stream (sv_gen sv)"
    and batch_size: "0 < RelayBatchSize (sv_config sv)"

subsection \<open>The invariant\<close>

text \<open>
  The counters count recorded clicks, each once. The read model knows no link that was not created
  and shows no click that was not counted.
\<close>

definition clicks_ok :: "fact list \<Rightarrow> analytics \<Rightarrow> bool" where
  "clicks_ok log an \<longleftrightarrow> an_seen an \<subseteq> clicks_of_facts log
     \<and> (\<forall>c. count_of an c = int (card {f \<in> set log. is_click f \<and> f_code f = c \<and> f_id f \<in> an_seen an}))"

definition view_sound :: "fact list \<Rightarrow> analytics \<Rightarrow> view \<Rightarrow> bool" where
  "view_sound log an v \<longleftrightarrow>
     (\<forall>c u. v_links v c = Some u \<longrightarrow>
        (\<exists>f \<in> set log. f_type f = EventTypeLinkCreated \<and> f_code f = c \<and> (f_url f = u \<or> f_url f = to_valid u)))
     \<and> (\<forall>c n. v_clicks v c = Some n \<longrightarrow> n \<le> count_of an c)"

definition pipeline_ok ::
  "'s servers \<Rightarrow> ('s \<Rightarrow> tables) \<Rightarrow> ('s \<Rightarrow> (string \<rightharpoonup> string)) \<Rightarrow> ('s \<Rightarrow> bus_msg list) \<Rightarrow> 's \<Rightarrow> bool" where
  "pipeline_ok sv tables kv stream s \<longleftrightarrow>
     (let st = store_of (tables s); an = counters_of (tables s) in
      consistent st \<and> (\<forall>r \<in> set (t_outbox (tables s)). event_row r)
      \<and> relay_ok (sv_time_Format sv) (sv_uuid_String sv) (t_outbox (tables s)) (stream s)
      \<and> clicks_ok (st_log st) an \<and> view_sound (st_log st) an (view_of (kv s)))"

lemma clicks_ok_grow:
  assumes "clicks_ok log an" "set log \<subseteq> set log'" "distinct (map f_id log')"
  shows "clicks_ok log' an"
proof -
  have seen: "an_seen an \<subseteq> clicks_of_facts log" using assms by (simp add: clicks_ok_def)
  have old: "f \<in> set log" if f: "f \<in> set log'" "f_id f \<in> an_seen an" for f
  proof -
    obtain g where g: "g \<in> set log" "f_id g = f_id f" using seen f(2) by (auto simp: clicks_of_facts_def)
    have "inj_on f_id (set log')" using assms(3) by (simp add: distinct_map)
    then have "f = g" using g assms(2) f(1) by (auto dest: inj_onD)
    with g show ?thesis by simp
  qed
  have "{f \<in> set log'. is_click f \<and> f_code f = c \<and> f_id f \<in> an_seen an}
      = {f \<in> set log. is_click f \<and> f_code f = c \<and> f_id f \<in> an_seen an}" for c
    using old assms(2) by auto
  moreover have "clicks_of_facts log \<subseteq> clicks_of_facts log'"
    unfolding clicks_of_facts_def using assms(2) by (intro image_mono) auto
  ultimately show ?thesis using assms(1) unfolding clicks_ok_def by auto
qed

lemma clicks_ok_click:
  assumes ok: "clicks_ok log an" and f: "f \<in> set log" "is_click f" and ids: "distinct (map f_id log)"
  shows "clicks_ok log (click (f_id f) (f_code f) an)"
proof (cases "f_id f \<in> an_seen an")
  case True
  with ok show ?thesis by (simp add: click_def)
next
  case False
  have uniq: "g = f" if "g \<in> set log" "f_id g = f_id f" for g
    using ids f that by (auto simp: distinct_map dest: inj_onD)
  let ?S = "\<lambda>an c. {g \<in> set log. is_click g \<and> f_code g = c \<and> f_id g \<in> an_seen an}"
  have "?S (click (f_id f) (f_code f) an) c = (if f_code f = c then insert f (?S an c) else ?S an c)" for c
    using f uniq by auto
  moreover have "f \<notin> ?S an c" for c using False by simp
  ultimately show ?thesis
    using ok f False by (auto simp: clicks_ok_def count_of_click clicks_of_facts_def)
qed

lemma view_sound_grow:
  "view_sound log an v \<Longrightarrow> set log \<subseteq> set log' \<Longrightarrow> view_sound log' an v"
  unfolding view_sound_def by (meson subsetD)

lemma view_sound_count:
  "view_sound log an v \<Longrightarrow> (\<And>c. count_of an c \<le> count_of an' c) \<Longrightarrow> view_sound log an' v"
  unfolding view_sound_def by (meson order_trans)

lemma count_of_click_mono: "count_of an c \<le> count_of (click i d an) c"
  by (simp add: count_of_click)

text \<open>A delivery of a fact of the log keeps both, whether it succeeds, fails or fails half-way.\<close>

lemma partly_sound:
  assumes p: "partly f (v, an) (v', an')" and f: "f \<in> set log" and ids: "distinct (map f_id log)"
    and ok: "clicks_ok log an" "view_sound log an v"
  shows "clicks_ok log an' \<and> view_sound log an' v'"
proof -
  consider (same) "v' = v" "an' = an" | (all) "(v', an') = project f (v, an)"
    | (half) "is_click f" "v' = v" "an' = click (f_id f) (f_code f) an"
    using p by (auto simp: partly_def)
  then show ?thesis
  proof cases
    case same
    with ok show ?thesis by simp
  next
    case half
    with clicks_ok_click [OF ok(1) f half(1) ids] view_sound_count [OF ok(2) count_of_click_mono] show ?thesis
      by simp
  next
    case all
    have an': "an' = (if is_click f then click (f_id f) (f_code f) an else an)"
      using all project_counters [of f "(v, an)"] by (metis snd_conv)
    then have "clicks_ok log an'" using clicks_ok_click [OF ok(1) f _ ids] ok(1) by simp
    moreover have "view_sound log an' v"
      using view_sound_count [OF ok(2) count_of_click_mono] ok(2) an' by simp
    moreover have "v_links v' c = (if is_lifecycle f \<and> f_code f = c then resolution f else v_links v c)"
      "v_clicks v' c = (if is_click f \<and> f_code f = c then Some (count_of an' c) else v_clicks v c)" for c
      using project_links [of f "(v, an)" c] project_clicks [of f "(v, an)" c] unfolding all [symmetric] by simp_all
    ultimately show ?thesis
      using f unfolding view_sound_def by (auto simp: resolution_def split: if_splits)
  qed
qed


subsection \<open>Every step keeps the invariant\<close>

context projector
begin

lemma boot_links_sound:
  "(\<forall>c u. v_links (view s) c = Some u \<longrightarrow> P c u) \<Longrightarrow>
   (\<forall>l \<in> set ls. \<not> sn_Disabled l \<longrightarrow> P (sn_ShortCode l) (sn_LongURL l)) \<Longrightarrow>
     (\<forall>c u. v_links (view (boot_links w ls s)) c = Some u \<longrightarrow> P c u)
     \<and> v_clicks (view (boot_links w ls s)) = v_clicks (view s)"
proof (induction ls arbitrary: s)
  case (Cons l ls)
  define s1 where "s1 = (if sn_Disabled l then snd (wDeleteLink w (sn_ShortCode l) s)
      else snd (wSaveLink w (sn_ShortCode l) (sn_LongURL l) s))"
  obtain r a where a: "wDeleteLink w (sn_ShortCode l) s = (r, a)" by (metis surj_pair)
  obtain q b where b: "wSaveLink w (sn_ShortCode l) (sn_LongURL l) s = (q, b)" by (metis surj_pair)
  have "(\<forall>c u. v_links (view s1) c = Some u \<longrightarrow> P c u) \<and> v_clicks (view s1) = v_clicks (view s)"
    using write_outcome_cases [OF DeleteLink [OF a]] write_outcome_cases [OF SaveLink [OF b]] Cons.prems a b
    by (auto simp: s1_def split: if_splits)
  with Cons.IH [of s1] Cons.prems(2) show ?case by (simp add: s1_def)
qed simp

lemma boot_counts_sound:
  "(\<forall>c n. v_clicks (view s) c = Some n \<longrightarrow> P c n) \<Longrightarrow> (\<forall>(c, n) \<in> set cs. int64 n \<and> P c n) \<Longrightarrow>
     (\<forall>c n. v_clicks (view (boot_counts w cs s)) c = Some n \<longrightarrow> P c n)
     \<and> v_links (view (boot_counts w cs s)) = v_links (view s)"
proof (induction cs arbitrary: s)
  case (Cons p cs)
  obtain c n where p: "p = (c, n)" by (cases p)
  obtain r s1 where r: "wSetClicks w c n s = (r, s1)" by (metis surj_pair)
  have n: "int64 n" "P c n" using Cons.prems(2) p by auto
  have "(\<forall>c n. v_clicks (view s1) c = Some n \<longrightarrow> P c n) \<and> v_links (view s1) = v_links (view s)"
    using write_outcome_cases [OF SetClicks [OF n(1) r]] Cons.prems(1) n(2) by (auto split: if_splits)
  with Cons.IH [of s1] Cons.prems(2) p r show ?case by simp
qed simp

lemma Bootstrap_sound:
  assumes reader: "link_reader_port reader store"
    and frame: "\<And>s r s'. lListAll reader s = (r, s') \<Longrightarrow> view s' = view s \<and> counters s' = counters s"
    and run: "Bootstrap reader an w s = (res, s')"
    and links: "\<forall>c u. v_links (view s) c = Some u \<longrightarrow> P c u"
    and rows: "\<forall>i r. st_links (store s) i = Some r \<and> \<not> IsDisabled (sl_status r) \<longrightarrow> P (sl_code r) (sl_url r)"
    and clicks: "\<forall>c n. v_clicks (view s) c = Some n \<longrightarrow> n \<le> count_of (counters s) c"
  shows "(\<forall>c u. v_links (view s') c = Some u \<longrightarrow> P c u)
    \<and> (\<forall>c n. v_clicks (view s') c = Some n \<longrightarrow> n \<le> count_of (counters s) c)"
proof -
  obtain x s1 where x: "lListAll reader s = (x, s1)" by (metis surj_pair)
  note s1 = frame [OF x]
  show ?thesis
  proof (cases x)
    case (Inl e)
    with run x s1 links clicks show ?thesis by (simp add: Bootstrap_def)
  next
    case (Inr ls)
    have "set ls = snapshot ` ran (st_links (store s))"
      using link_reader_port.lListAll_ok [OF reader x [unfolded Inr]] .
    then have ls: "\<forall>l \<in> set ls. \<not> sn_Disabled l \<longrightarrow> P (sn_ShortCode l) (sn_LongURL l)"
      using rows by (auto simp: snapshot_def ran_def)
    let ?s2 = "boot_links w ls s1"
    have v2: "\<forall>c u. v_links (view ?s2) c = Some u \<longrightarrow> P c u" "v_clicks (view ?s2) = v_clicks (view s)"
      using boot_links_sound [OF _ ls, of s1] links s1 by simp_all
    have an2: "counters ?s2 = counters s"
      using keeps_boot(1) [of counters w ls s1] SaveLink_counters DeleteLink_counters SetClicks_counters s1
      by (simp add: keepsI)
    obtain y s3 where y: "aListAll an ?s2 = (y, s3)" by (metis surj_pair)
    have v3: "view s3 = view ?s2" by (rule aListAll_view [OF y])
    show ?thesis
    proof (cases y)
      case (Inl e)
      with run x Inr y v3 v2 clicks show ?thesis by (simp add: Bootstrap_def)
    next
      case counts: (Inr cs)
      note c = aListAll_ok [OF y [unfolded counts]]
      have cs: "\<forall>(c, n) \<in> set cs. int64 n \<and> n \<le> count_of (counters s) c"
        using c an2 is_iteration_set [of "an_count (counters s)" cs] by (auto simp: count_of_def)
      have s': "s' = boot_counts w cs s3" using run x Inr y counts by (simp add: Bootstrap_def)
      have "\<forall>c n. v_clicks (view s3) c = Some n \<longrightarrow> n \<le> count_of (counters s) c" using v3 v2 clicks by simp
      from boot_counts_sound [OF this cs] v3 v2 s' show ?thesis by simp
    qed
  qed
qed

lemma Bootstrap_wiped:
  assumes reader: "link_reader_port reader store"
    and frame: "\<And>s r s'. lListAll reader s = (r, s') \<Longrightarrow> view s' = view s \<and> counters s' = counters s"
    and run: "Bootstrap reader an w s = (None, s')"
    and healthy: "healthy s"
      "\<And>c u s. healthy s \<Longrightarrow> \<exists>s'. wSaveLink w c u s = (None, s') \<and> healthy s'"
      "\<And>c s. healthy s \<Longrightarrow> \<exists>s'. wDeleteLink w c s = (None, s') \<and> healthy s'"
      "\<And>c n s. healthy s \<Longrightarrow> \<exists>s'. wSetClicks w c n s = (None, s') \<and> healthy s'"
      "\<And>s r s'. healthy s \<Longrightarrow> lListAll reader s = (r, s') \<Longrightarrow> healthy s'"
      "\<And>s r s'. healthy s \<Longrightarrow> aListAll an s = (r, s') \<Longrightarrow> healthy s'"
    and ok: "store_ok (store s)"
    and wiped: "view s = \<lparr>v_links = Map.empty, v_clicks = Map.empty\<rparr>"
  shows "(v_links (view s') c = Some u \<longleftrightarrow>
      (\<exists>i r. st_links (store s) i = Some r \<and> sl_code r = c \<and> \<not> IsDisabled (sl_status r) \<and> sl_url r = u))
    \<and> v_clicks (view s') = an_count (counters s)"
proof -
  obtain ls s1 where x: "lListAll reader s = (Inr ls, s1)"
    using run by (cases "lListAll reader s") (auto simp: Bootstrap_def split: sum.splits)
  have ls: "set ls = snapshot ` ran (st_links (store s))"
    using link_reader_port.lListAll_ok [OF reader x] .
  have inj: "inj_on sn_ShortCode (set ls)"
  proof (rule inj_onI)
    fix a b assume ab: "a \<in> set ls" "b \<in> set ls" "sn_ShortCode a = sn_ShortCode b"
    then obtain i r j q where "st_links (store s) i = Some r" "a = snapshot r" "st_links (store s) j = Some q" "b = snapshot q"
      unfolding ls by (auto simp: ran_def)
    moreover from this ab(3) ok have "i = j" by (auto simp: store_ok_def snapshot_def)
    ultimately show "a = b" by simp
  qed
  let ?s2 = "boot_links w ls s1"
  have h1: "healthy s1" using healthy(5) [OF healthy(1) x] .
  have s1: "view s1 = view s" "counters s1 = counters s" using frame [OF x] by simp_all
  note b = boot_links_spec [where healthy = healthy, OF healthy(2,3) inj h1]
  obtain cs s3 where y: "aListAll an ?s2 = (Inr cs, s3)" "s' = boot_counts w cs s3"
    using run x by (cases "aListAll an ?s2") (auto simp: Bootstrap_def split: sum.splits)
  have h3: "healthy s3" using healthy(6) [OF _ y(1)] b by simp
  have v3: "view s3 = view ?s2" "counters s3 = counters ?s2"
    using aListAll_view [OF y(1)] aListAll_counters [OF y(1)] by simp_all
  note cs = aListAll_ok [OF y(1)]
  note k = boot_counts_spec [where healthy = healthy, OF healthy(4) h3 is_iteration_distinct [OF conjunct1 [OF cs]] conjunct2 [OF cs]]
  have "map_of cs = an_count (counters s)"
    using cs b s1 by (simp add: is_iteration_def)
  then have clicks: "v_clicks (view s') = an_count (counters s)"
    using k y(2) v3 b s1 wiped by (auto simp: fun_eq_iff split: option.splits)
  have links: "v_links (view s') = v_links (view ?s2)" using k y(2) v3 by simp
  have "v_links (view ?s2) c = Some u \<longleftrightarrow>
      (\<exists>i r. st_links (store s) i = Some r \<and> sl_code r = c \<and> \<not> IsDisabled (sl_status r) \<and> sl_url r = u)"
  proof (cases "c \<in> sn_ShortCode ` set ls")
    case False
    with b s1 wiped have "v_links (view ?s2) c = None" by simp
    moreover from False have "\<not> (\<exists>i r. st_links (store s) i = Some r \<and> sl_code r = c)"
      unfolding ls by (force simp: snapshot_def ran_def)
    ultimately show ?thesis by auto
  next
    case True
    then obtain l where l: "l \<in> set ls" "sn_ShortCode l = c" by auto
    then obtain i r where "st_links (store s) i = Some r" "l = snapshot r" unfolding ls by (auto simp: ran_def)
    with l have r: "st_links (store s) i = Some r" "sl_code r = c" "snapshot r \<in> set ls"
      by (simp_all add: snapshot_def)
    with b have v: "v_links (view ?s2) c = (if IsDisabled (sl_status r) then None else Some (sl_url r))"
      by (auto simp: snapshot_def)
    have "q = r" if "st_links (store s) j = Some q" "sl_code q = c" for j q
    proof -
      have "j = i" using ok that r by (auto simp: store_ok_def)
      with that r show ?thesis by simp
    qed
    with r have "(\<exists>i r. st_links (store s) i = Some r \<and> sl_code r = c \<and> \<not> IsDisabled (sl_status r) \<and> sl_url r = u)
        \<longleftrightarrow> \<not> IsDisabled (sl_status r) \<and> sl_url r = u" by metis
    with v show ?thesis by simp
  qed
  with links clicks show ?thesis by simp
qed

end

lemma relay_ok_grows:
  assumes "relay_ok tf us rs ms" "outbox_ok (rs @ new)" "\<forall>r \<in> set new. is_unpublished r"
  shows "relay_ok tf us (rs @ new) ms"
  using assms by (auto simp: relay_ok_def)

lemma lifecycle_mem: "f \<in> set (lifecycle_of c fs) \<Longrightarrow> f \<in> set fs \<and> f_code f = c"
  by (simp add: lifecycle_of_def)

lemma consistent_ids: "consistent st \<Longrightarrow> distinct (map f_id (st_log st))"
  by (simp add: consistent_def store_ok_def)

sublocale installation \<subseteq> site: world "sv_db sv" tables stamp "sv_redis sv" kv "sv_bus sv" stream
  by (rule servers)

sublocale installation \<subseteq> forms: wire "sv_time_Format sv" "sv_time_Parse sv" "sv_uuid_String sv" "sv_uuid_Parse sv"
  by (rule texts)

context wire
begin

text \<open>A message says what its row says.\<close>

lemma message_roundtrip:
  assumes "message_of time_Format uuid_String r = Some m" "to_valid (om_EventType r) = om_EventType r"
  shows "message_fact z time_Parse uuid_Parse (Some (bm_data m)) = row_fact r"
proof -
  have "marshal_envelope time_Format (envelope_of (record_of uuid_String r)) = Some (bm_data m)"
    using assms(1) by (auto simp: message_of_def)
  then have "unmarshal_envelope z time_Parse (bm_data m) = Some (envelope_of (record_of uuid_String r))"
    by (rule envelope_roundtrip) (simp_all add: envelope_of_def uuid_ascii assms(2))
  then show ?thesis
    by (simp add: message_fact_def envelope_fact_def envelope_of_def uuid_roundtrip row_fact_def)
qed

lemma message_text:
  assumes "message_of time_Format uuid_String r = Some m" "json_ok (om_Payload r)"
    "json_depth (om_Payload r) < maxNestingDepth" "valid_json (om_Payload r) = om_Payload r"
  shows "json_Unmarshal (json_text (bm_data m)) = Some (bm_data m)"
proof -
  have "marshal_envelope time_Format (envelope_of (record_of uuid_String r)) = Some (bm_data m)"
    using assms(1) by (auto simp: message_of_def)
  then show ?thesis by (rule envelope_text) (use assms in \<open>simp_all add: envelope_of_def\<close>)
qed

end

lemma event_type_valid [simp]: "to_valid (EventType e) = EventType e"
  by (cases e) (simp_all add: ascii_def EventTypeLinkCreated_def EventTypeLinkDisabled_def EventTypeLinkClicked_def)

lemma toOutboxRow_text:
  "json_ok (om_Payload (toOutboxRow e))" "json_depth (om_Payload (toOutboxRow e)) < maxNestingDepth"
  "valid_json (om_Payload (toOutboxRow e)) = om_Payload (toOutboxRow e)"
  by (cases e; simp add: toOutboxRow_def payload_text maxNestingDepth_def)+

lemma event_row_type: "event_row r \<Longrightarrow> to_valid (om_EventType r) = om_EventType r"
  by (auto simp: event_row_def)

lemma event_row_in_log:
  "event_row r \<Longrightarrow> r \<in> set (t_outbox t) \<Longrightarrow> \<exists>f. row_fact r = Some f \<and> f \<in> set (st_log (store_of t))"
  by (force simp: event_row_def store_of_def List.map_filter_def)


context installation
begin

abbreviation (input) log_of :: "'s \<Rightarrow> fact list" where
  "log_of s \<equiv> st_log (store_of (tables s))"

lemma request_ok:
  assumes ok: "pipeline_ok sv tables kv stream s" and fresh: "request_fresh req (store_of (tables s))"
  shows "pipeline_ok sv tables kv stream (pipeline_next sv (Request req) s)"
proof -
  obtain resp s' where run: "api_serve (sv_db sv) (sv_redis sv) (sv_gen sv) (sv_config sv) req s = (resp, s')"
    by (metis surj_pair)
  from ok have c: "consistent (store_of (tables s))" "\<forall>r \<in> set (t_outbox (tables s)). event_row r"
    "relay_ok (sv_time_Format sv) (sv_uuid_String sv) (t_outbox (tables s)) (stream s)"
    "clicks_ok (log_of s) (counters_of (tables s))" "view_sound (log_of s) (counters_of (tables s)) (view_of (kv s))"
    by (simp_all add: pipeline_ok_def Let_def)
  have c': "consistent (store_of (tables s'))"
    using consistent_steps [OF serve_steps [OF servers codes(1) run fresh] c(1)] .
  obtain new where new: "t_outbox (tables s') = t_outbox (tables s) @ new"
    "\<forall>r \<in> set new. is_unpublished r \<and> event_row r" "outbox_ok (t_outbox (tables s'))"
    "counters_of (tables s') = counters_of (tables s)"
    using serve_grows [OF servers codes(1) run] c(3) by (auto simp: grows_def relay_ok_def)
  have same: "kv s' = kv s" "stream s' = stream s"
  proof -
    have "keeps kv (ReadModel_LongURL (sv_redis sv) c)" "keeps kv (ReadModel_Clicks (sv_redis sv) c)" for c
      using site.LongURL_spec site.Clicks_spec by (auto intro!: keepsI)
    then show "kv s' = kv s" by (rule keeps_serve [OF site.pg_frame(1) _ _ codes(2) run])
    show "stream s' = stream s"
      by (rule keeps_serve [OF site.pg_frame(2) keeps_LongURL keeps_Clicks codes(3) run]) (rule site.redis_frame(2))+
  qed
  have log: "log_of s' = log_of s @ List.map_filter row_fact new"
    by (simp add: store_of_def new(1) map_filter_append)
  then have "clicks_ok (log_of s') (counters_of (tables s))"
    "view_sound (log_of s') (counters_of (tables s)) (view_of (kv s))"
    using clicks_ok_grow [OF c(4) _ consistent_ids [OF c']] view_sound_grow [OF c(5)] by simp_all
  with c' c new same run show ?thesis
    using relay_ok_grows [OF c(3)] by (auto simp: pipeline_ok_def Let_def)
qed

lemma tick_ok:
  assumes ok: "pipeline_ok sv tables kv stream s"
  shows "pipeline_ok sv tables kv stream (pipeline_next sv (Tick now) s)"
proof -
  obtain n err s' where run: "relay_tick sv now s = ((n, err), s')" by (metis surj_pair)
  from ok have c: "\<forall>r \<in> set (t_outbox (tables s)). event_row r"
    "relay_ok (sv_time_Format sv) (sv_uuid_String sv) (t_outbox (tables s)) (stream s)"
    by (simp_all add: pipeline_ok_def Let_def)
  have same: "kv s' = kv s" "store_of (tables s') = store_of (tables s)" "counters_of (tables s') = counters_of (tables s)"
    using keepsD [OF site.keeps_relay(1) run [unfolded relay_tick_def]]
      keepsD [OF site.keeps_relay(2) run [unfolded relay_tick_def]] by simp_all
  have r: "relay_ok (sv_time_Format sv) (sv_uuid_String sv) (t_outbox (tables s')) (stream s')"
    using site.publisher.RunOnce_relay_ok [OF run [unfolded relay_tick_def] batch_size c(2)] .
  obtain seqs where "t_outbox (tables s') = map (publish_row stamp now seqs) (t_outbox (tables s))
      \<or> t_outbox (tables s') = t_outbox (tables s)"
    using site.publisher.RunOnce_spec [OF run [unfolded relay_tick_def] batch_size] by metis
  then have "\<forall>r \<in> set (t_outbox (tables s')). event_row r" using c(1) by auto
  with ok r same run show ?thesis by (simp add: pipeline_ok_def Let_def)
qed

lemma stream_fact:
  assumes ok: "pipeline_ok sv tables kv stream s" and data: "data \<in> bm_data ` set (stream s)"
  obtains f where "f \<in> set (log_of s)"
    "message_fact (sv_zero_time sv) (sv_time_Parse sv) (sv_uuid_Parse sv) (Some data) = Some f"
proof -
  from ok data obtain m r where r: "m \<in> set (stream s)" "data = bm_data m" "r \<in> set (t_outbox (tables s))"
    "message_of (sv_time_Format sv) (sv_uuid_String sv) r = Some m" "event_row r"
    by (auto simp: pipeline_ok_def relay_ok_def Let_def)
  from event_row_in_log [OF r(5,3)] forms.message_roundtrip [OF r(4) event_row_type [OF r(5)]] r(2)
  show thesis using that by auto
qed

lemma deliver_ok:
  assumes ok: "pipeline_ok sv tables kv stream s" and data: "data \<in> bm_data ` set (stream s)"
  shows "pipeline_ok sv tables kv stream (pipeline_next sv (Deliver data now) s)"
proof -
  obtain f where f: "f \<in> set (log_of s)"
    "message_fact (sv_zero_time sv) (sv_time_Parse sv) (sv_uuid_Parse sv) (Some data) = Some f"
    by (rule stream_fact [OF ok data])
  obtain a s' where run: "deliver sv now (Some data) s = (a, s')" by (metis surj_pair)
  from site.consumer.on_message_spec [OF run [unfolded deliver_def projector_callback_def] f(2)]
  have p: "partly f (view_of (kv s), counters_of (tables s)) (view_of (kv s'), counters_of (tables s'))"
    by (auto simp: partly_def)
  have same: "stream s' = stream s" "t_outbox (tables s') = t_outbox (tables s)"
      "store_of (tables s') = store_of (tables s)"
    using keepsD [OF site.keeps_callback(1) run [unfolded deliver_def]]
      keepsD [OF site.keeps_callback(2) run [unfolded deliver_def]]
    by (simp_all add: store_of_def)
  from ok have c: "consistent (store_of (tables s))" "clicks_ok (log_of s) (counters_of (tables s))"
    "view_sound (log_of s) (counters_of (tables s)) (view_of (kv s))"
    by (simp_all add: pipeline_ok_def Let_def)
  from partly_sound [OF p f(1) consistent_ids [OF c(1)] c(2,3)] ok same run show ?thesis
    by (simp add: pipeline_ok_def Let_def)
qed

lemma restart_ok:
  assumes ok: "pipeline_ok sv tables kv stream s"
  shows "pipeline_ok sv tables kv stream (pipeline_next sv Restart s)"
proof -
  obtain e s' where run: "projector_bootstrap (sv_redis sv) (sv_db sv) s = (e, s')" by (metis surj_pair)
  have same: "stream s' = stream s" "tables s' = tables s"
    using keepsD [OF site.keeps_restart(1) run] keepsD [OF site.keeps_restart(2) run] by simp_all
  from ok have c: "consistent (store_of (tables s))" and v: "view_sound (log_of s) (counters_of (tables s)) (view_of (kv s))"
    by (simp_all add: pipeline_ok_def Let_def)
  let ?P = "\<lambda>c u. \<exists>f \<in> set (log_of s). f_type f = EventTypeLinkCreated \<and> f_code f = c \<and> (f_url f = u \<or> f_url f = to_valid u)"
  have rows: "\<forall>i r. st_links (store_of (tables s)) i = Some r \<and> \<not> IsDisabled (sl_status r) \<longrightarrow> ?P (sl_code r) (sl_url r)"
  proof (intro allI impI)
    fix i r
    assume "st_links (store_of (tables s)) i = Some r \<and> \<not> IsDisabled (sl_status r)"
    with c have "map f_type (lifecycle_of (sl_code r) (log_of s)) = [EventTypeLinkCreated]"
      "f_url (hd (lifecycle_of (sl_code r) (log_of s))) = to_valid (sl_url r)"
      by (auto simp: consistent_def link_consistent_def lifecycle_types_def)
    then obtain f where "lifecycle_of (sl_code r) (log_of s) = [f]" "f_type f = EventTypeLinkCreated"
      "f_url f = to_valid (sl_url r)" by auto
    then show "?P (sl_code r) (sl_url r)"
      using lifecycle_mem [of f "sl_code r" "log_of s"] by auto
  qed
  have frame: "view_of (kv t') = view_of (kv t) \<and> counters_of (tables t') = counters_of (tables t)"
    if "lListAll (LinkRepository_Reader (sv_db sv)) t = (r, t')" for t r t'
  proof -
    have l: "LinkRepository_ListAll (sv_db sv) t = (r, t')" using that by simp
    obtain g t1 where g: "gFindLinks (sv_db sv) t = (g, t1)" by (metis surj_pair)
    with l have "t' = t1" by (auto simp: LinkRepository_ListAll_def split: sum.splits)
    moreover have "kv t1 = kv t" using site.pg_frame(1) g by (auto simp: gorm_keeps_def dest: keepsD)
    ultimately show ?thesis using site.ListLinks_spec [OF l] by simp
  qed
  have "view_sound (log_of s) (counters_of (tables s)) (view_of (kv s'))"
    unfolding view_sound_def
  proof (rule site.consumer.Bootstrap_sound [OF site.implements_reader _ run [unfolded projector_bootstrap_def]])
    show "\<forall>c u. v_links (view_of (kv s)) c = Some u \<longrightarrow> ?P c u"
      "\<forall>c n. v_clicks (view_of (kv s)) c = Some n \<longrightarrow> n \<le> count_of (counters_of (tables s)) c"
      using v unfolding view_sound_def by blast+
  qed (use rows frame in blast)+
  with ok same run show ?thesis by (simp add: pipeline_ok_def Let_def)
qed

lemma fresh_ok: "fresh_servers tables kv stream s \<Longrightarrow> pipeline_ok sv tables kv stream s"
  by (simp add: fresh_servers_def pipeline_ok_def Let_def store_of_def counters_of_def relay_ok_def outbox_ok_def
      clicks_ok_def clicks_of_facts_def view_sound_def view_of_def count_of_def consistent_def store_ok_def
      code_taken_def lifecycle_of_def List.map_filter_def)

theorem run_ok:
  assumes "pipeline_run sv tables stream s0 s" "fresh_servers tables kv stream s0"
  shows "pipeline_ok sv tables kv stream s"
  using assms(1)
proof (induction rule: pipeline_run.induct)
  case pipeline_start
  show ?case by (rule fresh_ok [OF assms(2)])
next
  case (pipeline_step s1 ev)
  then show ?case
    by (cases ev) (simp_all only: pipeline_can.simps request_ok tick_ok deliver_ok restart_ok)
qed

end

end
