(* ===== verification/Short_Pipeline.thy ===== *)
theory Short_Pipeline
  imports Short_System
begin

text \<open>
  url-shortener: properties C24 to C33, of the way an event takes from the outbox over the stream to
  the read model, and of the three programs running together. The witnesses run the system in
  memory.
\<close>

definition mem_servers :: "mem servers" where
  "mem_servers =
     \<lparr>sv_db = mem_pg, sv_redis = mem_redis, sv_bus = mem_bus, sv_gen = mem_gen, sv_config = demo_cfg,
      sv_time_Format = decimal_time, sv_time_Parse = ParseInt, sv_zero_time = 0,
      sv_uuid_String = decimal_uuid, sv_uuid_Parse = decimal_uuid_Parse\<rparr>"

lemma mem_servers_sel [simp]:
  "sv_db mem_servers = mem_pg" "sv_redis mem_servers = mem_redis" "sv_bus mem_servers = mem_bus"
  "sv_gen mem_servers = mem_gen" "sv_config mem_servers = demo_cfg"
  "sv_time_Format mem_servers = decimal_time" "sv_time_Parse mem_servers = ParseInt"
  "sv_zero_time mem_servers = 0" "sv_uuid_String mem_servers = decimal_uuid"
  "sv_uuid_Parse mem_servers = decimal_uuid_Parse"
  by (simp_all add: mem_servers_def)

interpretation mem_site: installation mem_servers mem_tables micro mem_kv m_stream
proof (rule installation.intro)
  show "world (sv_db mem_servers) mem_tables micro (sv_redis mem_servers) mem_kv (sv_bus mem_servers) m_stream"
    using memory_is_world by simp
  show "wire (sv_time_Format mem_servers) (sv_time_Parse mem_servers) (sv_uuid_String mem_servers) (sv_uuid_Parse mem_servers)"
    using decimal.wire_axioms by simp
  show "generator_ok (sv_gen mem_servers) mem_tables" using mem_generator_ok by simp
  show "keeps mem_kv (sv_gen mem_servers)" "keeps m_stream (sv_gen mem_servers)"
    by (auto simp: keeps_def mem_gen_def mem_kv_def split: list.splits go.splits)
  show "0 < RelayBatchSize (sv_config mem_servers)"
    by (simp add: demo_cfg_def Load_def getEnvInt_def)
qed

subsection \<open>Nothing is lost, nothing is invented\<close>


text \<open>The creation of C18, then a relay tick.\<close>

definition wire_message :: "string \<Rightarrow> string \<Rightarrow> string \<Rightarrow> bus_msg" where
  "wire_message e a c =
     \<lparr>bm_subject = ''link.created'',
      bm_data = JObj [(''event_id'', JStr e), (''aggregate_id'', JStr a), (''event_type'', JStr ''link.created''),
        (''occurred_at'', JStr ''6000''),
        (''payload'', JObj [(''short_code'', JStr c), (''long_url'', JStr ''https://a.io'')])],
      bm_id = e\<rparr>"

definition demo_ticked :: mem where
  "demo_ticked = demo_after
     \<lparr>m_outbox := [(demo_event 0 1 ''1111111'')\<lparr>om_PublishedAt := Some 9000\<rparr>,
        (demo_event 1 2 ''2222222'')\<lparr>om_PublishedAt := Some 9000\<rparr>],
      m_stream := [wire_message ''200'' ''100'' ''1111111'', wire_message ''201'' ''101'' ''2222222'']\<rparr>"

lemmas tick_run = relay_tick_def RunOnce_def OutboxStore_FetchUnpublished_def OutboxStore_MarkPublished_def
  record_of_def envelope_of_def marshal_envelope_def is_unpublished_def publish_row_def mem_bus_def mem_store_msg_def
  decimal_time_def decimal_uuid_def FormatInt_def digits.simps demo_cfg_def Load_def getEnvInt_def

lemma demo_tick: "relay_tick mem_servers 9000 demo_after = ((2, None), demo_ticked)"
  by (simp add: tick_run mem_run demo_after_def demo_ticked_def demo_event_def demo_row_def wire_message_def
      to_valid_ascii ascii_def)


lemma demo_fresh: "fresh_servers mem_tables mem_kv m_stream demo_before"
  by (simp add: fresh_servers_def mem_tables_def mem_kv_def demo_before_def empty_mem_def keyed_def)

lemma demo_run: "pipeline_run mem_servers mem_tables m_stream demo_before demo_ticked"
proof -
  have "pipeline_next mem_servers (Request (ReqCreate demo_mint (Inr \<lparr>rq_URL = ''https://a.io''\<rparr>))) demo_before = demo_after"
    using demo_created by (simp add: api_CreateLink_def http_CreateLink_def)
  moreover have "pipeline_run mem_servers mem_tables m_stream demo_before
      (pipeline_next mem_servers (Request (ReqCreate demo_mint (Inr \<lparr>rq_URL = ''https://a.io''\<rparr>))) demo_before)"
    using mints_fresh_demo by (intro pipeline_run.intros) simp
  ultimately have "pipeline_run mem_servers mem_tables m_stream demo_before (pipeline_next mem_servers (Tick 9000) demo_after)"
    by (intro pipeline_step) simp_all
  then show ?thesis using demo_tick by simp
qed


subsection \<open>The read side says only what happened\<close>

text \<open>C25. In every state the system can reach, a redirect leads only to a destination with which
  that very code was created (up to the encoding of invalid UTF-8), and the statistics never show more
  clicks than were recorded for the code: the counters of the projector count recorded clicks, each
  at most once.\<close>

theorem read_side_is_genuine:
  assumes site: "installation sv tables stamp kv stream"
    and run: "pipeline_run sv tables stream s0 s" and fresh: "fresh_servers tables kv stream s0"
  defines "log \<equiv> st_log (store_of (tables s))"
  shows "(api_Redirect (sv_db sv) (sv_redis sv) agg ev now c s = (RedirectTo n u, s') \<longrightarrow>
        (\<exists>f \<in> set log. f_type f = EventTypeLinkCreated \<and> f_code f = c \<and> (f_url f = u \<or> f_url f = to_valid u)))
    \<and> (api_Stats (sv_redis sv) c s = (JSON 200 body, s') \<longrightarrow>
        (\<exists>n. body = [(''short_code'', JStr c), (''clicks'', JNum (FormatInt n))]
          \<and> n \<le> int (card {f \<in> set log. f_type f = EventTypeLinkClicked \<and> f_code f = c})))
    \<and> an_seen (counters_of (tables s)) \<subseteq> f_id ` {f \<in> set log. f_type f = EventTypeLinkClicked}"
proof -
  from installation.run_ok [OF site run fresh]
  have ok: "clicks_ok log (counters_of (tables s))" "view_sound log (counters_of (tables s)) (view_of (kv s))"
    by (simp_all add: pipeline_ok_def Let_def log_def)
  note w = installation.servers [OF site]
  have kv: "key_value (sv_redis sv) kv" using w by (simp add: world_def)
  have bound: "count_of (counters_of (tables s)) c
      \<le> int (card {f \<in> set log. f_type f = EventTypeLinkClicked \<and> f_code f = c})" for c
  proof -
    have "card {f \<in> set log. is_click f \<and> f_code f = c \<and> f_id f \<in> an_seen (counters_of (tables s))}
        \<le> card {f \<in> set log. f_type f = EventTypeLinkClicked \<and> f_code f = c}"
      by (intro card_mono) (auto simp: is_click_def)
    with ok(1) show ?thesis by (simp add: clicks_ok_def)
  qed
  have redirect: "\<exists>f \<in> set log. f_type f = EventTypeLinkCreated \<and> f_code f = c \<and> (f_url f = u \<or> f_url f = to_valid u)"
    if r: "api_Redirect (sv_db sv) (sv_redis sv) agg ev now c s = (RedirectTo n u, s')"
    using w r
  proof (cases rule: api_Redirect_cases)
    case (found v)
    with ok(2) show ?thesis by (simp add: view_sound_def)
  qed (simp_all add: writeError_def)
  have stats: "\<exists>n. body = [(''short_code'', JStr c), (''clicks'', JNum (FormatInt n))]
      \<and> n \<le> int (card {f \<in> set log. f_type f = EventTypeLinkClicked \<and> f_code f = c})"
    if r: "api_Stats (sv_redis sv) c s = (JSON 200 body, s')"
    using kv r
  proof (cases rule: api_Stats_cases)
    case shown
    have "clicks_of (view_of (kv s)) c \<le> count_of (counters_of (tables s)) c"
      using ok unfolding view_sound_def clicks_ok_def clicks_of_def by (auto split: option.splits)
    with bound [of c] shown show ?thesis by (intro exI [of _ "clicks_of (view_of (kv s)) c"]) simp
  qed (simp_all add: writeError_def)
  have "an_seen (counters_of (tables s)) \<subseteq> f_id ` {f \<in> set log. f_type f = EventTypeLinkClicked}"
    using ok(1) by (simp add: clicks_ok_def clicks_of_facts_def is_click_def)
  with redirect stats show ?thesis by blast
qed

text \<open>The projector has projected the second creation.\<close>

definition demo_projected :: mem where
  "demo_projected = demo_ticked\<lparr>m_kv := [(''link:2222222'', ''https://a.io'')]\<rparr>"

lemmas deliver_run = deliver_def projector_callback_def on_message_def Projector_Handle_def onCreated_def
  onDisabled_def zero_envelope_def field_matches_def fold_char_def in_range_def json_time_def ReadModel_SaveLink_def
  ReadModel_DeleteLink_def cmd_err_def mem_redis_def linkPrefix_def

lemma demo_read_time: "ParseInt ''6000'' = Some 6000"
  by (simp add: ParseInt_def digit_value_def)

lemma demo_deliver:
  "deliver mem_servers 9500 (Some (bm_data (wire_message ''201'' ''101'' ''2222222''))) demo_ticked
     = (Ack, demo_projected)"
  by (simp add: deliver_run mem_run wire_message_def demo_read_time demo_projected_def demo_ticked_def demo_after_def
      EventTypeLinkCreated_def ascii_demo to_valid_ascii ascii_def)


lemma demo_run_projected: "pipeline_run mem_servers mem_tables m_stream demo_before demo_projected"
proof -
  have "pipeline_run mem_servers mem_tables m_stream demo_before
      (pipeline_next mem_servers (Deliver (bm_data (wire_message ''201'' ''101'' ''2222222'')) 9500) demo_ticked)"
    by (rule pipeline_step [OF demo_run]) (simp add: demo_ticked_def)
  then show ?thesis using demo_deliver by simp
qed

theorem read_side_is_genuine_witness:
  "\<exists>s'. api_Redirect mem_pg mem_redis 1 400 9900 ''2222222'' demo_projected = (RedirectTo 302 ''https://a.io'', s')
    \<and> (\<exists>f \<in> set (st_log (store_of (mem_tables demo_projected))).
          f_type f = EventTypeLinkCreated \<and> f_code f = ''2222222'')"
proof -
  obtain s' where r: "api_Redirect mem_pg mem_redis 1 400 9900 ''2222222'' demo_projected
      = (RedirectTo 302 ''https://a.io'', s')"
    by (simp add: api_Redirect_def http_Redirect_def Redirect_Handle_def ReadModel_LongURL_def
        RecordClick_Handle_def demo_code_valid OutboxStore_Append_def mem_redis_def linkPrefix_def
        mem_run demo_projected_def demo_ticked_def demo_after_def demo_event_def NewLinkClicked_def newBaseEvent_def
        toOutboxRow_def EventID_def)
  then show ?thesis
    using read_side_is_genuine [OF mem_site.installation_axioms demo_run_projected demo_fresh,
        where agg = 1 and ev = 400 and now = 9900 and c = "''2222222''" and n = 302 and u = "''https://a.io''"
          and s' = s'] by auto
qed

subsection \<open>The relay\<close>




text \<open>C27. The relay drains the outbox. With a positive poll interval and batch size, when the servers
  answer (\<open>healthy\<close>), after as many ticks as batches are needed every row of the outbox is marked as
  published and on the stream, as long as its time has a JSON form. With an interval that is not
  positive, which the configuration takes from the environment unchecked, the relay panics at once.\<close>

theorem relay_drains_outbox:
  assumes w: "world pg tables stamp rdb kv pub stream"
    and fetch: "\<And>n t. healthy t \<Longrightarrow> \<exists>rs t'. gFindUnpublished pg n t = (Inr rs, t') \<and> healthy t'"
    and mark: "\<And>ss now t. healthy t \<Longrightarrow> \<exists>t'. gUpdatePublished pg ss now t = (None, t') \<and> healthy t'"
    and publish: "\<And>subj data i t. healthy t \<Longrightarrow> \<exists>t'. pPublish pub subj data i t = (None, t') \<and> healthy t'"
    and start: "healthy s" "relay_ok tf us (t_outbox (tables s)) (stream s)"
      "\<forall>r \<in> set (t_outbox (tables s)). tf (om_OccurredAt r) \<noteq> None"
    and limit: "0 < RelayBatchSize cfg"
    and enough: "length (filter is_unpublished (t_outbox (tables s))) \<le> nat (RelayBatchSize cfg) * length nows"
  shows "case relay_main tf us pg pub cfg (map RelayTick nows) s of
      Panic p \<Rightarrow> sint (RelayPollInterval cfg) \<le> 0 \<and> p = PanicCalled
    | Ret s' \<Rightarrow> 0 < sint (RelayPollInterval cfg)
        \<and> (\<forall>r \<in> set (t_outbox (tables s')). om_PublishedAt r \<noteq> None \<and> (\<exists>m \<in> set (stream s'). bm_id m = us (om_ID r)))"
proof (cases "0 < sint (RelayPollInterval cfg)")
  case False
  then show ?thesis by (simp add: relay_main_def Relay_Run_def)
next
  case True
  have f: "\<exists>recs t'. sFetchUnpublished (OutboxStore_Source pg us) n t = (Inr recs, t') \<and> healthy t'"
    if "healthy t" for n t
    using fetch [OF that, of n] by (auto simp: OutboxStore_FetchUnpublished_def)
  have m: "\<exists>t'. sMarkPublished (OutboxStore_Source pg us) now ss t = (None, t') \<and> healthy t'"
    if "healthy t" for now ss t
    using mark [OF that, of ss now] that by (auto simp: OutboxStore_MarkPublished_def)
  have send: "\<forall>r \<in> set (t_outbox (tables s)). sendable tf r" using start(3) by (simp add: sendable_def)
  obtain s' where run: "s' = relay_loop tf (OutboxStore_Source pg us) pub (RelayBatchSize cfg) (map RelayTick nows) s"
    by simp
  from relay.relay_loop_reliable [OF world.relay_wired [OF w] f m publish limit start(1,2) send run] enough
  have "filter is_unpublished (t_outbox (tables s')) = []" "relay_ok tf us (t_outbox (tables s')) (stream s')"
    by simp_all
  then have "\<forall>r \<in> set (t_outbox (tables s')). om_PublishedAt r \<noteq> None \<and> (\<exists>m \<in> set (stream s'). bm_id m = us (om_ID r))"
    unfolding relay_ok_def on_stream_def filter_empty_conv is_unpublished_def by fastforce
  with True show ?thesis by (simp add: relay_main_def Relay_Run_def run [symmetric])
qed

text \<open>The environment of the examples asks for batches of one row.\<close>

definition demo_env :: "string \<Rightarrow> Config" where
  "demo_env interval = Load [''RELAY_POLL_INTERVAL'' \<mapsto> interval, ''RELAY_BATCH_SIZE'' \<mapsto> ''1'']"

lemma demo_env_relay:
  "RelayBatchSize (demo_env i) = 1" "RelayPollInterval (demo_env ''500ms'') = 500000000"
  "RelayPollInterval (demo_env ''0s'') = 0"
  by (simp_all add: demo_env_def Load_def getEnvInt_def getEnvDuration_def ParseInt_def digit_value_def
      ParseDuration_examples)

lemma mem_healthy:
  "m_faults t = [] \<Longrightarrow> \<exists>rs t'. gFindUnpublished mem_pg n t = (Inr rs, t') \<and> m_faults t' = []"
  "m_faults t = [] \<Longrightarrow> \<exists>t'. gUpdatePublished mem_pg ss now t = (None, t') \<and> m_faults t' = []"
  "m_faults t = [] \<Longrightarrow> \<exists>t'. pPublish mem_bus subj data i t = (None, t') \<and> m_faults t' = []"
  "m_faults t = [] \<Longrightarrow> \<exists>t'. kSet mem_redis k v t = (None, t') \<and> m_faults t' = []"
  "m_faults t = [] \<Longrightarrow> \<exists>t'. kDel mem_redis k t = (None, t') \<and> m_faults t' = []"
  by (simp_all add: mem_run mem_bus_def mem_store_msg_def mem_redis_def)

theorem relay_drains_outbox_witness:
  "(\<exists>s'. relay_main decimal_time decimal_uuid mem_pg mem_bus (demo_env ''500ms'') (map RelayTick [9000, 9100]) demo_after
        = Ret s' \<and> list_all (\<lambda>r. om_PublishedAt r \<noteq> None) (m_outbox s'))
    \<and> relay_main decimal_time decimal_uuid mem_pg mem_bus (demo_env ''0s'') (map RelayTick [9000, 9100]) demo_after
        = Panic PanicCalled"
proof -
  have ok: "relay_ok decimal_time decimal_uuid (t_outbox (mem_tables demo_after)) (m_stream demo_after)"
    by (simp add: relay_ok_def outbox_ok_def mem_tables_def demo_after_def demo_event_def is_unpublished_def empty_mem_def)
  have t: "\<forall>r \<in> set (t_outbox (mem_tables demo_after)). decimal_time (om_OccurredAt r) \<noteq> None"
    by (simp add: mem_tables_def demo_after_def demo_event_def decimal_time_def)
  have limit: "0 < RelayBatchSize (demo_env i)" for i by (simp add: demo_env_relay)
  have len: "length (filter is_unpublished (t_outbox (mem_tables demo_after)))
      \<le> nat (RelayBatchSize (demo_env i)) * length [9000, 9100 :: time]" for i
    by (simp add: mem_tables_def demo_after_def demo_event_def is_unpublished_def demo_env_relay)
  have h: "m_faults demo_after = []" by (simp add: demo_after_def empty_mem_def)
  note drains = relay_drains_outbox [where healthy = "\<lambda>t. m_faults t = []",
      OF memory_is_world mem_healthy(1) mem_healthy(2) mem_healthy(3) h ok t limit len]
  from drains [of "''500ms''"] drains [of "''0s''"] show ?thesis
    by (auto simp: demo_env_relay mem_tables_def list_all_iff split: go.splits)
qed

subsection \<open>The way of an event\<close>

text \<open>C28. What the projector reads is what the domain said. The row of a domain event, whatever
  sequence number and stored times the database gave it, is sent exactly when its time has a JSON form
  (a year of four digits in the relay's zone). The bytes of the message are read back by the
  subscription as the envelope that was written, with the ids, the type and the instant of the row,
  and the projector takes it for the fact of that event. Only invalid UTF-8 in the short code or the
  destination is replaced.\<close>

theorem event_wire_roundtrip:
  assumes ids: "uuid_text us up"
    and msg: "msg = message_of (time_MarshalJSON zone) us ((toOutboxRow e)\<lparr>om_Seq := n, om_OccurredAt := t, om_PublishedAt := p\<rparr>)"
  shows "(msg = None \<longleftrightarrow> \<not> strict_year zone t)
    \<and> (\<forall>m. msg = Some m \<longrightarrow> bm_id m = us (EventID e) \<and> bm_subject m = EventType e
        \<and> message_fact z (time_UnmarshalJSON lenient) up (json_Unmarshal (json_text (bm_data m))) = Some (fact_of e)
        \<and> (\<exists>env. env_EventID env = us (EventID e) \<and> env_AggregateID env = us (AggregateID e)
              \<and> env_EventType env = EventType e \<and> env_OccurredAt env = t
              \<and> (\<forall>handler s. on_bytes z (time_UnmarshalJSON lenient) handler (json_text (bm_data m)) s =
                    (case handler env s of (None, s') \<Rightarrow> (Ack, s') | (Some _, s') \<Rightarrow> (Nak, s')))))"
proof -
  let ?r = "(toOutboxRow e)\<lparr>om_Seq := n, om_OccurredAt := t, om_PublishedAt := p\<rparr>"
  let ?env = "envelope_of (record_of us ?r)"
  note texts = go_wire [OF ids, of zone lenient]
  have none: "msg = None \<longleftrightarrow> \<not> strict_year zone t"
    unfolding msg message_of_None by (simp add: sendable_def time_MarshalJSON_def)
  have "bm_id m = us (EventID e) \<and> bm_subject m = EventType e
      \<and> message_fact z (time_UnmarshalJSON lenient) up (json_Unmarshal (json_text (bm_data m))) = Some (fact_of e)
      \<and> (\<forall>handler s. on_bytes z (time_UnmarshalJSON lenient) handler (json_text (bm_data m)) s =
            (case handler ?env s of (None, s') \<Rightarrow> (Ack, s') | (Some _, s') \<Rightarrow> (Nak, s')))"
    if "msg = Some m" for m
  proof -
    have m: "message_of (time_MarshalJSON zone) us ?r = Some m" using that msg by simp
    then have data: "marshal_envelope (time_MarshalJSON zone) ?env = Some (bm_data m)" by (auto simp: message_of_def)
    have bytes: "json_Unmarshal (json_text (bm_data m)) = Some (bm_data m)"
      using wire.message_text [OF texts m] toOutboxRow_text [of e] by simp
    have "unmarshal_envelope z (time_UnmarshalJSON lenient) (bm_data m) = Some ?env"
      using wire.envelope_roundtrip [OF texts data, of z] uuid_text.uuid_ascii [OF ids] by (simp add: envelope_of_def)
    moreover have "message_fact z (time_UnmarshalJSON lenient) up (Some (bm_data m)) = Some (fact_of e)"
      using wire.message_roundtrip [OF texts m, of z] by simp
    moreover have "bm_id m = us (EventID e) \<and> bm_subject m = EventType e" using m by (auto simp: message_of_def)
    ultimately show ?thesis
      using bytes by (auto simp: on_bytes_def on_message_def split: prod.splits option.splits)
  qed
  note main = this
  have env: "env_EventID ?env = us (EventID e)" "env_AggregateID ?env = us (AggregateID e)"
    "env_EventType ?env = EventType e" "env_OccurredAt ?env = t"
    by (simp_all add: envelope_of_def toOutboxRow_def)
  show ?thesis
    by (intro conjI allI impI none exI [of _ ?env] env) (drule main, elim conjE, (assumption | (drule spec, drule spec, assumption)))+
qed

lemma demo_uuids:
  "canonical_uuid 201 = ''00000000-0000-0000-0000-0000000000c9''"
  "canonical_uuid 101 = ''00000000-0000-0000-0000-000000000065''"
  by (simp_all add: canonical_uuid_def hex_text_def upt_rec group_from_def lower_hex_def)

theorem event_wire_roundtrip_witness:
  \<open>message_fact zero_instant (time_UnmarshalJSON (\<lambda>_. None)) canonical_uuid_Parse (json_Unmarshal
     (''{"event_id":"00000000-0000-0000-0000-0000000000c9","aggregate_id":"00000000-0000-0000-0000-000000000065",'' @
      ''"event_type":"link.created","occurred_at":"2006-01-02T15:04:05.12-07:00",'' @
      ''"payload":{"short_code":"2222222","long_url":"https://a.io"}}''))
     = Some (fact_of (LinkCreated \<lparr>ev_id = 201, ev_aggregateID = 101, ev_occurredAt = 6000\<rparr> ''2222222'' ''https://a.io''))\<close>
proof -
  let ?e = "LinkCreated \<lparr>ev_id = 201, ev_aggregateID = 101, ev_occurredAt = 6000\<rparr> ''2222222'' ''https://a.io''"
  let ?r = "(toOutboxRow ?e)\<lparr>om_Seq := 2, om_OccurredAt := 1136239445120000000, om_PublishedAt := None\<rparr>"
  have y: "strict_year (- 420) 1136239445120000000"
    by (simp add: strict_year_def Year_def local_seconds_def civil_examples)
  note rt = event_wire_roundtrip [OF canonical.uuid_text_axioms refl, where zone = "- 420" and e = ?e and n = 2
      and t = 1136239445120000000 and p = None and z = zero_instant and lenient = "\<lambda>_. None"]
  then obtain m where m: "message_of (time_MarshalJSON (- 420)) canonical_uuid ?r = Some m" using y by blast
  then have data: "bm_data m = JObj
      [(''event_id'', JStr ''00000000-0000-0000-0000-0000000000c9''),
       (''aggregate_id'', JStr ''00000000-0000-0000-0000-000000000065''),
       (''event_type'', JStr ''link.created''), (''occurred_at'', JStr ''2006-01-02T15:04:05.12-07:00''),
       (''payload'', JObj [(''short_code'', JStr ''2222222''), (''long_url'', JStr ''https://a.io'')])]"
    using y by (auto simp: message_of_def marshal_envelope_def time_MarshalJSON_def envelope_of_def RFC3339_examples
        toOutboxRow_def marshal_payload_def EventID_def AggregateID_def EventTypeLinkCreated_def demo_uuids)
  have \<open>json_text (bm_data m) =
     ''{"event_id":"00000000-0000-0000-0000-0000000000c9","aggregate_id":"00000000-0000-0000-0000-000000000065",'' @
      ''"event_type":"link.created","occurred_at":"2006-01-02T15:04:05.12-07:00",'' @
      ''"payload":{"short_code":"2222222","long_url":"https://a.io"}}''\<close>
    by (simp add: data json_quote_def json_ascii_def)
  then show ?thesis using rt m by auto
qed



text \<open>Two clicks; the first is refused by the database, redelivered twice, and counted once.\<close>

definition demo_click :: "string \<Rightarrow> json" where
  "demo_click e = JObj [(''event_id'', JStr e), (''aggregate_id'', JStr ''0''), (''event_type'', JStr ''link.clicked''),
     (''occurred_at'', JStr ''6000''), (''payload'', JObj [(''short_code'', JStr ''2222222'')])]"

definition demo_clicks :: "(json option \<times> time) list" where
  "demo_clicks = [(Some (demo_click ''500''), 1), (Some (demo_click ''500''), 2), (Some (demo_click ''501''), 3),
     (Some (demo_click ''500''), 4)]"

definition demo_click_fact :: "uuid \<Rightarrow> fact" where
  "demo_click_fact i = \<lparr>f_id = i, f_type = ''link.clicked'', f_code = ''2222222'', f_url = []\<rparr>"

lemma demo_parse_ids: "decimal_uuid_Parse ''500'' = Some 500" "decimal_uuid_Parse ''501'' = Some 501"
  "decimal_uuid_Parse ''201'' = Some 201" "decimal_uuid_Parse ''300'' = Some 300"
  by (simp_all add: decimal_uuid_Parse_def digit_value_def)

lemma demo_click_facts:
  "map (\<lambda>d. message_fact 0 ParseInt decimal_uuid_Parse (fst d)) demo_clicks
     = map Some [demo_click_fact 500, demo_click_fact 500, demo_click_fact 501, demo_click_fact 500]"
  by (simp add: demo_clicks_def demo_click_def demo_click_fact_def message_fact_def envelope_fact_def zero_envelope_def
      field_matches_def fold_char_def in_range_def json_time_def demo_read_time demo_parse_ids fact_of_payload_def
      to_valid_ascii ascii_def EventTypeLinkCreated_def)

lemmas click_run = onClicked_def AnalyticsStore_RecordClick_def record_click_tx_def ReadModel_SetClicks_def
  clickPrefix_def EventTypeLinkCreated_def EventTypeLinkDisabled_def EventTypeLinkClicked_def int64_def

lemma demo_click_callback:
  assumes "decimal_uuid_Parse e = Some i" "to_valid e = e"
  shows "projector_callback 0 ParseInt decimal_uuid_Parse mem_redis mem_pg now (Some (demo_click e)) s =
    (case AnalyticsStore_RecordClick mem_pg i ''2222222'' now s of
       (Inl err, s1) \<Rightarrow> (Nak, s1)
     | (Inr n, s1) \<Rightarrow> (case ReadModel_SetClicks mem_redis ''2222222'' n s1 of
         (Some err, s2) \<Rightarrow> (Nak, s2) | (None, s2) \<Rightarrow> (Ack, s2)))"
  using assms
  by (simp add: demo_click_def projector_callback_def on_message_def Projector_Handle_def zero_envelope_def field_matches_def
      fold_char_def in_range_def json_time_def demo_read_time onClicked_def EventTypeLinkCreated_def EventTypeLinkDisabled_def
      EventTypeLinkClicked_def ascii_demo split: sum.splits prod.splits)


definition demo_counting :: "uuid list \<Rightarrow> analyticsModel list \<Rightarrow> string \<Rightarrow> mem" where
  "demo_counting ids rows n = empty_mem
     \<lparr>m_processed := map (\<lambda>i. (i, 0)) ids, m_analytics := rows, m_kv := [(''clicks:2222222'', n)]\<rparr>"

definition demo_counter :: "int \<Rightarrow> analyticsModel" where
  "demo_counter n = \<lparr>am_ShortCode = ''2222222'', am_ClickCount = n, am_LastClickedAt = Some 0\<rparr>"

lemma demo_click_steps:
  "projector_callback 0 ParseInt decimal_uuid_Parse mem_redis mem_pg 1 (Some (demo_click ''500'')) (empty_mem\<lparr>m_faults := [True]\<rparr>)
     = (Nak, empty_mem)"
  "projector_callback 0 ParseInt decimal_uuid_Parse mem_redis mem_pg 2 (Some (demo_click ''500'')) empty_mem
     = (Ack, demo_counting [500] [demo_counter 1] ''1'')"
  "projector_callback 0 ParseInt decimal_uuid_Parse mem_redis mem_pg 3 (Some (demo_click ''501'')) (demo_counting [500] [demo_counter 1] ''1'')
     = (Ack, demo_counting [501, 500] [demo_counter 2, demo_counter 1] ''2'')"
  "projector_callback 0 ParseInt decimal_uuid_Parse mem_redis mem_pg 4 (Some (demo_click ''500'')) (demo_counting [501, 500] [demo_counter 2, demo_counter 1] ''2'')
     = (Ack, demo_counting [501, 500] [demo_counter 2, demo_counter 1] ''2'')"
proof -
  have a: "ascii ''500''" "ascii ''501''" by (simp_all add: ascii_def)
  note id = demo_click_callback [OF demo_parse_ids(1) to_valid_ascii [OF a(1)]]
    demo_click_callback [OF demo_parse_ids(2) to_valid_ascii [OF a(2)]]
  note run = AnalyticsStore_RecordClick_def record_click_tx_def ReadModel_SetClicks_def clickPrefix_def cmd_err_def
    mem_redis_def int64_def FormatInt_def digits.simps demo_counting_def demo_counter_def
  show "projector_callback 0 ParseInt decimal_uuid_Parse mem_redis mem_pg 1 (Some (demo_click ''500'')) (empty_mem\<lparr>m_faults := [True]\<rparr>)
     = (Nak, empty_mem)"
    unfolding id by (simp add: run mem_run)
  show "projector_callback 0 ParseInt decimal_uuid_Parse mem_redis mem_pg 2 (Some (demo_click ''500'')) empty_mem
     = (Ack, demo_counting [500] [demo_counter 1] ''1'')"
    unfolding id by (simp add: run mem_run)
  show "projector_callback 0 ParseInt decimal_uuid_Parse mem_redis mem_pg 3 (Some (demo_click ''501'')) (demo_counting [500] [demo_counter 1] ''1'')
     = (Ack, demo_counting [501, 500] [demo_counter 2, demo_counter 1] ''2'')"
    unfolding id by (simp add: run mem_run)
  show "projector_callback 0 ParseInt decimal_uuid_Parse mem_redis mem_pg 4 (Some (demo_click ''500'')) (demo_counting [501, 500] [demo_counter 2, demo_counter 1] ''2'')
     = (Ack, demo_counting [501, 500] [demo_counter 2, demo_counter 1] ''2'')"
    unfolding id by (simp add: run mem_run)
qed

lemma demo_consume:
  "consume (projector_callback 0 ParseInt decimal_uuid_Parse mem_redis mem_pg) demo_clicks
      (empty_mem\<lparr>m_faults := [True]\<rparr>)
     = ([Nak, Ack, Ack, Ack], demo_counting [501, 500] [demo_counter 2, demo_counter 1] ''2'')"
  by (simp add: demo_clicks_def demo_click_steps del: mem_tables_other)



text \<open>C30. The read side converges to the write side, and clients see it. Take a consistent write side
  and any sequence of deliveries with any failures. If the last delivery about a code was that of the
  last lifecycle event of the log about it, and it was acknowledged, then the read model resolves the
  code exactly as the links say, and so does the redirect: 302 to its destination when there is an
  active link, 404 when there is none, or 500. Once the last click delivered for the code was
  acknowledged too, the statistics, when they answer, show the durable counter.\<close>

theorem read_side_converges:
  assumes w: "world pg tables stamp rdb kv pub stream" and ok: "consistent (store_of (tables s))"
    and run: "consume (projector_callback z tp up rdb pg) ds s = (acks, s')"
    and facts: "map (\<lambda>d. message_fact z tp up (fst d)) ds = map Some fs"
    and caught_up: "last_about (\<lambda>f. is_lifecycle f \<and> f_code f = c) fs acks
        = Some (last (lifecycle_of c (st_log (store_of (tables s)))), Ack)"
      "lifecycle_of c (st_log (store_of (tables s))) \<noteq> []"
  shows "(v_links (view_of (kv s')) c = Some u \<longleftrightarrow> resolves (store_of (tables s)) c u)
    \<and> (case fst (api_Redirect pg rdb agg eventID now c s') of
         RedirectTo n v \<Rightarrow> n = 302 \<and> resolves (store_of (tables s)) c v
       | JSON n _ \<Rightarrow> n = 404 \<and> (\<forall>v. \<not> resolves (store_of (tables s)) c v) \<or> n = 500)
    \<and> (\<forall>f. last_about (\<lambda>f. is_click f \<and> f_code f = c) fs acks = Some (f, Ack) \<longrightarrow>
        http_status (fst (api_Stats rdb c s')) = 200 \<longrightarrow>
        json_body (fst (api_Stats rdb c s')) = Some (json_text (JObj
          [(''clicks'', JNum (FormatInt (count_of (counters_of (tables s')) c))), (''short_code'', JStr c)])))"
proof -
  have "consume (\<lambda>now. on_message z tp (Projector_Handle up (Redis_Writer rdb) (Postgres_AnalyticsStore pg) now)) ds s = (acks, s')"
    using run by (simp add: projector_callback_def [abs_def])
  from projector.consume_spec [OF world.projector_wired [OF w] this facts]
  have d: "delivered fs acks (view_of (kv s), counters_of (tables s)) (view_of (kv s'), counters_of (tables s'))" .
  have "v_links (view_of (kv s')) c = resolution (last (lifecycle_of c (st_log (store_of (tables s)))))"
    using delivered_links [OF d, of c] caught_up(1) by simp
  also have "\<dots> = v_links (fst (project_all (st_log (store_of (tables s)))
      (\<lparr>v_links = Map.empty, v_clicks = Map.empty\<rparr>, \<lparr>an_seen = {}, an_count = Map.empty\<rparr>))) c"
    using caught_up(2) by (simp add: project_all_links)
  finally have links: "v_links (view_of (kv s')) c = Some v \<longleftrightarrow> resolves (store_of (tables s)) c v" for v
    using consistent_resolution [OF ok] by simp
  obtain resp s2 where r: "api_Redirect pg rdb agg eventID now c s' = (resp, s2)" by force
  have redirect: "case resp of RedirectTo n v \<Rightarrow> n = 302 \<and> resolves (store_of (tables s)) c v
      | JSON n _ \<Rightarrow> n = 404 \<and> (\<forall>v. \<not> resolves (store_of (tables s)) c v) \<or> n = 500"
    using w r by (cases rule: api_Redirect_cases) (auto simp: writeError_def links [symmetric])
  have kv: "key_value rdb kv" using w by (simp add: world_def)
  obtain stats s3 where t: "api_Stats rdb c s' = (stats, s3)" by force
  have "json_body stats = Some (json_text (JObj
      [(''clicks'', JNum (FormatInt (count_of (counters_of (tables s')) c))), (''short_code'', JStr c)]))"
    if "last_about (\<lambda>f. is_click f \<and> f_code f = c) fs acks = Some (f, Ack)" "http_status stats = 200" for f
    using kv t
  proof (cases rule: api_Stats_cases)
    case shown
    with delivered_clicks [OF d, of c] that(1) show ?thesis by (simp add: clicks_of_def gin_H_def)
  qed (use that(2) in \<open>simp_all add: writeError_def\<close>)
  with links redirect r t show ?thesis by simp
qed

text \<open>The second creation is delivered after a failed attempt.\<close>

definition demo_creation :: "json option" where
  "demo_creation = Some (bm_data (wire_message ''201'' ''101'' ''2222222''))"

definition demo_creation_fact :: fact where
  "demo_creation_fact = \<lparr>f_id = 201, f_type = ''link.created'', f_code = ''2222222'', f_url = ''https://a.io''\<rparr>"

lemma demo_creation_message: "message_fact 0 ParseInt decimal_uuid_Parse demo_creation = Some demo_creation_fact"
  by (simp add: demo_creation_def wire_message_def demo_creation_fact_def message_fact_def envelope_fact_def
      zero_envelope_def field_matches_def fold_char_def in_range_def json_time_def demo_read_time demo_parse_ids
      fact_of_payload_def to_valid_ascii ascii_def EventTypeLinkCreated_def)


abbreviation demo_callback :: "time \<Rightarrow> json option \<Rightarrow> mem \<Rightarrow> ack \<times> mem" where
  "demo_callback \<equiv> projector_callback 0 ParseInt decimal_uuid_Parse mem_redis mem_pg"

lemma demo_redelivery:
  "consume demo_callback [(demo_creation, 1), (demo_creation, 2)] (demo_ticked\<lparr>m_faults := [True]\<rparr>)
     = ([Nak, Ack], demo_projected)"
  by (simp add: demo_creation_def deliver_run mem_run wire_message_def demo_read_time demo_projected_def demo_ticked_def
      demo_after_def EventTypeLinkCreated_def ascii_demo to_valid_ascii ascii_def)

lemma demo_ticked_log:
  "lifecycle_of ''2222222'' (st_log (store_of (mem_tables demo_ticked))) = [demo_creation_fact]"
  by (simp add: lifecycle_of_def store_of_def mem_tables_def demo_ticked_def demo_after_def demo_event_def row_fact_def
      fact_of_payload_def field_matches_def fold_char_def in_range_def is_lifecycle_def EventTypeLinkCreated_def
      EventTypeLinkDisabled_def demo_creation_fact_def List.map_filter_def)

lemma demo_redirected:
  "fst (api_Redirect mem_pg mem_redis 1 400 9600 ''2222222'' demo_projected) = RedirectTo 302 ''https://a.io''"
  by (simp add: api_Redirect_def http_Redirect_def Redirect_Handle_def ReadModel_LongURL_def
      RecordClick_Handle_def demo_code_valid OutboxStore_Append_def mem_redis_def linkPrefix_def
      mem_run demo_projected_def demo_ticked_def demo_after_def)

theorem read_side_converges_witness:
  "fst (api_Redirect mem_pg mem_redis 1 400 9600 ''2222222'' demo_projected) = RedirectTo 302 ''https://a.io''
    \<and> resolves (store_of (mem_tables demo_ticked)) ''2222222'' ''https://a.io''"
proof -
  have same: "mem_tables (demo_ticked\<lparr>m_faults := [True]\<rparr>) = mem_tables demo_ticked" by simp
  have ok: "consistent (store_of (mem_tables (demo_ticked\<lparr>m_faults := [True]\<rparr>)))"
    unfolding same using mem_site.run_ok [OF demo_run demo_fresh] by (simp add: pipeline_ok_def Let_def)
  have facts: "map (\<lambda>d. message_fact 0 ParseInt decimal_uuid_Parse (fst d)) [(demo_creation, 1), (demo_creation, 2)]
      = map Some [demo_creation_fact, demo_creation_fact]"
    by (simp add: demo_creation_message)
  have last: "last_about (\<lambda>f. is_lifecycle f \<and> f_code f = ''2222222'') [demo_creation_fact, demo_creation_fact] [Nak, Ack]
      = Some (last (lifecycle_of ''2222222'' (st_log (store_of (mem_tables (demo_ticked\<lparr>m_faults := [True]\<rparr>))))), Ack)"
    unfolding same demo_ticked_log by (simp add: last_about_def demo_creation_fact_def is_lifecycle_def EventTypeLinkCreated_def)
  have "lifecycle_of ''2222222'' (st_log (store_of (mem_tables (demo_ticked\<lparr>m_faults := [True]\<rparr>)))) \<noteq> []"
    unfolding same demo_ticked_log by simp
  from read_side_converges [OF memory_is_world ok demo_redelivery facts last this, where agg = 1 and eventID = 400
      and now = 9600] demo_redirected
  show ?thesis unfolding same by simp
qed

text \<open>C31. Deliveries out of order break that: nothing in the projector compares an event with what it
  has already applied. If the first delivery of a creation fails, the disabling is delivered next and
  then the creation again, all three as at-least-once delivery allows, the projector acknowledges both
  and ends with a read model in which the disabled link resolves.\<close>

theorem stale_redelivery_resurrects:
  assumes w: "world pg tables stamp rdb kv pub stream" and ok: "consistent (store_of (tables s))"
    and run: "consume (projector_callback z tp up rdb pg) [(d1, t1), (d2, t2), (d1, t3)] s = ([Nak, Ack, Ack], s')"
    and facts: "message_fact z tp up d1 = Some f" "message_fact z tp up d2 = Some g"
      "lifecycle_of c (st_log (store_of (tables s))) = [f, g]"
  shows "v_links (view_of (kv s')) c = Some (f_url f)
    \<and> (\<exists>i r. st_links (store_of (tables s')) i = Some r \<and> sl_code r = c \<and> IsDisabled (sl_status r))"
proof -
  have taken: "code_taken c (store_of (tables s))" using ok facts(3) by (auto simp: consistent_def)
  then obtain i r where r: "st_links (store_of (tables s)) i = Some r" "sl_code r = c" by (auto simp: code_taken_def)
  have "link_consistent r (st_log (store_of (tables s)))" using ok r(1) by (simp add: consistent_def)
  then have "map f_type [f, g] = lifecycle_types (sl_status r)"
    using r(2) facts(3) by (simp add: link_consistent_def)
  then have ty: "IsDisabled (sl_status r)" "f_type f = EventTypeLinkCreated" "f_type g = EventTypeLinkDisabled"
    by (auto simp: lifecycle_types_def split: if_splits)
  have c: "f_code f = c" "f_code g = c" using lifecycle_mem [of _ c "st_log (store_of (tables s))"] facts(3) by auto
  have "consume (\<lambda>now. on_message z tp (Projector_Handle up (Redis_Writer rdb) (Postgres_AnalyticsStore pg) now))
      [(d1, t1), (d2, t2), (d1, t3)] s = ([Nak, Ack, Ack], s')"
    using run by (simp add: projector_callback_def [abs_def])
  from projector.consume_spec [OF world.projector_wired [OF w] this, where fs = "[f, g, f]"] facts(1,2)
  have d: "delivered [f, g, f] [Nak, Ack, Ack] (view_of (kv s), counters_of (tables s)) (view_of (kv s'), counters_of (tables s'))"
    by simp
  have "v_links (view_of (kv s')) c = resolution f"
    using delivered_links [OF d, of c] c ty by (simp add: last_about_def is_lifecycle_def)
  moreover have "store_of (tables s') = store_of (tables s)"
    using world.keeps_consume [OF w run] by (simp add: store_of_def)
  ultimately show ?thesis using r ty by (auto simp: resolution_def)
qed


text \<open>The link of the second creation is disabled; both events wait to be delivered.\<close>

definition demo_row_disabled :: linkModel where
  "demo_row_disabled = (demo_row 1 ''2222222'')\<lparr>lm_Status := ''disabled'', lm_Version := 2\<rparr>"

definition demo_event_disabled :: outboxModel where
  "demo_event_disabled = \<lparr>om_Seq = 3, om_ID = 300, om_AggregateID = 101, om_EventType = ''link.disabled'',
     om_Payload = JObj [(''short_code'', JStr ''2222222'')], om_OccurredAt = 7000, om_PublishedAt = None\<rparr>"

definition demo_disabled :: mem where
  "demo_disabled = demo_ticked\<lparr>m_links := demo_row_disabled # m_links demo_ticked,
     m_outbox := m_outbox demo_ticked @ [demo_event_disabled]\<rparr>"

lemma demo_disable:
  "api_DisableLink mem_pg 300 7000 ''2222222'' demo_ticked
     = (JSON 200 [(''short_code'', JStr ''2222222''), (''status'', JStr ''disabled'')], demo_disabled)"
  by (simp add: api_DisableLink_def http_DisableLink_def DisableLink_Handle_def demo_code_valid demo_url
      write_run mem_run Disable_def IsDisabled_def ascii_demo demo_ticked_def demo_after_def demo_row_def demo_event_def
      demo_disabled_def demo_row_disabled_def demo_event_disabled_def)

lemma demo_disabled_consistent: "consistent (store_of (mem_tables demo_disabled))"
proof -
  have "pipeline_run mem_servers mem_tables m_stream demo_before
      (pipeline_next mem_servers (Request (ReqDisable 300 7000 ''2222222'')) demo_ticked)"
    by (rule pipeline_step [OF demo_run]) simp
  from mem_site.run_ok [OF this demo_fresh] demo_disable show ?thesis
    by (simp add: pipeline_ok_def Let_def)
qed

definition demo_disabling :: "json option" where
  "demo_disabling = Some (JObj [(''event_id'', JStr ''300''), (''aggregate_id'', JStr ''101''),
     (''event_type'', JStr ''link.disabled''), (''occurred_at'', JStr ''6000''),
     (''payload'', JObj [(''short_code'', JStr ''2222222'')])])"

definition demo_disabling_fact :: fact where
  "demo_disabling_fact = \<lparr>f_id = 300, f_type = ''link.disabled'', f_code = ''2222222'', f_url = []\<rparr>"

lemma demo_disabling_message: "message_fact 0 ParseInt decimal_uuid_Parse demo_disabling = Some demo_disabling_fact"
  by (simp add: demo_disabling_def demo_disabling_fact_def message_fact_def envelope_fact_def
      zero_envelope_def field_matches_def fold_char_def in_range_def json_time_def demo_read_time demo_parse_ids
      fact_of_payload_def to_valid_ascii ascii_def EventTypeLinkCreated_def)

lemma demo_disabled_log:
  "lifecycle_of ''2222222'' (st_log (store_of (mem_tables demo_disabled))) = [demo_creation_fact, demo_disabling_fact]"
  by (simp add: lifecycle_of_def store_of_def mem_tables_def demo_disabled_def demo_ticked_def demo_after_def
      demo_event_def demo_event_disabled_def row_fact_def
      fact_of_payload_def field_matches_def fold_char_def in_range_def is_lifecycle_def EventTypeLinkCreated_def
      EventTypeLinkDisabled_def demo_creation_fact_def demo_disabling_fact_def List.map_filter_def)

lemma demo_resurrection:
  "consume demo_callback [(demo_creation, 1), (demo_disabling, 2), (demo_creation, 3)] (demo_disabled\<lparr>m_faults := [True]\<rparr>)
     = ([Nak, Ack, Ack], demo_disabled\<lparr>m_kv := [(''link:2222222'', ''https://a.io'')]\<rparr>)"
  by (simp add: demo_creation_def demo_disabling_def deliver_run mem_run wire_message_def demo_read_time demo_disabled_def
      demo_ticked_def demo_after_def EventTypeLinkCreated_def EventTypeLinkDisabled_def ascii_demo to_valid_ascii ascii_def)

theorem stale_redelivery_resurrects_witness:
  "v_links (view_of (mem_kv (demo_disabled\<lparr>m_kv := [(''link:2222222'', ''https://a.io'')]\<rparr>))) ''2222222''
     = Some (f_url demo_creation_fact)"
proof -
  have ok: "consistent (store_of (mem_tables (demo_disabled\<lparr>m_faults := [True]\<rparr>)))"
    using demo_disabled_consistent by simp
  have log: "lifecycle_of ''2222222'' (st_log (store_of (mem_tables (demo_disabled\<lparr>m_faults := [True]\<rparr>))))
      = [demo_creation_fact, demo_disabling_fact]"
    using demo_disabled_log by simp
  from stale_redelivery_resurrects [OF memory_is_world ok demo_resurrection demo_creation_message demo_disabling_message log]
  show ?thesis by (elim conjE)
qed


subsection \<open>Rebuilding, acknowledging\<close>

text \<open>C32. The read model is disposable. When the key-value store has been wiped and the projector
  restarts while the servers answer (\<open>healthy\<close>), a restart that reports success leaves the durable side
  alone and rebuilds the read model from it: a code resolves to \<open>u\<close> exactly when there is an active link
  of that code to \<open>u\<close>, and the click counters are the durable ones.\<close>

theorem restart_rebuilds_read_model:
  assumes w: "world pg tables stamp rdb kv pub stream"
    and run: "projector_bootstrap rdb pg s = (None, s')"
    and set: "\<And>k v t. healthy t \<Longrightarrow> \<exists>t'. kSet rdb k v t = (None, t') \<and> healthy t'"
    and del: "\<And>k t. healthy t \<Longrightarrow> \<exists>t'. kDel rdb k t = (None, t') \<and> healthy t'"
    and list: "\<And>t r t'. healthy t \<Longrightarrow> gFindLinks pg t = (r, t') \<Longrightarrow> healthy t'"
      "\<And>t r t'. healthy t \<Longrightarrow> gFindAnalytics pg t = (r, t') \<Longrightarrow> healthy t'"
    and start: "healthy s" "store_ok (store_of (tables s))" "kv s = Map.empty"
  shows "tables s' = tables s
    \<and> (v_links (view_of (kv s')) c = Some u \<longleftrightarrow>
        (\<exists>i r. st_links (store_of (tables s)) i = Some r \<and> sl_code r = c \<and> \<not> IsDisabled (sl_status r) \<and> sl_url r = u))
    \<and> v_clicks (view_of (kv s')) = an_count (counters_of (tables s))"
proof -
  have pg: "postgres pg tables stamp" "gorm_keeps pg kv" using w by (simp_all add: world_def world_axioms_def)
  have writers: "\<exists>t'. wSaveLink (Redis_Writer rdb) a b t = (None, t') \<and> healthy t'"
    "\<exists>t'. wDeleteLink (Redis_Writer rdb) a t = (None, t') \<and> healthy t'"
    "\<exists>t'. wSetClicks (Redis_Writer rdb) a n t = (None, t') \<and> healthy t'" if "healthy t" for a b n t
    using set [OF that, of "linkPrefix @ a" b] set [OF that, of "clickPrefix @ a" "FormatInt n"] del [OF that, of "linkPrefix @ a"]
    by (auto simp: ReadModel_SaveLink_def ReadModel_DeleteLink_def ReadModel_SetClicks_def cmd_err_def)
  have links: "healthy t' \<and> view_of (kv t') = view_of (kv t) \<and> counters_of (tables t') = counters_of (tables t)"
    if l: "lListAll (LinkRepository_Reader pg) t = (r, t')" "healthy t" for t r t'
  proof -
    have l': "LinkRepository_ListAll pg t = (r, t')" using l(1) by simp
    obtain g t1 where g: "gFindLinks pg t = (g, t1)" by (metis surj_pair)
    with l' have "t' = t1" by (auto simp: LinkRepository_ListAll_def split: sum.splits)
    with list(1) [OF l(2) g] g pg(2) postgres.ListLinks_spec [OF pg(1) l'] show ?thesis
      by (auto simp: gorm_keeps_def dest: keepsD)
  qed
  have frame: "view_of (kv t') = view_of (kv t) \<and> counters_of (tables t') = counters_of (tables t)"
    if l: "lListAll (LinkRepository_Reader pg) t = (r, t')" for t r t'
  proof -
    have l': "LinkRepository_ListAll pg t = (r, t')" using l by simp
    obtain g t1 where g: "gFindLinks pg t = (g, t1)" by (metis surj_pair)
    with l' have "t' = t1" by (auto simp: LinkRepository_ListAll_def split: sum.splits)
    with g pg(2) postgres.ListLinks_spec [OF pg(1) l'] show ?thesis
      by (auto simp: gorm_keeps_def dest: keepsD)
  qed
  have counts: "healthy t'" if a: "aListAll (Postgres_AnalyticsStore pg) t = (r, t')" "healthy t" for t r t'
  proof -
    obtain g t1 where g: "gFindAnalytics pg t = (g, t1)" by (metis surj_pair)
    with a(1) have "t' = t1" by (auto simp: AnalyticsStore_ListAll_def split: sum.splits)
    with list(2) [OF a(2) g] show ?thesis by simp
  qed
  have wiped: "view_of (kv s) = \<lparr>v_links = Map.empty, v_clicks = Map.empty\<rparr>" using start(3) by (simp add: view_of_def)
  have "(v_links (view_of (kv s')) c = Some u \<longleftrightarrow>
        (\<exists>i r. st_links (store_of (tables s)) i = Some r \<and> sl_code r = c \<and> \<not> IsDisabled (sl_status r) \<and> sl_url r = u))
    \<and> v_clicks (view_of (kv s')) = an_count (counters_of (tables s))"
    by (rule projector.Bootstrap_wiped [OF world.projector_wired [OF w] postgres.implements_reader [OF pg(1)] frame
          run [unfolded projector_bootstrap_def] start(1) writers links [THEN conjunct1] counts start(2) wiped])
  moreover have "tables s' = tables s" using keepsD [OF world.keeps_restart(2) [OF w] run] .
  ultimately show ?thesis by blast
qed

text \<open>One link active, one disabled, and a counter.\<close>

definition demo_wiped :: mem where
  "demo_wiped = demo_disabled\<lparr>m_analytics := [demo_counter 2]\<rparr>"

lemma demo_restart:
  "projector_bootstrap mem_redis mem_pg demo_wiped
     = (None, demo_wiped\<lparr>m_kv := [(''link:1111111'', ''https://a.io''), (''clicks:2222222'', ''2'')]\<rparr>)"
  by (simp add: projector_bootstrap_def Bootstrap_def LinkRepository_ListAll_def AnalyticsStore_ListAll_def deliver_run mem_run
      ReadModel_SetClicks_def clickPrefix_def demo_wiped_def demo_disabled_def demo_ticked_def demo_after_def demo_row_def
      demo_row_disabled_def demo_counter_def IsDisabled_def StatusDisabled_def int64_def FormatInt_def digits.simps Let_def)

theorem restart_rebuilds_read_model_witness:
  "v_links (view_of (mem_kv (demo_wiped\<lparr>m_kv := [(''link:1111111'', ''https://a.io''), (''clicks:2222222'', ''2'')]\<rparr>))) ''1111111''
      = Some ''https://a.io'' \<longleftrightarrow>
     (\<exists>i r. st_links (store_of (mem_tables demo_wiped)) i = Some r \<and> sl_code r = ''1111111''
        \<and> \<not> IsDisabled (sl_status r) \<and> sl_url r = ''https://a.io'')"
proof -
  have "store_of (mem_tables demo_wiped) = store_of (mem_tables demo_disabled)"
    by (simp add: demo_wiped_def mem_tables_def store_of_def)
  then have ok: "store_ok (store_of (mem_tables demo_wiped))"
    using demo_disabled_consistent by (simp add: consistent_def)
  have kv: "mem_kv demo_wiped = Map.empty" and h: "m_faults demo_wiped = []"
    by (simp_all add: demo_wiped_def demo_disabled_def demo_ticked_def demo_after_def empty_mem_def mem_kv_def)
  have l: "m_faults t' = []" if "m_faults t = []" "gFindLinks mem_pg t = (r, t')" for t r t'
    using that by (auto simp: mem_run)
  have a: "m_faults t' = []" if "m_faults t = []" "gFindAnalytics mem_pg t = (r, t')" for t r t'
    using that by (auto simp: mem_run Let_def split: if_splits)
  note rebuilt = restart_rebuilds_read_model [where healthy = "\<lambda>t. m_faults t = []" and c = "''1111111''"
      and u = "''https://a.io''", OF memory_is_world demo_restart _ _ _ _ h ok kv, THEN conjunct2, THEN conjunct1]
  show ?thesis by (rule rebuilt [OF mem_healthy(4) mem_healthy(5)]) (blast intro: l a)+
qed



end
