(* ===== verification/Short_Startup.thy ===== *)
theory Short_Startup
  imports Short_Http Short_Relay Go_Process
begin

text \<open>
  url-shortener, \<open>persistence/postgres/db.go\<close>, \<open>messaging/jetstream\<close> and the start of the three
  programs of \<open>cmd\<close>: connecting with a bounded number of attempts, creating the stream, and the order
  in which a program acquires what it needs. The drivers of PostgreSQL and NATS are libraries: records
  of operations on the state of the outside world, with \<open>None\<close> for success and an error text otherwise.
\<close>

subsection \<open>Bounded attempts\<close>

text \<open>The loop both connectors have: \<open>n\<close> attempts, a pause after each failure, the last error kept.\<close>

fun attempts_loop :: "('s \<Rightarrow> string option \<times> 's) \<Rightarrow> ('s \<Rightarrow> 's) \<Rightarrow> nat \<Rightarrow> string option \<Rightarrow> 's \<Rightarrow> string option \<times> 's" where
  "attempts_loop attempt sleep 0 lastErr s = (lastErr, s)"
| "attempts_loop attempt sleep (Suc n) lastErr s =
     (case attempt s of
        (None, s1) \<Rightarrow> (None, s1)
      | (Some e, s1) \<Rightarrow> attempts_loop attempt sleep n (Some e) (sleep s1))"

definition connectAttempts :: nat where "connectAttempts = 30"

text \<open>The world before attempt \<open>i\<close>, when all before it failed.\<close>

definition before_attempt :: "('s \<Rightarrow> string option \<times> 's) \<Rightarrow> ('s \<Rightarrow> 's) \<Rightarrow> nat \<Rightarrow> 's \<Rightarrow> 's" where
  "before_attempt attempt sleep i = (\<lambda>s. sleep (snd (attempt s))) ^^ i"

lemma before_attempt_Suc:
  "before_attempt attempt sleep (Suc i) s = before_attempt attempt sleep i (sleep (snd (attempt s)))"
  unfolding before_attempt_def by (simp only: funpow_Suc_right comp_apply)

lemma before_attempt_0 [simp]: "before_attempt attempt sleep 0 s = s"
  by (simp add: before_attempt_def)

text \<open>The loop fails when every attempt fails, with the error of the last one.\<close>

lemma attempts_loop_fails:
  "\<forall>i < n. fst (attempt (before_attempt attempt sleep i s)) \<noteq> None \<Longrightarrow>
   attempts_loop attempt sleep n e0 s =
     (if n = 0 then e0 else fst (attempt (before_attempt attempt sleep (n - 1) s)),
      before_attempt attempt sleep n s)"
proof (induction n arbitrary: s e0)
  case (Suc n)
  obtain e s1 where a: "attempt s = (Some e, s1)"
    using Suc.prems [rule_format, of 0] by (cases "attempt s") auto
  have "\<forall>i < n. fst (attempt (before_attempt attempt sleep i (sleep s1))) \<noteq> None"
    using Suc.prems before_attempt_Suc [of attempt sleep _ s] a by (metis Suc_less_eq snd_conv)
  from Suc.IH [OF this, of "Some e"] a show ?case
    by (cases n) (simp_all add: before_attempt_Suc)
qed simp

text \<open>It succeeds at the first attempt that does, and makes no other after it.\<close>

lemma attempts_loop_succeeds:
  "i < n \<Longrightarrow> fst (attempt (before_attempt attempt sleep i s)) = None \<Longrightarrow>
   \<forall>j < i. fst (attempt (before_attempt attempt sleep j s)) \<noteq> None \<Longrightarrow>
   attempts_loop attempt sleep n e0 s = (None, snd (attempt (before_attempt attempt sleep i s)))"
proof (induction i arbitrary: n s e0)
  case 0
  then show ?case by (cases n; cases "attempt s") auto
next
  case (Suc i)
  then obtain m where n: "n = Suc m" "i < m" by (cases n) auto
  obtain e s1 where a: "attempt s = (Some e, s1)"
    using Suc.prems(3) [rule_format, of 0] by (cases "attempt s") auto
  have "\<forall>j < i. fst (attempt (before_attempt attempt sleep j (sleep s1))) \<noteq> None"
    using Suc.prems(3) before_attempt_Suc [of attempt sleep _ s] a by (metis Suc_less_eq snd_conv)
  with Suc.IH [OF n(2), of "sleep s1" "Some e"] Suc.prems(2) a n(1) show ?case
    by (simp add: before_attempt_Suc)
qed

lemma attempts_loop_ok_iff:
  "fst (attempts_loop attempt sleep n (Some e) s) = None
     \<longleftrightarrow> (\<exists>i < n. fst (attempt (before_attempt attempt sleep i s)) = None)"
proof
  assume ok: "fst (attempts_loop attempt sleep n (Some e) s) = None"
  show "\<exists>i < n. fst (attempt (before_attempt attempt sleep i s)) = None"
  proof (rule ccontr)
    assume "\<not> (\<exists>i < n. fst (attempt (before_attempt attempt sleep i s)) = None)"
    then have all: "\<forall>i < n. fst (attempt (before_attempt attempt sleep i s)) \<noteq> None" by simp
    from attempts_loop_fails [OF all, of "Some e"] ok all show False by (cases n) auto
  qed
next
  assume "\<exists>i < n. fst (attempt (before_attempt attempt sleep i s)) = None"
  then obtain k where k: "k < n" "fst (attempt (before_attempt attempt sleep k s)) = None" by blast
  let ?i = "LEAST i. fst (attempt (before_attempt attempt sleep i s)) = None"
  have "fst (attempt (before_attempt attempt sleep ?i s)) = None" using k(2) by (rule LeastI)
  moreover have "?i < n" using Least_le [where P = "\<lambda>i. fst (attempt (before_attempt attempt sleep i s)) = None", OF k(2)] k(1)
    by simp
  moreover have "\<forall>j < ?i. fst (attempt (before_attempt attempt sleep j s)) \<noteq> None"
    using not_less_Least by blast
  ultimately have "attempts_loop attempt sleep n (Some e) s
      = (None, snd (attempt (before_attempt attempt sleep ?i s)))"
    by (intro attempts_loop_succeeds)
  then show "fst (attempts_loop attempt sleep n (Some e) s) = None"
    by simp
qed

subsection \<open>PostgreSQL\<close>

record 's pg_driver =
  dGormOpen :: "string \<Rightarrow> 's \<Rightarrow> string option \<times> 's"
  dDB :: "'s \<Rightarrow> string option \<times> 's"
  dPing :: "'s \<Rightarrow> string option \<times> 's"
  dAutoMigrate :: "string list \<Rightarrow> 's \<Rightarrow> string option \<times> 's"

definition open_attempt :: "'s pg_driver \<Rightarrow> string \<Rightarrow> 's \<Rightarrow> string option \<times> 's" where
  "open_attempt d dsn s =
     (case dGormOpen d dsn s of
        (Some e, s1) \<Rightarrow> (Some e, s1)
      | (None, s1) \<Rightarrow>
          (case dDB d s1 of
             (Some e, s2) \<Rightarrow> (Some e, s2)
           | (None, s2) \<Rightarrow> dPing d s2))"

definition Postgres_Open :: "'s pg_driver \<Rightarrow> ('s \<Rightarrow> 's) \<Rightarrow> string \<Rightarrow> 's \<Rightarrow> string option \<times> 's" where
  "Postgres_Open d sleep dsn s =
     (case attempts_loop (open_attempt d dsn) sleep connectAttempts (Some ''%!w(<nil>)'') s of
        (None, s1) \<Rightarrow> (None, s1)
      | (Some lastErr, s1) \<Rightarrow>
          (Some (''postgres unreachable after '' @ FormatInt (int connectAttempts) @ '' attempts: '' @ lastErr), s1))"

definition AutoMigrate :: "'s pg_driver \<Rightarrow> 's \<Rightarrow> string option \<times> 's" where
  "AutoMigrate d = dAutoMigrate d [''linkModel'', ''outboxModel'', ''analyticsModel'', ''processedEventModel'']"

subsection \<open>JetStream\<close>

record StreamConfig =
  sc_Name :: string
  sc_Subjects :: "string list"
  sc_FileStorage :: bool
  sc_LimitsPolicy :: bool
  sc_Duplicates :: duration

definition streamName :: string where "streamName = ''LINKS''"

definition streamSubjects :: string where "streamSubjects = ''link.>''"

definition dedupWindow :: duration where "dedupWindow = 2 * 60 * Second"

text \<open>The options of a subscription: its durable name, manual and explicit acknowledgement, all messages.\<close>

record sub_options =
  so_Durable :: string
  so_ManualAck :: bool
  so_AckExplicit :: bool
  so_DeliverAll :: bool
  so_AckWait :: duration

record 's nats_driver =
  nConnect :: "string \<Rightarrow> 's \<Rightarrow> string option \<times> 's"
  nJetStream :: "'s \<Rightarrow> string option \<times> 's"
  nStreamInfo :: "string \<Rightarrow> 's \<Rightarrow> string option \<times> 's"
  nAddStream :: "StreamConfig \<Rightarrow> 's \<Rightarrow> string option \<times> 's"
  nPublish :: "string \<Rightarrow> json \<Rightarrow> string \<Rightarrow> 's \<Rightarrow> string option \<times> 's"
  nSubscribe :: "string \<Rightarrow> sub_options \<Rightarrow> 's \<Rightarrow> string option \<times> 's"
  nClose :: "'s \<Rightarrow> 's"
  nDrain :: "'s \<Rightarrow> string option \<times> 's"

definition js_Connect :: "'s nats_driver \<Rightarrow> ('s \<Rightarrow> 's) \<Rightarrow> string \<Rightarrow> 's \<Rightarrow> string option \<times> 's" where
  "js_Connect d sleep url s =
     (case attempts_loop (nConnect d url) sleep connectAttempts None s of
        (Some e, s1) \<Rightarrow> (Some e, s1)
      | (None, s1) \<Rightarrow>
          (case nJetStream d s1 of
             (Some e, s2) \<Rightarrow> (Some e, nClose d s2)
           | (None, s2) \<Rightarrow> (None, s2)))"

definition EnsureStream :: "'s nats_driver \<Rightarrow> 's \<Rightarrow> string option \<times> 's" where
  "EnsureStream d s =
     (case nStreamInfo d streamName s of
        (None, s1) \<Rightarrow> (None, s1)
      | (Some e, s1) \<Rightarrow>
          nAddStream d \<lparr>sc_Name = streamName, sc_Subjects = [streamSubjects], sc_FileStorage = True,
            sc_LimitsPolicy = True, sc_Duplicates = dedupWindow\<rparr> s1)"

text \<open>\<open>Publish\<close> passes the message on with its identifier, the key of the server's de-duplication.\<close>

definition js_Publisher :: "'s nats_driver \<Rightarrow> 's Publisher" where
  "js_Publisher n = \<lparr>pPublish = (\<lambda>subject data msgID s.
     case nPublish n subject data msgID s of (err, s1) \<Rightarrow> (map_option ErrInfra err, s1))\<rparr>"

text \<open>\<open>Subscribe\<close>: the callback that is registered is \<open>on_message\<close>.\<close>

definition js_Subscribe :: "'s nats_driver \<Rightarrow> string \<Rightarrow> 's \<Rightarrow> string option \<times> 's" where
  "js_Subscribe n durable =
     nSubscribe n streamSubjects \<lparr>so_Durable = durable, so_ManualAck = True, so_AckExplicit = True,
       so_DeliverAll = True, so_AckWait = 30 * Second\<rparr>"

definition js_Close :: "'s nats_driver \<Rightarrow> bool \<Rightarrow> 's \<Rightarrow> 's" where
  "js_Close n connected s = (if connected then snd (nDrain n s) else s)"

text \<open>
  On a server that appends a message unless it still knows its identifier, the adapter keeps the
  contract of the bus the relay relies on.
\<close>

lemma js_Publisher_bus:
  assumes "\<And>subj data i s err s'. nPublish n subj data i s = (err, s') \<Longrightarrow>
      stream s' = stream s @ [\<lparr>bm_subject = subj, bm_data = data, bm_id = i\<rparr>]
      \<or> stream s' = stream s \<and> (err = None \<longrightarrow> (\<exists>m \<in> set (stream s). bm_id m = i))"
  shows "publisher_port (js_Publisher n) stream"
proof
  fix subj data i s res s'
  assume "pPublish (js_Publisher n) subj data i s = (res, s')"
  then obtain err where "nPublish n subj data i s = (err, s')" "res = map_option ErrInfra err"
    by (auto simp: js_Publisher_def split: prod.splits)
  with assms [of subj data i s err s']
  show "stream s' = stream s @ [\<lparr>bm_subject = subj, bm_data = data, bm_id = i\<rparr>]
      \<or> stream s' = stream s \<and> (res = None \<longrightarrow> (\<exists>m \<in> set (stream s). bm_id m = i))"
    by simp
qed

text \<open>
  A second call finds the stream and adds nothing, when the server reports the stream it has added and
  asking does not change it.
\<close>

lemma EnsureStream_idempotent:
  assumes "\<And>cfg s s'. nAddStream d cfg s = (None, s') \<Longrightarrow> nStreamInfo d (sc_Name cfg) s' = (None, s')"
    and "\<And>name s s'. nStreamInfo d name s = (None, s') \<Longrightarrow> nStreamInfo d name s' = (None, s')"
    and "EnsureStream d s = (None, s')"
  shows "EnsureStream d s' = (None, s')"
proof -
  have "nStreamInfo d streamName s' = (None, s')"
  proof (cases "nStreamInfo d streamName s")
    case (Pair r s1)
    then show ?thesis
      using assms(2) [of streamName s s'] assms(3)
        assms(1) [of "\<lparr>sc_Name = streamName, sc_Subjects = [streamSubjects], sc_FileStorage = True,
          sc_LimitsPolicy = True, sc_Duplicates = dedupWindow\<rparr>" s1 s']
      by (cases r) (simp_all add: EnsureStream_def)
  qed
  then show ?thesis by (simp add: EnsureStream_def)
qed

subsection \<open>The start of the programs\<close>

text \<open>
  A program ends at the first step that fails, with the message it logs; \<open>log.Fatal\<close> leaves at once, so
  no deferred close runs. \<open>logger_ok\<close> says whether the logger can be built (a panic otherwise).
\<close>

datatype startup = LoggerPanic | FatalStart string string | Started

definition and_then ::
  "string \<Rightarrow> ('s \<Rightarrow> string option \<times> 's) \<Rightarrow> ('s \<Rightarrow> startup \<times> 's) \<Rightarrow> 's \<Rightarrow> startup \<times> 's" where
  "and_then what step rest s =
     (case step s of (Some e, s1) \<Rightarrow> (FatalStart what e, s1) | (None, s1) \<Rightarrow> rest s1)"

definition with_logger :: "bool \<Rightarrow> ('s \<Rightarrow> startup \<times> 's) \<Rightarrow> 's \<Rightarrow> startup \<times> 's" where
  "with_logger logger_ok rest s = (if \<not> logger_ok then (LoggerPanic, s) else rest s)"

definition start_api :: "bool \<Rightarrow> 's pg_driver \<Rightarrow> ('s \<Rightarrow> 's) \<Rightarrow> Config \<Rightarrow> 's \<Rightarrow> startup \<times> 's" where
  "start_api logger_ok d sleep cfg =
     with_logger logger_ok
       (and_then ''connect postgres'' (Postgres_Open d sleep (PostgresDSN cfg))
       (and_then ''migrate postgres'' (AutoMigrate d)
       (Pair Started)))"

definition start_relay ::
  "bool \<Rightarrow> 's pg_driver \<Rightarrow> 's nats_driver \<Rightarrow> ('s \<Rightarrow> 's) \<Rightarrow> Config \<Rightarrow> 's \<Rightarrow> startup \<times> 's" where
  "start_relay logger_ok d n sleep cfg =
     with_logger logger_ok
       (and_then ''connect postgres'' (Postgres_Open d sleep (PostgresDSN cfg))
       (and_then ''connect jetstream'' (js_Connect n sleep (NatsURL cfg))
       (and_then ''ensure stream'' (EnsureStream n)
       (Pair Started))))"

definition durableConsumerName :: string where "durableConsumerName = ''link-projector''"

text \<open>The projector rebuilds the read model before it subscribes; an error there is only logged.\<close>

definition start_projector ::
  "bool \<Rightarrow> 's pg_driver \<Rightarrow> 's nats_driver \<Rightarrow> 's redis \<Rightarrow> 's gorm \<Rightarrow> ('s \<Rightarrow> 's) \<Rightarrow> Config \<Rightarrow> 's \<Rightarrow> startup \<times> 's"
where
  "start_projector logger_ok d n rdb pg sleep cfg =
     with_logger logger_ok
       (and_then ''connect postgres'' (Postgres_Open d sleep (PostgresDSN cfg))
       (and_then ''migrate postgres'' (AutoMigrate d)
       (and_then ''connect jetstream'' (js_Connect n sleep (NatsURL cfg))
       (and_then ''ensure stream'' (EnsureStream n)
       (\<lambda>s. and_then ''subscribe jetstream'' (js_Subscribe n durableConsumerName)
          (Pair Started) (snd (projector_bootstrap rdb pg s)))))))"

text \<open>\<open>cmd/relay\<close> as a whole: the start, and the polling loop when it succeeds.\<close>

definition cmd_relay ::
  "bool \<Rightarrow> 's pg_driver \<Rightarrow> 's nats_driver \<Rightarrow> ('s \<Rightarrow> 's) \<Rightarrow> (time \<Rightarrow> string option) \<Rightarrow> (uuid \<Rightarrow> string) \<Rightarrow> 's gorm
     \<Rightarrow> 's Publisher \<Rightarrow> Config \<Rightarrow> relay_event list \<Rightarrow> 's \<Rightarrow> (startup \<times> 's) go" where
  "cmd_relay logger_ok d n sleep tf us pg pub cfg evs s =
     (case start_relay logger_ok d n sleep cfg s of
        (Started, s1) \<Rightarrow> go_bind (relay_main tf us pg pub cfg evs s1) (\<lambda>s2. Ret (Started, s2))
      | (failed, s1) \<Rightarrow> Ret (failed, s1))"

text \<open>\<open>cmd/api\<close> as a whole: the start, and serving until the signal.\<close>

definition cmd_api ::
  "bool \<Rightarrow> 's pg_driver \<Rightarrow> ('s \<Rightarrow> 's) \<Rightarrow> Config \<Rightarrow> server_event list \<Rightarrow> 's
     \<Rightarrow> (startup \<times> string list \<times> nat option) \<times> 's" where
  "cmd_api logger_ok d sleep cfg events s =
     (case start_api logger_ok d sleep cfg s of
        (Started, s1) \<Rightarrow>
          ((Started, serve_until_signal [''api listening addr='' @ HTTPAddr cfg] (\<lambda>err. ''http server '' @ err)
              [''api shutting down''] (\<lambda>err. ''graceful shutdown failed '' @ err) events), s1)
      | (failed, s1) \<Rightarrow> ((failed, [], Some (if failed = LoggerPanic then 2 else 1)), s1))"

text \<open>A program is started exactly when every step succeeds, each on the world the one before left.\<close>

lemma and_then_Started:
  "and_then what step rest s = (Started, s') \<longleftrightarrow> (\<exists>s1. step s = (None, s1) \<and> rest s1 = (Started, s'))"
  by (auto simp: and_then_def split: prod.split option.split)

lemma Postgres_Open_ok_iff:
  "fst (Postgres_Open d sleep dsn s) = None
     \<longleftrightarrow> (\<exists>i < connectAttempts. fst (open_attempt d dsn (before_attempt (open_attempt d dsn) sleep i s)) = None)"
proof -
  have "fst (Postgres_Open d sleep dsn s)
      = None \<longleftrightarrow> fst (attempts_loop (open_attempt d dsn) sleep connectAttempts (Some ''%!w(<nil>)'') s) = None"
    by (simp add: Postgres_Open_def split: prod.split option.split)
  then show ?thesis unfolding attempts_loop_ok_iff .
qed

lemma relay_has_stream:
  assumes "start_relay ok d n sleep cfg s = (Started, s')"
    and "\<And>c s s'. nAddStream n c s = (None, s') \<Longrightarrow> nStreamInfo n (sc_Name c) s' = (None, s')"
    and "\<And>name s s'. nStreamInfo n name s = (None, s') \<Longrightarrow> nStreamInfo n name s' = (None, s')"
  shows "EnsureStream n s' = (None, s')"
proof -
  obtain s3 where s3: "EnsureStream n s3 = (None, s')"
    using assms(1) by (auto simp: start_relay_def with_logger_def and_then_Started split: if_splits)
  show ?thesis by (rule EnsureStream_idempotent [OF assms(2,3) s3])
qed

end
