(* ===== verification/Nginx_Logger.thy ===== *)
theory Nginx_Logger
  imports Go_Path
begin

text \<open>
  mini-nginx, \<open>internal/logger\<close>: the state of the package, whether \<open>Init\<close> has opened the log,
  whether debug output is on, and the lines written so far. The date and time the \<open>log\<close> package puts
  in front of every line are left out. Values are given as the text \<open>%v\<close> makes of them.
\<close>

record nginx_log =
  nl_open :: bool
  nl_debug :: bool
  nl_lines :: "string list"

definition no_log :: nginx_log where
  "no_log = \<lparr>nl_open = False, nl_debug = False, nl_lines = []\<rparr>"

text \<open>\<open>Init\<close>: \<open>can_open\<close> says whether the log file can be opened, \<open>level\<close> is the environment variable.\<close>

definition logger_Init :: "(rune \<Rightarrow> rune) \<Rightarrow> bool \<Rightarrow> string \<Rightarrow> nginx_log \<Rightarrow> nginx_log go" where
  "logger_Init lower can_open level l =
     (if \<not> can_open then Panic PanicCalled
      else Ret (l\<lparr>nl_open := True,
        nl_debug := (ToLower lower (TrimSpace level) \<in> {''debug'', ''all'', ''verbose''})\<rparr>))"

definition isNoisePath :: "(rune \<Rightarrow> rune) \<Rightarrow> string \<Rightarrow> bool" where
  "isNoisePath lower path0 =
     (let path = takeWhile ((\<noteq>) (CHR ''?'')) path0 in
      ToLower lower path \<in> {''/favicon.ico'', ''/robots.txt'', ''/static/''}
      \<or> prefix ''/.well-known/'' path)"

definition accessAllowed :: "(rune \<Rightarrow> rune) \<Rightarrow> string \<Rightarrow> nginx_log \<Rightarrow> bool" where
  "accessAllowed lower path l \<longleftrightarrow> nl_debug l \<or> \<not> isNoisePath lower path"

subsection \<open>Key-value pairs\<close>

text \<open>The loop over the pairs with the builder \<open>b\<close>; a last value without a partner follows alone.\<close>

fun format_loop :: "string list \<Rightarrow> string \<Rightarrow> string" where
  "format_loop (k # v # kvs) b = format_loop kvs (b @ (if b \<noteq> [] then '' '' else []) @ k @ ''='' @ v)"
| "format_loop [k] b = b @ (if b \<noteq> [] then '' '' else []) @ k"
| "format_loop [] b = b"

definition formatPairs :: "string list \<Rightarrow> string" where
  "formatPairs kvs = format_loop kvs []"

lemma format_loop_pairs:
  "b \<noteq> [] \<Longrightarrow> format_loop (concat (map (\<lambda>(k, v). [k, v]) ps)) b
     = b @ concat (map (\<lambda>(k, v). '' '' @ k @ ''='' @ v) ps)"
  by (induction ps arbitrary: b) auto

text \<open>What the comment of \<open>formatPairs\<close> says: the pairs, separated by spaces.\<close>

lemma formatPairs_pairs:
  "formatPairs (concat (map (\<lambda>(k, v). [k, v]) ps)) = Join '' '' (map (\<lambda>(k, v). k @ ''='' @ v) ps)"
proof (cases ps)
  case (Cons p qs)
  obtain k v where p: "p = (k, v)" by (cases p)
  have "concat (map (\<lambda>(k, v). '' '' @ k @ ''='' @ v) qs)
      = concat (map ((@) '' '') (map (\<lambda>(k, v). k @ ''='' @ v) qs))"
    by (induction qs) auto
  with Cons p format_loop_pairs [of "k @ ''='' @ v" qs] show ?thesis
    by (simp add: formatPairs_def Join_map)
qed (simp add: formatPairs_def)

subsection \<open>The log functions\<close>

definition printed :: "string \<Rightarrow> nginx_log \<Rightarrow> nginx_log" where
  "printed line l = l\<lparr>nl_lines := nl_lines l @ [line]\<rparr>"

definition logLine :: "string \<Rightarrow> string \<Rightarrow> string list \<Rightarrow> nginx_log \<Rightarrow> nginx_log" where
  "logLine tag msg kvs l =
     (let extras = formatPairs kvs in
      if extras = [] then printed (tag @ '' '' @ msg @ [CHR 0x0A]) l
      else printed (tag @ '' '' @ msg @ '' '' @ extras @ [CHR 0x0A]) l)"

definition log_Debug :: "string \<Rightarrow> string list \<Rightarrow> nginx_log \<Rightarrow> nginx_log" where
  "log_Debug msg kvs l = (if \<not> nl_open l \<or> \<not> nl_debug l then l else logLine ''[DBG]'' msg kvs l)"

definition log_Info :: "string \<Rightarrow> string list \<Rightarrow> nginx_log \<Rightarrow> nginx_log" where
  "log_Info msg kvs l = (if \<not> nl_open l then l else logLine ''[INF]'' msg kvs l)"

definition log_Warn :: "string \<Rightarrow> string list \<Rightarrow> nginx_log \<Rightarrow> nginx_log" where
  "log_Warn msg kvs l = (if \<not> nl_open l then l else logLine ''[WRN]'' msg kvs l)"

definition log_Error :: "string \<Rightarrow> string list \<Rightarrow> nginx_log \<Rightarrow> nginx_log" where
  "log_Error msg kvs l = (if \<not> nl_open l then l else logLine ''[ERR]'' msg kvs l)"

definition log_Access ::
  "(rune \<Rightarrow> rune) \<Rightarrow> string \<Rightarrow> string \<Rightarrow> string \<Rightarrow> string \<Rightarrow> nginx_log \<Rightarrow> nginx_log" where
  "log_Access lower remote meth path outcome l =
     (if \<not> nl_open l then l
      else if \<not> accessAllowed lower path l then l
      else printed (''[ACC] remote='' @ remote @ '' method='' @ meth @ '' path='' @ path @ '' '' @ outcome
        @ [CHR 0x0A]) l)"

end
