(* ===== verification/Nginx_Handlers.thy ===== *)
theory Nginx_Handlers
  imports Nginx_Logger
begin

text \<open>
  mini-nginx, \<open>internal/handlers\<close>: what each handler writes to the connection. A handler returns the
  bytes it writes, in order. What it asks of the machine is the environment: reading a file, \<open>os.Stat\<close>
  (\<open>IsDir\<close>), \<open>os.ReadDir\<close> (names with \<open>IsDir\<close>, in the order of the answer), the tables of \<open>mime\<close> and
  \<open>net/http\<close>, and a TCP connection to a backend, which answers what it is sent until it closes.
  \<open>None\<close> stands for an error. The verb \<open>%q\<close> and the Unicode case table serve the log line only.
\<close>

record nginx_env =
  ne_ReadFile :: "string \<Rightarrow> string option"
  ne_Stat :: "string \<Rightarrow> bool option"
  ne_ReadDir :: "string \<Rightarrow> (string \<times> bool) list option"
  ne_TypeByExtension :: "string \<Rightarrow> string"
  ne_DetectContentType :: "string \<Rightarrow> string"
  ne_Dial :: "string \<Rightarrow> (string \<Rightarrow> string) option"
  ne_quote :: "string \<Rightarrow> string"
  ne_lower :: "rune \<Rightarrow> rune"

subsection \<open>Response text\<close>

definition newline :: char where "newline = CHR 0x0A"

definition crlf :: string where "crlf = [CHR 0x0D, CHR 0x0A]"

text \<open>The lines of a head, each ended by CR LF, an empty line, and the body.\<close>

definition http_text :: "string list \<Rightarrow> string \<Rightarrow> string" where
  "http_text ls body = concat (map (\<lambda>l. l @ crlf) ls) @ crlf @ body"

definition content_length :: "string \<Rightarrow> string" where
  "content_length body = ''Content-Length: '' @ FormatInt (int (length body))"

definition write404 :: string where
  "write404 =
     (let body = ''404 not found'' in
      http_text [''HTTP/1.1 404 Not Found'', content_length body] body)"

subsection \<open>Redirect and static files\<close>

definition Redirect :: "string \<Rightarrow> string" where
  "Redirect target = http_text [''HTTP/1.1 302 Found'', ''Location: '' @ target, ''Content-Length: 0''] []"

definition StaticFile :: "nginx_env \<Rightarrow> string \<Rightarrow> string" where
  "StaticFile env path =
     (case ne_ReadFile env path of
        None \<Rightarrow>
          (let body = ''file not found'' in
           http_text [''HTTP/1.1 404 Not Found'', content_length body] body)
      | Some data \<Rightarrow>
          (let ext = Ext path;
               mt = ne_TypeByExtension env ext;
               mimeType = (if mt = [] then ne_DetectContentType env data else mt)
           in http_text [''HTTP/1.1 200 OK'', content_length data, ''Content-Type: '' @ mimeType] data))"

subsection \<open>Directories\<close>

definition encodeURLPathSegments :: "string \<Rightarrow> string" where
  "encodeURLPathSegments decoded0 =
     (let decoded = Clean (''/'' @ decoded0);
          segs = Split (CHR ''/'') (TrimChar (CHR ''/'') decoded)
      in if segs = [[]] then ''/''
         else ''/'' @ Join ''/'' (map PathEscape (filter (\<lambda>s. s \<noteq> []) segs)))"

definition escapeHTML :: "string \<Rightarrow> string" where
  \<open>escapeHTML s0 =
     (let s1 = ReplaceAll ''&'' ''&amp;'' s0;
          s2 = ReplaceAll ''<'' ''&lt;'' s1;
          s3 = ReplaceAll ''>'' ''&gt;'' s2;
          s4 = ReplaceAll ''"'' ''&quot;'' s3
      in ReplaceAll [CHR 0x27] ''&#39;'' s4)\<close>

text \<open>One entry of the listing: its link, and the item of the list.\<close>

definition entry_link :: "string \<Rightarrow> string \<times> bool \<Rightarrow> string" where
  "entry_link parentEnc e =
     (let link = parentEnc @ ''/'' @ PathEscape (fst e) in if snd e then link @ ''/'' else link)"

definition indent :: "nat \<Rightarrow> string" where "indent n = newline # replicate n (CHR '' '')"

definition entry_html :: "string \<Rightarrow> string \<times> bool \<Rightarrow> string" where
  \<open>entry_html parentEnc e =
     (let name = fst e;
          link = entry_link parentEnc e;
          (entryType, icon, itemClass) =
            (if snd e then (''Folder'', [CHR 0xF0, CHR 0x9F, CHR 0x93, CHR 0x81], ''entry-item folder-item'')
             else (''File'', [CHR 0xF0, CHR 0x9F, CHR 0x93, CHR 0x84], ''entry-item file-item''))
      in newline # replicate 5 (CHR 0x09) @ ''<li><a href="'' @ link @ ''" class="'' @ itemClass @ ''">''
         @ indent 20 @ ''<span class="entry-icon">'' @ icon @ ''</span>''
         @ indent 20 @ ''<span class="entry-name">'' @ escapeHTML name @ ''</span>''
         @ indent 20 @ ''<span class="entry-type">'' @ entryType @ ''</span></a></li>'')\<close>

definition entries_html :: "string \<Rightarrow> (string \<times> bool) list \<Rightarrow> string" where
  \<open>entries_html parentEnc entries =
     (if entries = [] then
        ''<div class="empty-state"><p>'' @ [CHR 0xF0, CHR 0x9F, CHR 0x93, CHR 0xAD]
          @ '' This directory is empty</p></div>''
      else ''<ul class="entries-list">'' @ concat (map (entry_html parentEnc) entries) @ ''</ul>'')\<close>

definition template_path :: string where "template_path = ''static/dirlist.html''"

definition requested_path :: "string \<Rightarrow> string \<Rightarrow> string \<Rightarrow> string" where
  "requested_path dir route decodedPath =
     (let rel = TrimPrefix decodedPath route; rel = TrimPrefix rel ''/'' in filepath_Join dir rel)"

definition parent_link :: "string \<Rightarrow> string" where
  "parent_link decodedPath =
     (let parent = (if suffix ''/'' decodedPath then decodedPath else decodedPath @ ''/'')
      in encodeURLPathSegments (TrimSuffix parent ''/''))"

text \<open>The page is the template with the two marks replaced, the breadcrumb first.\<close>

definition listing_page :: "string \<Rightarrow> (string \<times> bool) list \<Rightarrow> string \<Rightarrow> string" where
  "listing_page decodedPath entries template =
     (let breadcrumb = ''/'' @ TrimChar (CHR ''/'') decodedPath;
          html = ReplaceAll ''{{BREADCRUMB}}'' (escapeHTML breadcrumb) template
      in ReplaceAll ''{{ENTRIES}}'' (entries_html (parent_link decodedPath) entries) html)"

definition ServeDir :: "nginx_env \<Rightarrow> string \<Rightarrow> string \<Rightarrow> string \<Rightarrow> string" where
  "ServeDir env dir route requestPath =
     (case PathUnescape requestPath of
        None \<Rightarrow> write404
      | Some decodedPath \<Rightarrow>
          (let fsPath = requested_path dir route decodedPath in
           case ne_Stat env fsPath of
             None \<Rightarrow> write404
           | Some isDir \<Rightarrow>
               if \<not> isDir then StaticFile env fsPath
               else
                 (case ne_ReadDir env fsPath of
                    None \<Rightarrow>
                      (let body = ''cannot read directory'' in
                       http_text [''HTTP/1.1 500 Internal Server Erorr'', content_length body] body)
                  | Some entries \<Rightarrow>
                      (case ne_ReadFile env template_path of
                         None \<Rightarrow>
                           (let body = ''error loading template'' in
                            http_text [''HTTP/1.1 500 Internal Server Error'', content_length body] body)
                       | Some template \<Rightarrow>
                           (let html = listing_page decodedPath entries template in
                            http_text [''HTTP/1.1 200 OK'', content_length html,
                              ''Content-Type: text/html; charset=utf-8''] html)))))"

subsection \<open>Reverse proxy\<close>

text \<open>\<open>ReadString\<close> on the bytes the client still sends: a line with its newline, or an error.\<close>

definition read_line :: "string \<Rightarrow> (string \<times> string) option" where
  "read_line inp =
     (case dropWhile ((\<noteq>) newline) inp of
        [] \<Rightarrow> None
      | n # rest \<Rightarrow> Some (takeWhile ((\<noteq>) newline) inp @ [n], rest))"

lemma read_line_length: "read_line inp = Some (l, rest) \<Longrightarrow> length rest < length inp"
  using length_dropWhile_le [of "(\<noteq>) newline" inp]
  by (auto simp: read_line_def split: list.splits)

text \<open>The loop that sends the rest of the request head to the backend.\<close>

function forward_loop :: "string \<Rightarrow> string \<Rightarrow> string" where
  "forward_loop sent inp =
     (case read_line inp of
        None \<Rightarrow> sent
      | Some (line, rest) \<Rightarrow>
          if line = crlf then sent @ line else forward_loop (sent @ line) rest)"
  by pat_completeness auto
termination
  by (relation "measure (\<lambda>(sent, inp). length inp)") (auto dest: read_line_length)

declare forward_loop.simps [simp del]

definition ReverseProxy :: "nginx_env \<Rightarrow> string \<Rightarrow> string \<Rightarrow> string \<Rightarrow> string" where
  "ReverseProxy env inp target firstLine =
     (case ne_Dial env target of
        None \<Rightarrow> http_text [''HTTP/1.1 502 Bad Gateway'', ''Content-Length: 11''] ''Bad Gateway''
      | Some backend \<Rightarrow> backend (forward_loop firstLine inp))"

end
