(* ===== verification/Nginx_Server.thy ===== *)
theory Nginx_Server
  imports Nginx_Handlers
begin

text \<open>
  mini-nginx, \<open>internal/config\<close>, \<open>internal/router\<close>, \<open>internal/server\<close> and \<open>cmd/server\<close>: the
  configuration, the choice of a handler for one request, and the loop that serves connections. The
  router visits the map of routes in an order that Go does not fix; the order is an argument.
\<close>

subsection \<open>Configuration\<close>

record Route =
  rt_Type :: string
  rt_Target :: string

record NginxConfig =
  cf_ListenOn :: int
  cf_Paths :: "string \<rightharpoonup> Route"

datatype 'y load_error = ReadFailed | BadYaml 'y

text \<open>\<open>Load\<close>: the YAML parser is a library and a parameter; it says what the data decode to.\<close>

definition nginx_Load ::
  "(string \<Rightarrow> string option) \<Rightarrow> (string \<Rightarrow> 'y + NginxConfig) \<Rightarrow> string \<Rightarrow> 'y load_error + NginxConfig" where
  "nginx_Load ReadFile Unmarshal path =
     (case ReadFile path of
        None \<Rightarrow> Inl ReadFailed
      | Some data \<Rightarrow> (case Unmarshal data of Inl e \<Rightarrow> Inl (BadYaml e) | Inr cfg \<Rightarrow> Inr cfg))"

subsection \<open>Router\<close>

text \<open>The loop over the routes returns at the first one that is a prefix of the path.\<close>

fun route_loop :: "string \<Rightarrow> (string \<times> Route) list \<Rightarrow> (string \<times> Route) option" where
  "route_loop reqPath [] = None"
| "route_loop reqPath ((route, rule) # es) =
     (if prefix route reqPath then Some (route, rule) else route_loop reqPath es)"

text \<open>The router has its own copy of the 404 page.\<close>

definition router_write404 :: string where
  "router_write404 =
     (let body = ''404 not found'' in
      http_text [''HTTP/1.1 404 Not Found'', content_length body] body)"

lemma router_write404 [simp]: "router_write404 = write404"
  by (simp add: router_write404_def write404_def)

text \<open>What is written for the route that was chosen: \<open>line\<close> is the request line, \<open>rest\<close> what follows.\<close>

definition respond ::
  "nginx_env \<Rightarrow> string \<Rightarrow> string \<Rightarrow> string \<Rightarrow> (string \<times> Route) option \<Rightarrow> string" where
  "respond env line rest reqPath choice =
     (case choice of
        None \<Rightarrow> router_write404
      | Some (route, rule) \<Rightarrow>
          if rt_Type rule = ''redirect'' then Redirect (rt_Target rule)
          else if rt_Type rule = ''staticfile'' then StaticFile env (rt_Target rule)
          else if rt_Type rule = ''servedir'' then ServeDir env (rt_Target rule) route reqPath
          else if rt_Type rule = ''reverseproxy'' then ReverseProxy env rest (rt_Target rule) line
          else router_write404)"

definition outcome_text :: "nginx_env \<Rightarrow> (string \<times> Route) option \<Rightarrow> string" where
  "outcome_text env choice =
     (case choice of
        None \<Rightarrow> ''handler=none status=404''
      | Some (route, rule) \<Rightarrow> ''handler='' @ rt_Type rule @ '' route='' @ ne_quote env route)"

text \<open>The request line: method and path, when it has both.\<close>

definition request_line :: "string \<Rightarrow> (string \<times> string) option" where
  "request_line line =
     (case SplitN (CHR '' '') 3 (TrimSpace line) of meth # path # _ \<Rightarrow> Some (meth, path) | _ \<Rightarrow> None)"

text \<open>A connection: the bytes the peer sends before it stops, and what was written to it.\<close>

record conn =
  cn_remote :: string
  cn_input :: string
  cn_output :: string
  cn_closed :: bool

definition Handle ::
  "nginx_env \<Rightarrow> (string \<times> Route) list \<Rightarrow> conn \<Rightarrow> nginx_log \<Rightarrow> conn \<times> nginx_log" where
  "Handle env es c l =
     (case read_line (cn_input c) of
        None \<Rightarrow> (c, l)
      | Some (line, rest) \<Rightarrow>
          (case request_line line of
             None \<Rightarrow> (c, l)
           | Some (meth, reqPath) \<Rightarrow>
               let choice = route_loop reqPath es in
               (c\<lparr>cn_output := cn_output c @ respond env line rest reqPath choice\<rparr>,
                log_Access (ne_lower env) (cn_remote c) meth reqPath (outcome_text env choice) l)))"

subsection \<open>Server\<close>

record Server = sv_cfg :: NginxConfig

definition server_New :: "NginxConfig \<Rightarrow> Server" where
  "server_New cfg = \<lparr>sv_cfg = cfg\<rparr>"

definition server_handle ::
  "nginx_env \<Rightarrow> (string \<times> Route) list \<Rightarrow> conn \<Rightarrow> nginx_log \<Rightarrow> conn \<times> nginx_log" where
  "server_handle env es c l = (let (c', l') = Handle env es c l in (c'\<lparr>cn_closed := True\<rparr>, l'))"

text \<open>
  The accept loop on the answers of \<open>Accept\<close> so far, each an error or a connection with the order in
  which its goroutine will see the routes. A goroutine touches its own connection and the log only;
  here it runs when it is started, so the log has its lines in the order of the connections.
\<close>

fun accept_loop ::
  "nginx_env \<Rightarrow> (conn \<times> (string \<times> Route) list) option list \<Rightarrow> nginx_log \<Rightarrow> conn list \<times> nginx_log" where
  "accept_loop env [] l = ([], l)"
| "accept_loop env (None # as') l = accept_loop env as' l"
| "accept_loop env (Some (c, es) # as') l =
     (let l1 = log_Debug ''connection'' [''remote'', cn_remote c] l;
          (c', l2) = server_handle env es c l1;
          (cs, l3) = accept_loop env as' l2
      in (c' # cs, l3))"

definition Start ::
  "nginx_env \<Rightarrow> bool \<Rightarrow> Server \<Rightarrow> (conn \<times> (string \<times> Route) list) option list \<Rightarrow> nginx_log
     \<Rightarrow> (conn list \<times> nginx_log) option" where
  "Start env can_listen s answers l = (if \<not> can_listen then None else Some (accept_loop env answers l))"

datatype nginx_run = Fatal | Paniced | Serving "conn list" nginx_log

definition nginx_main ::
  "nginx_env \<Rightarrow> (string \<Rightarrow> 'y + NginxConfig) \<Rightarrow> bool \<Rightarrow> string \<Rightarrow> (NginxConfig \<Rightarrow> bool)
     \<Rightarrow> (conn \<times> (string \<times> Route) list) option list \<Rightarrow> nginx_run" where
  "nginx_main env Unmarshal can_open level can_listen answers =
     (case nginx_Load (ne_ReadFile env) Unmarshal ''config.yml'' of
        Inl e \<Rightarrow> Fatal
      | Inr cfg \<Rightarrow>
          (case logger_Init (ne_lower env) can_open level no_log of
             Panic p \<Rightarrow> Paniced
           | Ret l \<Rightarrow>
               let s = server_New cfg;
                   l1 = log_Info ''Server Starting'' [''port'', FormatInt (cf_ListenOn cfg)] l
               in (case Start env (can_listen cfg) s answers l1 of
                     None \<Rightarrow> Fatal
                   | Some (cs, l2) \<Rightarrow> Serving cs l2)))"

subsection \<open>The choice of a route\<close>

lemma route_loop_Some:
  "route_loop p es = Some (r, rule) \<Longrightarrow> (r, rule) \<in> set es \<and> prefix r p"
  by (induction p es rule: route_loop.induct) (auto split: if_splits)

lemma route_loop_None: "route_loop p es = None \<longleftrightarrow> (\<forall>(r, rule) \<in> set es. \<not> prefix r p)"
  by (induction p es rule: route_loop.induct) auto

definition matching :: "(string \<rightharpoonup> Route) \<Rightarrow> string \<Rightarrow> (string \<times> Route) set" where
  "matching m p = {(r, rule). m r = Some rule \<and> prefix r p}"

lemma route_choices:
  assumes "finite (dom m)"
  shows "{route_loop p es |es. is_iteration m es}
    = (if matching m p = {} then {None} else Some ` matching m p)"
proof -
  have sound: "c = None \<and> matching m p = {} \<or> c \<in> Some ` matching m p"
    if it: "is_iteration m es" and c: "c = route_loop p es" for es c
  proof (cases c)
    case None
    then have "\<forall>(r, rule) \<in> set es. \<not> prefix r p" using c route_loop_None by metis
    then have "matching m p = {}" using it by (auto simp: matching_def is_iteration_set)
    with None show ?thesis by simp
  next
    case (Some x)
    obtain r rule where x: "x = (r, rule)" by (cases x)
    with Some c route_loop_Some [of p es r rule] show ?thesis
      using is_iteration_mem [OF it] by (auto simp: matching_def)
  qed
  have complete: "\<exists>es. is_iteration m es \<and> Some x = route_loop p es" if "x \<in> matching m p" for x
  proof -
    obtain r rule where x: "x = (r, rule)" "m r = Some rule" "prefix r p"
      using \<open>x \<in> matching m p\<close> by (auto simp: matching_def)
    obtain es where es: "is_iteration m es" using iteration_exists [OF assms] by blast
    obtain es' where "is_iteration m ((r, rule) # es')" using iteration_first [OF es x(2)] by blast
    moreover have "route_loop p ((r, rule) # es') = Some x" using x by simp
    ultimately show ?thesis by metis
  qed
  obtain es0 where es0: "is_iteration m es0" using iteration_exists [OF assms] by blast
  show ?thesis
  proof (cases "matching m p = {}")
    case True
    have none: "route_loop p es = None" if "is_iteration m es" for es
      using sound [OF that refl] True by auto
    have "{route_loop p es |es. is_iteration m es} = {None}"
    proof
      show "{route_loop p es |es. is_iteration m es} \<subseteq> {None}" using none by auto
      show "{None} \<subseteq> {route_loop p es |es. is_iteration m es}" using none [OF es0] es0 by force
    qed
    with True show ?thesis by simp
  next
    case False
    have "{route_loop p es |es. is_iteration m es} = Some ` matching m p"
    proof
      show "{route_loop p es |es. is_iteration m es} \<subseteq> Some ` matching m p"
        using sound False by blast
      show "Some ` matching m p \<subseteq> {route_loop p es |es. is_iteration m es}"
        using complete by blast
    qed
    with False show ?thesis by simp
  qed
qed

end
