(* ===== verification/Nginx_Paths.thy ===== *)
theory Nginx_Paths
  imports Nginx_Server
begin

text \<open>
  Lemmas on the responses of mini-nginx: a reader of response heads, the file a request to a served
  directory names, and the links of a listing.
\<close>

subsection \<open>Reading a response\<close>

text \<open>The text up to the first CR LF, and what follows it.\<close>

fun cut_line :: "string \<Rightarrow> (string \<times> string) option" where
  "cut_line (a # b # s) =
     (if a = CHR 0x0D \<and> b = CHR 0x0A then Some ([], s) else map_option (apfst ((#) a)) (cut_line (b # s)))"
| "cut_line _ = None"

lemma cut_line_length: "cut_line s = Some (l, rest) \<Longrightarrow> length rest < length s"
proof (induction s arbitrary: l rule: cut_line.induct)
  case (1 a b s)
  show ?case
  proof (cases "a = CHR 0x0D \<and> b = CHR 0x0A")
    case False
    then obtain l' where "cut_line (b # s) = Some (l', rest)" using "1.prems" by auto
    with "1.IH" [OF False] show ?thesis by fastforce
  qed (use "1.prems" in simp)
qed simp_all

text \<open>A client reads the lines of the head up to the empty line; the rest is the body.\<close>

function read_head :: "string \<Rightarrow> (string list \<times> string) option" where
  "read_head s =
     (case cut_line s of
        None \<Rightarrow> None
      | Some (l, rest) \<Rightarrow> if l = [] then Some ([], rest) else map_option (apfst ((#) l)) (read_head rest))"
  by pat_completeness auto
termination
  by (relation "measure length") (auto dest: cut_line_length)

declare read_head.simps [simp del]

definition declared_lengths :: "string list \<Rightarrow> nat option list" where
  "declared_lengths ls =
     map (\<lambda>l. parse_digits 0 (drop 16 l)) (filter (prefix ''Content-Length: '') ls)"

text \<open>A status line, one length, and a body of exactly this length.\<close>

definition well_framed :: "string \<Rightarrow> bool" where
  "well_framed resp \<longleftrightarrow>
     (case read_head resp of
        None \<Rightarrow> False
      | Some (ls, body) \<Rightarrow>
          ls \<noteq> [] \<and> prefix ''HTTP/1.1 '' (hd ls) \<and> declared_lengths ls = [Some (length body)])"

definition head_line :: "string \<Rightarrow> bool" where
  "head_line l \<longleftrightarrow> l \<noteq> [] \<and> CHR 0x0D \<notin> set l"

lemma cut_line_head: "CHR 0x0D \<notin> set l \<Longrightarrow> cut_line (l @ crlf @ s) = Some (l, s)"
proof (induction l)
  case (Cons a l)
  then show ?case by (cases l) (auto simp: crlf_def)
qed (simp add: crlf_def)

lemma read_http_text: "list_all head_line ls \<Longrightarrow> read_head (http_text ls body) = Some (ls, body)"
proof (induction ls)
  case Nil
  have "cut_line ([] @ crlf @ body) = Some ([], body)" by (rule cut_line_head) simp
  then show ?case by (simp add: read_head.simps [of "crlf @ body"] http_text_def)
next
  case (Cons l ls)
  have eq: "http_text (l # ls) body = l @ crlf @ http_text ls body" by (simp add: http_text_def)
  have "cut_line (http_text (l # ls) body) = Some (l, http_text ls body)"
    unfolding eq using Cons.prems by (intro cut_line_head) (simp add: head_line_def)
  with Cons show ?case
    by (simp add: read_head.simps [of "http_text (l # ls) body"] head_line_def)
qed

definition plain_line :: "string \<Rightarrow> bool" where
  "plain_line l \<longleftrightarrow> head_line l \<and> \<not> prefix ''Content-Length: '' l"

lemma declared_content_length:
  assumes "list_all plain_line ls" "list_all plain_line ls'"
  shows "declared_lengths (ls @ content_length body # ls') = [Some (length body)]"
proof -
  have "filter (prefix ''Content-Length: '') xs = []" if "list_all plain_line xs" for xs
    using that by (induction xs) (simp_all add: plain_line_def)
  with assms show ?thesis
    by (simp add: declared_lengths_def content_length_def FormatInt_def parse_digits_digits)
qed

lemma head_line_content_length: "head_line (content_length body)"
proof -
  have "CHR 0x0D \<notin> set (digits (length body))"
  proof
    assume "CHR 0x0D \<in> set (digits (length body))"
    then obtain d where d: "d < 10" "CHR 0x0D = digit d" using digits_decimal by blast
    have "digit_value (CHR 0x0D) = Some d" unfolding d(2) using d(1) by simp
    then show False by (simp add: digit_value_def)
  qed
  then show ?thesis by (simp add: head_line_def content_length_def FormatInt_def)
qed

lemma well_framed_http_text:
  assumes "prefix ''HTTP/1.1 '' status" "list_all plain_line (status # ls)" "list_all plain_line ls'"
  shows "well_framed (http_text (status # ls @ content_length body # ls') body)"
proof -
  have "list_all head_line (status # ls @ content_length body # ls')"
    using assms(2,3) head_line_content_length by (auto simp: plain_line_def list_all_iff)
  then have "read_head (http_text (status # ls @ content_length body # ls') body)
      = Some (status # ls @ content_length body # ls', body)"
    by (rule read_http_text)
  moreover have "declared_lengths (status # ls @ content_length body # ls') = [Some (length body)]"
    using declared_content_length [OF assms(2,3)] by simp
  ultimately show ?thesis using assms(1) by (simp add: well_framed_def)
qed

lemmas well_framed_short = well_framed_http_text [of _ "[]" "[]", simplified]

lemmas framed_simps = plain_line_def head_line_def

subsection \<open>The file a request names\<close>

text \<open>The elements of a relative path that mean something, and a path below a directory.\<close>

definition path_names :: "string \<Rightarrow> string list" where
  "path_names p = filter (\<lambda>e. e \<noteq> [] \<and> e \<noteq> ''.'') (Split (CHR ''/'') p)"

definition below_dir :: "string \<Rightarrow> string list \<Rightarrow> string" where
  "below_dir dir es = render_path (rooted dir) (elements dir @ es)"

lemma path_names_slash: "path_names (a @ ''/'' @ b) = path_names a @ path_names b"
  using Split_append [of "CHR ''/''" a b] by (simp add: path_names_def)

lemma path_names_Nil [simp]: "path_names [] = []"
  by (simp add: path_names_def)

lemma path_names_leading: "path_names (''/'' @ b) = path_names b"
  using path_names_slash [of "[]" b] by simp

lemma path_names_trim: "path_names (TrimPrefix p ''/'') = path_names p"
proof (cases "prefix ''/'' p")
  case True
  then obtain q where "p = ''/'' @ q" by (auto simp: prefix_def)
  then show ?thesis using path_names_leading [of q] by (simp add: TrimPrefix_def)
qed (simp add: TrimPrefix_def)

lemma path_names_mem: "e \<in> set (path_names p) \<longleftrightarrow> e \<in> set (Split (CHR ''/'') p) \<and> e \<noteq> [] \<and> e \<noteq> ''.''"
  by (auto simp: path_names_def)

lemma path_names_proper:
  "''..'' \<notin> set (path_names p) \<Longrightarrow> list_all proper_name (path_names p)"
  by (auto simp: list_all_iff proper_name_def path_names_mem dest: Split_pieces)

lemma path_names_name: "proper_name e \<Longrightarrow> path_names e = [e]"
  by (simp add: path_names_def proper_name_def Split_no_sep)

lemma requested_path_below:
  assumes "dir \<noteq> []" "''..'' \<notin> set (path_names (TrimPrefix d route))"
  shows "requested_path dir route d = below_dir dir (path_names (TrimPrefix d route))"
proof -
  let ?rel = "TrimPrefix (TrimPrefix d route) ''/''"
  have n: "path_names ?rel = path_names (TrimPrefix d route)" by (rule path_names_trim)
  have "\<forall>e \<in> set (Split (CHR ''/'') ?rel). e \<noteq> ''..''"
    using assms(2) unfolding n [symmetric] path_names_mem by force
  from elements_append [OF assms(1) this] show ?thesis
    using assms(1) unfolding requested_path_def below_dir_def filepath_Join_def Clean_def n [symmetric]
    by (simp add: path_names_def Let_def)
qed

subsection \<open>Links of a listing\<close>

lemma ReplaceAll_markup:
  assumes "c \<notin> set s" "c \<notin> set new"
  shows "c \<notin> set (ReplaceAll [x] new s)"
  using assms by (auto simp: ReplaceAll_char split: if_splits)

lemma ReplaceAll_gone: "x \<notin> set new \<Longrightarrow> x \<notin> set (ReplaceAll [x] new s)"
  by (auto simp: ReplaceAll_char split: if_splits)

definition markup :: "char set" where
  \<open>markup = {CHR ''<'', CHR ''>'', CHR ''"'', CHR 0x27}\<close>

lemma escapeHTML_no_markup: "c \<in> markup \<Longrightarrow> c \<notin> set (escapeHTML s)"
  unfolding markup_def escapeHTML_def Let_def
  by (elim insertE emptyE; simp only:; (rule ReplaceAll_markup ReplaceAll_gone | simp)+)

lemma Join_proper:
  assumes "es \<noteq> []" "list_all proper_name es"
  shows "Join ''/'' es \<noteq> []" "hd (Join ''/'' es) \<noteq> CHR ''/''" "last (Join ''/'' es) \<noteq> CHR ''/''"
proof -
  have "Join ''/'' es \<noteq> [] \<and> hd (Join ''/'' es) \<noteq> CHR ''/'' \<and> last (Join ''/'' es) \<noteq> CHR ''/''"
    using assms
  proof (induction es rule: induct_list012)
    case (2 w)
    then have w: "w \<noteq> []" "CHR ''/'' \<notin> set w" by (simp_all add: proper_name_def)
    moreover from this have "hd w \<in> set w" "last w \<in> set w" by simp_all
    ultimately show ?case by (metis Join.simps(2))
  next
    case (3 w v ws)
    then show ?case by (cases w) (auto simp: proper_name_def)
  qed simp
  then show "Join ''/'' es \<noteq> []" "hd (Join ''/'' es) \<noteq> CHR ''/''" "last (Join ''/'' es) \<noteq> CHR ''/''"
    by simp_all
qed

lemma Split_Join_proper: "es \<noteq> [] \<Longrightarrow> list_all proper_name es \<Longrightarrow> Split (CHR ''/'') (Join ''/'' es) = es"
  by (rule Split_Join) (auto simp: list_all_iff proper_name_def)

lemma TrimChar_inner: "s \<noteq> [] \<Longrightarrow> hd s \<noteq> c \<Longrightarrow> last s \<noteq> c \<Longrightarrow> TrimChar c (c # s) = s"
proof -
  assume s: "s \<noteq> []" "hd s \<noteq> c" "last s \<noteq> c"
  have "dropWhile ((=) c) xs = xs" if "xs \<noteq> []" "hd xs \<noteq> c" for xs
    using that by (cases xs) auto
  from this [of s] this [of "rev s"] s show ?thesis by (simp add: TrimChar_def hd_rev)
qed

lemma Clean_proper:
  assumes "es \<noteq> []" "list_all proper_name es"
  shows "Clean (''/'' @ ''/'' @ Join ''/'' es) = ''/'' @ Join ''/'' es"
proof -
  have keep: "filter (\<lambda>e. e \<noteq> [] \<and> e \<noteq> ''.'') es = es"
    using assms(2) by (induction es) (simp_all add: proper_name_def)
  have plain: "\<forall>e \<in> set es. e \<noteq> ''..''" using assms(2) by (auto simp: list_all_iff proper_name_def)
  have "elements (''/'' @ ''/'' @ Join ''/'' es) = es"
    using Split_Join_proper [OF assms] foldl_clean_plain [OF plain, of True "[]"] keep
    by (simp add: elements_def rooted_def)
  then show ?thesis by (simp add: Clean_def render_path_def rooted_def)
qed

lemma encode_proper:
  assumes "es \<noteq> []" "list_all proper_name es"
  shows "encodeURLPathSegments (''/'' @ Join ''/'' es) = ''/'' @ Join ''/'' (map PathEscape es)"
proof -
  have trim: "TrimChar (CHR ''/'') (''/'' @ Join ''/'' es) = Join ''/'' es"
    using TrimChar_inner [OF Join_proper [OF assms]] by simp
  have "filter (\<lambda>s. s \<noteq> []) es = es" "es \<noteq> [[]]"
    using assms(2) by (induction es) (simp_all add: proper_name_def)
  then show ?thesis
    using Clean_proper [OF assms] trim Split_Join_proper [OF assms]
    by (simp add: encodeURLPathSegments_def Let_def)
qed

text \<open>A request for a directory, with or without the slash at its end.\<close>

definition dir_request :: "string list \<Rightarrow> bool \<Rightarrow> string" where
  "dir_request es slash = ''/'' @ Join ''/'' es @ (if slash then ''/'' else [])"

lemma parent_link_proper:
  assumes "es \<noteq> []" "list_all proper_name es"
  shows "parent_link (dir_request es slash) = ''/'' @ Join ''/'' (map PathEscape es)"
proof -
  have "\<not> suffix ''/'' (''/'' @ Join ''/'' es)"
  proof
    assume "suffix ''/'' (''/'' @ Join ''/'' es)"
    then have "last (''/'' @ Join ''/'' es) = CHR ''/''" unfolding suffix_def by (metis last_snoc)
    then show False using Join_proper [OF assms] by simp
  qed
  then show ?thesis
    using encode_proper [OF assms]
    by (simp add: parent_link_def dir_request_def TrimSuffix_def Let_def suffix_def)
qed

lemma PathUnescape_Join:
  "PathUnescape (Join ''/'' (map PathEscape es) @ t) = map_option ((@) (Join ''/'' es)) (PathUnescape t)"
proof (induction es rule: induct_list012)
  case 1
  then show ?case by (simp add: option.map_ident)
next
  case (2 w)
  then show ?case by (simp add: PathUnescape_escape)
next
  case (3 w v ws)
  have "PathUnescape (PathEscape w @ ''/'' @ Join ''/'' (map PathEscape (v # ws)) @ t)
      = map_option ((@) w) (map_option ((#) (CHR ''/'')) (map_option ((@) (Join ''/'' (v # ws))) (PathUnescape t)))"
    using 3 by (simp add: PathUnescape_escape)
  then show ?case by (simp add: option.map_comp comp_def)
qed

definition entry_request :: "string list \<Rightarrow> string \<times> bool \<Rightarrow> string" where
  "entry_request es e = ''/'' @ Join ''/'' es @ ''/'' @ fst e @ (if snd e then ''/'' else [])"

lemma PathUnescape_link:
  assumes "es \<noteq> []" "list_all proper_name es"
  shows "PathUnescape (entry_link (parent_link (dir_request es slash)) e) = Some (entry_request es e)"
proof -
  have tail: "PathUnescape (''/'' @ PathEscape n @ (if b then ''/'' else []))
      = Some (''/'' @ n @ (if b then ''/'' else []))" for n b
    using PathUnescape_escape [of n "if b then ''/'' else []"] by simp
  have "PathUnescape (''/'' @ Join ''/'' (map PathEscape es) @ ''/'' @ PathEscape (fst e)
      @ (if snd e then ''/'' else [])) = Some (entry_request es e)"
    using PathUnescape_Join [of es "''/'' @ PathEscape (fst e) @ (if snd e then ''/'' else [])"]
      tail [of "fst e" "snd e"]
    by (simp add: entry_request_def)
  then show ?thesis
    unfolding parent_link_proper [OF assms] entry_link_def Let_def by (cases "snd e") simp_all
qed

text \<open>The link names the entry below the directory that was listed.\<close>

lemma TrimPrefix_append: "prefix p s \<Longrightarrow> TrimPrefix (s @ t) p = TrimPrefix s p @ t"
  by (auto simp: TrimPrefix_def prefix_def)

lemma entry_path_names:
  assumes "proper_name (fst e)" "prefix route (dir_request es slash)"
  shows "path_names (TrimPrefix (entry_request es e) route)
    = path_names (TrimPrefix (dir_request es slash) route) @ [fst e]"
proof -
  let ?tail = "if snd e then ''/'' else []" and ?r = "TrimPrefix (dir_request es slash) route"
  have last_name: "path_names (fst e @ ?tail) = [fst e]"
    using path_names_name [OF assms(1)] path_names_slash [of "fst e" "[]"] by simp
  have slash_name: "path_names (x @ ''/'' @ fst e @ ?tail) = path_names x @ [fst e]" for x
    using path_names_slash [of x "fst e @ ?tail"] last_name by simp
  show ?thesis
  proof (cases slash)
    case False
    then have "entry_request es e = dir_request es slash @ ''/'' @ fst e @ ?tail"
      by (simp add: entry_request_def dir_request_def)
    then show ?thesis
      using TrimPrefix_append [OF assms(2)] slash_name [of ?r] by simp
  next
    case True
    then have eq: "entry_request es e = dir_request es slash @ fst e @ ?tail"
      by (simp add: entry_request_def dir_request_def)
    have "path_names (?r @ fst e @ ?tail) = path_names ?r @ [fst e]"
    proof (cases ?r rule: rev_cases)
      case Nil
      then show ?thesis using last_name by simp
    next
      case (snoc x c)
      have "suffix ?r (dir_request es slash)" using assms(2) by (auto simp: TrimPrefix_def suffix_drop)
      then have "last (dir_request es slash) = c" using snoc by (auto simp: suffix_def)
      then have "?r = x @ ''/''" using snoc True by (simp add: dir_request_def)
      then show ?thesis using slash_name [of x] path_names_slash [of x "[]"] by simp
    qed
    then show ?thesis unfolding eq using TrimPrefix_append [OF assms(2)] by simp
  qed
qed

end
