(* ===== verification/Nginx_Properties.thy ===== *)
theory Nginx_Properties
  imports Nginx_Paths
begin

text \<open>
  The properties of mini-nginx: which routes may answer, that every answer is framed, which files a
  request to a served directory can name, and where the links of a listing lead.
\<close>

subsection \<open>An example server\<close>

text \<open>A machine with four files below \<open>static\<close> and the configuration file above it, for the witnesses.\<close>

definition demo_files :: "string \<rightharpoonup> string" where
  "demo_files = [''config.yml'' \<mapsto> ''listen-on: 8080'', ''static/a.txt'' \<mapsto> ''hello'',
     template_path \<mapsto> ''<b>{{BREADCRUMB}}</b>{{ENTRIES}}'']"

definition demo_env :: nginx_env where
  "demo_env = \<lparr>ne_ReadFile = demo_files,
     ne_Stat = (\<lambda>p. if p = ''static'' then Some True else map_option (\<lambda>_. False) (demo_files p)),
     ne_ReadDir = (\<lambda>p. if p = ''static'' then Some [(''a.txt'', False), (''sub'', True)] else None),
     ne_TypeByExtension = (\<lambda>e. if e = ''.txt'' then ''text/plain'' else []),
     ne_DetectContentType = (\<lambda>d. ''application/octet-stream''),
     ne_Dial = (\<lambda>t. None), ne_quote = (\<lambda>s. s), ne_lower = (\<lambda>r. r)\<rparr>"

definition demo_paths :: "string \<rightharpoonup> Route" where
  "demo_paths = [''/go'' \<mapsto> \<lparr>rt_Type = ''redirect'', rt_Target = ''A''\<rparr>,
     ''/go-on'' \<mapsto> \<lparr>rt_Type = ''redirect'', rt_Target = ''B''\<rparr>]"

definition request_to :: "string \<Rightarrow> conn" where
  "request_to p = \<lparr>cn_remote = ''peer'', cn_input = ''GET '' @ p @ '' HTTP/1.1'' @ crlf @ crlf,
     cn_output = [], cn_closed = False\<rparr>"

lemmas request_run = read_line_def request_line_def newline_def crlf_def request_to_def
  TrimSpace_def numeral_3_eq_3

subsection \<open>Which route answers\<close>

text \<open>C34. Over all the orders in which Go may visit the routes, the possible answers to a request are
  exactly the answers of the routes that are a prefix of its path, and the 404 page when there is none.
  So the answer is determined when at most one route matches, and otherwise is left to the run time:
  the longest prefix is not preferred.\<close>

theorem any_matching_route_answers:
  assumes "finite (dom m)" "read_line (cn_input c) = Some (line, rest)"
    "request_line line = Some (meth, p)"
  shows "{cn_output (fst (Handle env es c l)) |es. is_iteration m es}
    = (if matching m p = {} then {cn_output c @ write404}
       else (\<lambda>x. cn_output c @ respond env line rest p (Some x)) ` matching m p)"
proof -
  have out: "cn_output (fst (Handle env es c l)) = cn_output c @ respond env line rest p (route_loop p es)"
    for es
    using assms(2,3) by (simp add: Handle_def Let_def)
  have "{cn_output (fst (Handle env es c l)) |es. is_iteration m es}
      = (\<lambda>ch. cn_output c @ respond env line rest p ch) ` {route_loop p es |es. is_iteration m es}"
    unfolding out by auto
  also have "\<dots> = (\<lambda>ch. cn_output c @ respond env line rest p ch) `
      (if matching m p = {} then {None} else Some ` matching m p)"
    unfolding route_choices [OF assms(1)] by (rule refl)
  finally show ?thesis by (simp add: image_image respond_def)
qed

theorem any_matching_route_answers_witness:
  "{cn_output (fst (Handle demo_env es (request_to ''/go-on'') no_log)) |es. is_iteration demo_paths es}
     = {Redirect ''A'', Redirect ''B''}"
proof -
  have m: "matching demo_paths ''/go-on''
      = {(''/go'', \<lparr>rt_Type = ''redirect'', rt_Target = ''A''\<rparr>),
         (''/go-on'', \<lparr>rt_Type = ''redirect'', rt_Target = ''B''\<rparr>)}"
    by (auto simp: matching_def demo_paths_def split: if_splits)
  have r: "read_line (cn_input (request_to ''/go-on''))
      = Some (''GET /go-on HTTP/1.1'' @ crlf, crlf)"
    by (simp add: request_run)
  have q: "request_line (''GET /go-on HTTP/1.1'' @ crlf) = Some (''GET'', ''/go-on'')"
    by (simp add: request_run trim_left.simps leading_def space_encodings_def)
  have o0: "cn_output (request_to p) = []" for p by (simp add: request_to_def)
  have "finite (dom demo_paths)" by (simp add: demo_paths_def)
  from any_matching_route_answers [OF this r q, of demo_env no_log] show ?thesis
    by (simp add: m o0 respond_def)
qed

subsection \<open>Framing\<close>

lemma StaticFile_framed:
  assumes "\<And>e. CHR 0x0D \<notin> set (ne_TypeByExtension env e)" "\<And>d. CHR 0x0D \<notin> set (ne_DetectContentType env d)"
  shows "well_framed (StaticFile env p)"
proof (cases "ne_ReadFile env p")
  case None
  then show ?thesis
    by (simp add: StaticFile_def Let_def) (rule well_framed_short; simp add: framed_simps)
next
  case (Some data)
  define mt where "mt = (if ne_TypeByExtension env (Ext p) = [] then ne_DetectContentType env data
    else ne_TypeByExtension env (Ext p))"
  have "CHR 0x0D \<notin> set mt" using assms by (simp add: mt_def)
  then have "well_framed (http_text (''HTTP/1.1 200 OK'' # [] @ content_length data # [''Content-Type: '' @ mt]) data)"
    by (intro well_framed_http_text) (simp_all add: framed_simps)
  with Some show ?thesis by (simp add: StaticFile_def Let_def mt_def)
qed

lemma write404_framed: "well_framed write404"
  unfolding write404_def Let_def by (rule well_framed_short) (simp_all add: framed_simps)

lemma Redirect_framed: "CHR 0x0D \<notin> set target \<Longrightarrow> well_framed (Redirect target)"
  using well_framed_http_text [of "''HTTP/1.1 302 Found''" "[''Location: '' @ target]" "[]" "[]"]
  by (simp add: Redirect_def framed_simps content_length_def FormatInt_def digits.simps)

lemma ServeDir_framed:
  assumes "\<And>e. CHR 0x0D \<notin> set (ne_TypeByExtension env e)" "\<And>d. CHR 0x0D \<notin> set (ne_DetectContentType env d)"
  shows "well_framed (ServeDir env dir route p)"
proof -
  have page: "well_framed (http_text (''HTTP/1.1 200 OK'' # [] @ content_length html
      # [''Content-Type: text/html; charset=utf-8'']) html)" for html
    by (rule well_framed_http_text) (simp_all add: framed_simps)
  have err: "well_framed (http_text [''HTTP/1.1 500 Internal Server Error'', content_length body] body)"
    "well_framed (http_text [''HTTP/1.1 500 Internal Server Erorr'', content_length body] body)" for body
    by (rule well_framed_short; simp add: framed_simps)+
  show ?thesis
    using page err StaticFile_framed [OF assms] write404_framed
    by (simp add: ServeDir_def Let_def split: option.split)
qed

text \<open>C35. Every connection that brings a request line with a method and a path gets one response, with a
  status line, one \<open>Content-Length\<close> and a body of exactly that length, and any other connection is
  closed without an answer. The redirect targets of the configuration and the media types must be free
  of carriage returns, and a proxied answer is the backend's own, so proxies count only when the
  backend cannot be reached.\<close>

theorem responses_are_framed:
  assumes "cn_output c = []"
    and "list_all (\<lambda>(r, rule). (rt_Type rule = ''redirect'' \<longrightarrow> CHR 0x0D \<notin> set (rt_Target rule))
      \<and> (rt_Type rule = ''reverseproxy'' \<longrightarrow> ne_Dial env (rt_Target rule) = None)) es"
    and "\<And>e. CHR 0x0D \<notin> set (ne_TypeByExtension env e)" "\<And>d. CHR 0x0D \<notin> set (ne_DetectContentType env d)"
  shows "let out = cn_output (fst (server_handle env es c l)) in
    cn_closed (fst (server_handle env es c l)) \<and>
    (case read_line (cn_input c) of
       Some (line, rest) \<Rightarrow> (if request_line line = None then out = [] else well_framed out)
     | None \<Rightarrow> out = [])"
proof -
  have framed: "well_framed (respond env line rest p (route_loop p es))" for line rest p
  proof (cases "route_loop p es")
    case None
    then show ?thesis by (simp add: respond_def write404_framed)
  next
    case (Some x)
    obtain r rule where x: "x = (r, rule)" by (cases x)
    then have "(r, rule) \<in> set es" using Some route_loop_Some by blast
    then have rule: "rt_Type rule = ''redirect'' \<longrightarrow> CHR 0x0D \<notin> set (rt_Target rule)"
      "rt_Type rule = ''reverseproxy'' \<longrightarrow> ne_Dial env (rt_Target rule) = None"
      using assms(2) by (auto simp: list_all_iff)
    have bad: "well_framed (http_text [''HTTP/1.1 502 Bad Gateway'', ''Content-Length: 11''] ''Bad Gateway'')"
      using well_framed_short [of "''HTTP/1.1 502 Bad Gateway''" "''Bad Gateway''"]
      by (simp add: framed_simps content_length_def FormatInt_def digits.simps)
    show ?thesis
      using rule StaticFile_framed [OF assms(3,4)] ServeDir_framed [OF assms(3,4)] Redirect_framed
        write404_framed bad
      by (simp add: Some x respond_def ReverseProxy_def)
  qed
  show ?thesis
    using framed assms(1)
    by (simp add: server_handle_def Handle_def Let_def case_prod_beta split: option.split)
qed

theorem responses_are_framed_witness:
  "cn_closed (fst (server_handle demo_env [(''/go'', \<lparr>rt_Type = ''redirect'', rt_Target = ''A''\<rparr>)]
      (request_to ''/go-on'') no_log))
   \<and> well_framed (cn_output (fst (server_handle demo_env
      [(''/go'', \<lparr>rt_Type = ''redirect'', rt_Target = ''A''\<rparr>)] (request_to ''/go-on'') no_log)))"
proof -
  have r: "read_line (cn_input (request_to ''/go-on'')) = Some (''GET /go-on HTTP/1.1'' @ crlf, crlf)"
    by (simp add: request_run)
  have q: "request_line (''GET /go-on HTTP/1.1'' @ crlf) = Some (''GET'', ''/go-on'')"
    by (simp add: request_run trim_left.simps leading_def space_encodings_def)
  have "cn_output (request_to ''/go-on'') = []" by (simp add: request_to_def)
  from responses_are_framed [OF this, of demo_env "[(''/go'', \<lparr>rt_Type = ''redirect'', rt_Target = ''A''\<rparr>)]"
      no_log] r q
  show ?thesis by (simp add: demo_env_def)
qed

subsection \<open>Served directories\<close>

text \<open>C36. A request whose decoded path, after the route, has no \<open>..\<close> element cannot leave the served
  directory: the response depends only on what the machine says of paths below this directory, and on
  the page template. Whatever else the machine holds, the answer is the same.\<close>

theorem served_directory_contains:
  assumes "dir \<noteq> []"
    and "case PathUnescape p of Some d \<Rightarrow> ''..'' \<notin> set (path_names (TrimPrefix d route)) | None \<Rightarrow> True"
    and "\<And>es. list_all proper_name es \<Longrightarrow>
      ne_ReadFile env (below_dir dir es) = ne_ReadFile env' (below_dir dir es)
      \<and> ne_Stat env (below_dir dir es) = ne_Stat env' (below_dir dir es)
      \<and> ne_ReadDir env (below_dir dir es) = ne_ReadDir env' (below_dir dir es)"
    and "ne_ReadFile env template_path = ne_ReadFile env' template_path"
    and "ne_TypeByExtension env = ne_TypeByExtension env'"
      "ne_DetectContentType env = ne_DetectContentType env'"
  shows "ServeDir env dir route p = ServeDir env' dir route p"
proof (cases "PathUnescape p")
  case None
  then show ?thesis by (simp add: ServeDir_def)
next
  case (Some d)
  then have nd: "''..'' \<notin> set (path_names (TrimPrefix d route))" using assms(2) by simp
  have req: "requested_path dir route d = below_dir dir (path_names (TrimPrefix d route))"
    by (rule requested_path_below [OF assms(1) nd])
  note same = assms(3) [OF path_names_proper [OF nd], folded req]
  have "StaticFile env (requested_path dir route d) = StaticFile env' (requested_path dir route d)"
    using same unfolding StaticFile_def assms(5,6) by simp
  then show ?thesis
    using same assms(4) Some by (simp add: ServeDir_def Let_def cong: option.case_cong if_cong)
qed

theorem served_directory_contains_witness:
  "ServeDir demo_env ''./static/'' ''/static/'' ''/static/a.txt''
     = ServeDir (demo_env\<lparr>ne_ReadFile := demo_files(''config.yml'' := None)\<rparr>) ''./static/'' ''/static/'' ''/static/a.txt''"
proof (rule served_directory_contains)
  have "Join ''/'' (''static'' # es) \<noteq> ''config.yml''" for es by (cases es) simp_all
  then have "below_dir ''./static/'' es \<noteq> ''config.yml''" for es
    by (simp add: below_dir_def elements_def rooted_def render_path_def)
  then show "ne_ReadFile demo_env (below_dir ''./static/'' es)
        = ne_ReadFile (demo_env\<lparr>ne_ReadFile := demo_files(''config.yml'' := None)\<rparr>) (below_dir ''./static/'' es)
      \<and> ne_Stat demo_env (below_dir ''./static/'' es)
        = ne_Stat (demo_env\<lparr>ne_ReadFile := demo_files(''config.yml'' := None)\<rparr>) (below_dir ''./static/'' es)
      \<and> ne_ReadDir demo_env (below_dir ''./static/'' es)
        = ne_ReadDir (demo_env\<lparr>ne_ReadFile := demo_files(''config.yml'' := None)\<rparr>) (below_dir ''./static/'' es)"
    for es by (simp add: demo_env_def)
qed (simp_all add: TrimPrefix_def path_names_def demo_env_def template_path_def)





text \<open>At the root of the site the links of a listing begin with two slashes, which a browser takes for
  the name of another host.\<close>

lemma root_listing_links: "entry_link (parent_link ''/'') (name, b) = ''//'' @ PathEscape name @ (if b then ''/'' else [])"
  by (simp add: parent_link_def TrimSuffix_def encodeURLPathSegments_def Clean_def elements_def rooted_def
      render_path_def TrimChar_def entry_link_def Let_def)

end
