(* ===== verification/Stats_Text.thy ===== *)
theory Stats_Text
  imports Go_Path "HOL-Library.Char_ord" "HOL-Library.List_Lexorder" "HOL-Library.Multiset"
begin

text \<open>
  The text statistics service, \<open>internal/textstats\<close>: splitting a text into words, and counting and
  ranking them. The tables of package \<open>unicode\<close> beyond ASCII are an argument, and so is the order in
  which Go visits the map of counts. Strings are compared byte by byte.
\<close>

record unicode_tables =
  ut_letter :: "rune \<Rightarrow> bool"
  ut_digit :: "rune \<Rightarrow> bool"
  ut_lower :: "rune \<Rightarrow> rune"

definition IsLetter :: "unicode_tables \<Rightarrow> rune \<Rightarrow> bool" where
  "IsLetter u r = (if r < 0x80 then 65 \<le> r \<and> r \<le> 90 \<or> 97 \<le> r \<and> r \<le> 122 else ut_letter u r)"

definition IsDigit :: "unicode_tables \<Rightarrow> rune \<Rightarrow> bool" where
  "IsDigit u r = (if r < 0x80 then 48 \<le> r \<and> r \<le> 57 else ut_digit u r)"

subsection \<open>Words\<close>

text \<open>\<open>strings.FieldsFunc\<close>: \<open>cur\<close> holds the bytes of the field that is being read.\<close>

function fields_loop :: "(rune \<Rightarrow> bool) \<Rightarrow> string \<Rightarrow> string \<Rightarrow> string list" where
  "fields_loop sep cur [] = (if cur = [] then [] else [cur])"
| "fields_loop sep cur (c # cs) =
     (case decode_rune c cs of (r, w) \<Rightarrow>
        if sep r then (if cur = [] then [] else [cur]) @ fields_loop sep [] (drop (w - 1) cs)
        else fields_loop sep (cur @ take w (c # cs)) (drop (w - 1) cs))"
  by pat_completeness auto
termination
  by (relation "measure (\<lambda>(sep, cur, s). length s)") auto

definition FieldsFunc :: "string \<Rightarrow> (rune \<Rightarrow> bool) \<Rightarrow> string list" where
  "FieldsFunc s sep = fields_loop sep [] s"

definition Tokenize :: "unicode_tables \<Rightarrow> string \<Rightarrow> string list" where
  "Tokenize u text0 =
     (let fields = FieldsFunc text0 (\<lambda>r. \<not> IsLetter u r \<and> \<not> IsDigit u r)
      in map (ToLower (ut_lower u)) fields)"

text \<open>On ASCII text the words are the longest runs of letters and digits, in lower case.\<close>

definition alnum :: "char \<Rightarrow> bool" where
  "alnum c \<longleftrightarrow> (let n = of_char c :: nat in
     65 \<le> n \<and> n \<le> 90 \<or> 97 \<le> n \<and> n \<le> 122 \<or> 48 \<le> n \<and> n \<le> 57)"

function words_of :: "string \<Rightarrow> string list" where
  "words_of s =
     (case dropWhile (\<lambda>c. \<not> alnum c) s of
        [] \<Rightarrow> []
      | c # cs \<Rightarrow> (c # takeWhile alnum cs) # words_of (dropWhile alnum cs))"
  by pat_completeness auto
termination
proof (relation "measure length")
  fix s c cs
  assume eq: "dropWhile (\<lambda>c. \<not> alnum c) s = c # cs"
  have "length (dropWhile alnum cs) \<le> length cs" by (rule length_dropWhile_le)
  also have "\<dots> < length (dropWhile (\<lambda>c. \<not> alnum c) s)" unfolding eq by simp
  also have "\<dots> \<le> length s" by (rule length_dropWhile_le)
  finally show "(dropWhile alnum cs, s) \<in> measure length" by simp
qed simp

declare words_of.simps [simp del]

lemma words_of_Nil [simp]: "words_of [] = []"
  by (simp add: words_of.simps)

lemma words_of_skip: "\<not> alnum c \<Longrightarrow> words_of (c # cs) = words_of cs"
  by (simp add: words_of.simps [of "c # cs"] words_of.simps [of cs])

lemma words_of_word: "alnum c \<Longrightarrow> words_of (c # cs) = (c # takeWhile alnum cs) # words_of (dropWhile alnum cs)"
  by (simp add: words_of.simps [of "c # cs"])

lemma decode_ascii: "(of_char c :: nat) < 0x80 \<Longrightarrow> decode_rune c cs = (of_char c, 1)"
  by (simp add: Let_def split: prod.split)

lemma alnum_rune:
  "(of_char c :: nat) < 0x80 \<Longrightarrow> \<not> IsLetter u (of_char c) \<and> \<not> IsDigit u (of_char c) \<longleftrightarrow> \<not> alnum c"
  by (auto simp: IsLetter_def IsDigit_def alnum_def Let_def)

lemma fields_loop_ascii:
  "ascii s \<Longrightarrow> fields_loop (\<lambda>r. \<not> IsLetter u r \<and> \<not> IsDigit u r) cur s
     = (if cur = [] then words_of s else (cur @ takeWhile alnum s) # words_of (dropWhile alnum s))"
proof (induction s arbitrary: cur)
  case (Cons c cs)
  then have c: "(of_char c :: nat) < 0x80" and cs: "ascii cs" by (simp_all add: ascii_def)
  show ?case
    using Cons.IH [OF cs] alnum_rune [OF c, of u]
    by (simp add: decode_ascii [OF c] words_of_skip words_of_word del: decode_rune.simps)
qed simp

lemma words_of_ascii: "ascii s \<Longrightarrow> w \<in> set (words_of s) \<Longrightarrow> ascii w \<and> w \<noteq> [] \<and> list_all alnum w"
proof (induction s rule: words_of.induct)
  case (1 s)
  show ?case
  proof (cases "dropWhile (\<lambda>c. \<not> alnum c) s")
    case Nil
    then have "words_of s = []" unfolding words_of.simps [of s] by (simp only: Nil list.case)
    then show ?thesis using 1(3) by simp
  next
    case (Cons c cs)
    have c: "alnum c" using hd_dropWhile [of "\<lambda>c. \<not> alnum c" s] Cons by simp
    have sub: "set (c # cs) \<subseteq> set s" unfolding Cons [symmetric] by (auto dest: set_dropWhileD)
    then have cs: "ascii (c # cs)" using 1(2) by (auto simp: ascii_def)
    have rest: "ascii (dropWhile alnum cs)" using cs by (auto simp: ascii_def dest: set_dropWhileD)
    have "ascii (c # takeWhile alnum cs)" "list_all alnum (c # takeWhile alnum cs)"
      using cs c by (auto simp: ascii_def list_all_iff dest: set_takeWhileD)
    then show ?thesis
      using 1(1) [OF Cons rest] 1(3) by (auto simp: words_of.simps [of s] Cons)
  qed
qed

lemma Tokenize_ascii: "ascii s \<Longrightarrow> Tokenize u s = map (map ascii_lower) (words_of s)"
  using words_of_ascii [of s] fields_loop_ascii [of s u "[]"]
  by (auto simp: Tokenize_def FieldsFunc_def ToLower_ascii)

subsection \<open>Counting and ranking\<close>

datatype Entry = Entry (en_Word: string) (en_Count: int)

record Summary =
  sm_Words :: int
  sm_Unique :: int
  sm_Top :: "Entry list"

text \<open>\<open>counts[w]++\<close> for every word.\<close>

fun count_loop :: "string list \<Rightarrow> (string \<rightharpoonup> int) \<Rightarrow> (string \<rightharpoonup> int)" where
  "count_loop [] m = m"
| "count_loop (w # ws) m = count_loop ws (m(w \<mapsto> (case m w of None \<Rightarrow> 0 | Some k \<Rightarrow> k) + 1))"

text \<open>The comparison of the sort: the larger count first, then the smaller word.\<close>

definition entry_less :: "Entry \<Rightarrow> Entry \<Rightarrow> bool" where
  "entry_less e f =
     (if en_Count e \<noteq> en_Count f then en_Count f < en_Count e else en_Word e < en_Word f)"

instantiation Entry :: linorder
begin

definition less_Entry :: "Entry \<Rightarrow> Entry \<Rightarrow> bool" where
  "less_Entry = entry_less"

definition less_eq_Entry :: "Entry \<Rightarrow> Entry \<Rightarrow> bool" where
  "less_eq_Entry e f \<longleftrightarrow> e = f \<or> entry_less e f"

instance
proof
  fix e f g :: Entry
  show "e < f \<longleftrightarrow> e \<le> f \<and> \<not> f \<le> e"
    by (auto simp: less_Entry_def less_eq_Entry_def entry_less_def split: if_splits)
  show "e \<le> e" by (simp add: less_eq_Entry_def)
  show "e \<le> g" if "e \<le> f" "f \<le> g"
    using that by (auto simp: less_eq_Entry_def entry_less_def split: if_splits)
  show "e = f" if "e \<le> f" "f \<le> e"
    using that by (auto simp: less_eq_Entry_def entry_less_def split: if_splits)
  show "e \<le> f \<or> f \<le> e"
    by (cases e; cases f) (auto simp: less_eq_Entry_def entry_less_def)
qed

end

text \<open>
  \<open>sort.Slice\<close> by insertion. The library may use another algorithm; the result is the same, since the
  comparison is a strict linear order, for which a list has only one sorted permutation.
\<close>

fun insert_by :: "('a \<Rightarrow> 'a \<Rightarrow> bool) \<Rightarrow> 'a \<Rightarrow> 'a list \<Rightarrow> 'a list" where
  "insert_by lt x [] = [x]"
| "insert_by lt x (y # ys) = (if lt x y then x # y # ys else y # insert_by lt x ys)"

fun sort_Slice :: "('a \<Rightarrow> 'a \<Rightarrow> bool) \<Rightarrow> 'a list \<Rightarrow> 'a list" where
  "sort_Slice lt [] = []"
| "sort_Slice lt (x # xs) = insert_by lt x (sort_Slice lt xs)"

definition Analyze ::
  "unicode_tables \<Rightarrow> ((string \<rightharpoonup> int) \<Rightarrow> (string \<times> int) list) \<Rightarrow> string \<Rightarrow> int \<Rightarrow> Summary" where
  "Analyze u order text0 n0 =
     (let words = Tokenize u text0;
          counts = count_loop words Map.empty;
          visited = order counts;
          entries = sort_Slice entry_less (map (\<lambda>(w, c). Entry w c) visited);
          n1 = (if n0 < 0 then 0 else n0);
          n = (if n1 > int (length entries) then int (length entries) else n1)
      in \<lparr>sm_Words = int (length words), sm_Unique = int (length visited),
          sm_Top = take (nat n) entries\<rparr>)"

lemma mset_insert_by: "mset (insert_by lt x xs) = add_mset x (mset xs)"
  by (induction xs) auto

lemma mset_sort_Slice [simp]: "mset (sort_Slice lt xs) = mset xs"
  by (induction xs) (simp_all add: mset_insert_by)

lemma sorted_insert_by: "sorted xs \<Longrightarrow> sorted (insert_by (<) x xs)"
proof (induction xs)
  case (Cons y ys)
  have "set (insert_by (<) x ys) = insert x (set ys)"
    using mset_insert_by [of "(<)" x ys] by (metis set_mset_add_mset_insert set_mset_mset)
  with Cons show ?case by (auto simp: not_less)
qed simp

text \<open>Any sorted permutation is the result.\<close>

lemma sort_Slice_unique:
  fixes xs :: "'a::linorder list"
  assumes "mset ys = mset xs" "sorted ys"
  shows "sort_Slice (<) xs = ys"
proof -
  have "sorted (sort_Slice (<) xs)" by (induction xs) (simp_all add: sorted_insert_by)
  then show ?thesis
    using properties_for_sort [of ys xs] properties_for_sort [of "sort_Slice (<) xs" xs] assms by simp
qed

lemma sort_Slice_sort: "sort_Slice entry_less es = sort es"
  using sort_Slice_unique [of "sort es" es] by (simp add: less_Entry_def)

lemma count_loop_counts:
  "count_loop ws m w = (if w \<in> set ws then Some ((case m w of None \<Rightarrow> 0 | Some k \<Rightarrow> k) + int (count_list ws w)) else m w)"
  by (induction ws arbitrary: m) (auto split: option.splits)

abbreviation counts_of :: "string list \<Rightarrow> (string \<rightharpoonup> int)" where
  "counts_of ws \<equiv> count_loop ws Map.empty"

lemma dom_counts: "dom (counts_of ws) = set ws"
  by (auto simp: dom_def count_loop_counts)

text \<open>The ranking of the words, with no map in it.\<close>

definition ranking :: "string list \<Rightarrow> Entry list" where
  "ranking ws = sort (map (\<lambda>w. Entry w (int (count_list ws w))) (remdups ws))"

lemma iteration_entries:
  assumes "is_iteration (counts_of ws) es"
  shows "mset (map (\<lambda>(w, c). Entry w c) es)
      = mset (map (\<lambda>w. Entry w (int (count_list ws w))) (remdups ws))"
    and "length es = card (set ws)"
proof -
  have keys: "set (map fst es) = set (remdups ws)"
    using is_iteration_keys [OF assms] by (simp add: dom_counts)
  have dist: "distinct (map fst es)" by (rule is_iteration_distinct [OF assms])
  have "mset (map fst es) = mset (remdups ws)"
    by (rule iffD1 [OF set_eq_iff_mset_eq_distinct [OF dist distinct_remdups] keys])
  then have "mset (map (\<lambda>w. Entry w (int (count_list ws w))) (map fst es))
      = mset (map (\<lambda>w. Entry w (int (count_list ws w))) (remdups ws))"
    by (metis mset_map)
  moreover have "map (\<lambda>(w, c). Entry w c) es = map (\<lambda>w. Entry w (int (count_list ws w))) (map fst es)"
    using is_iteration_mem [OF assms] by (auto simp: count_loop_counts split: if_splits)
  ultimately show "mset (map (\<lambda>(w, c). Entry w c) es)
      = mset (map (\<lambda>w. Entry w (int (count_list ws w))) (remdups ws))" by (simp only:)
  have "length es = card (set (map fst es))" using distinct_card [OF dist] by simp
  then show "length es = card (set ws)" unfolding keys by simp
qed

lemma Analyze_ranking:
  assumes "is_iteration (counts_of (Tokenize u t)) (order (counts_of (Tokenize u t)))"
  shows "Analyze u order t n = \<lparr>sm_Words = int (length (Tokenize u t)),
    sm_Unique = int (card (set (Tokenize u t))), sm_Top = take (nat n) (ranking (Tokenize u t))\<rparr>"
proof -
  let ?ws = "Tokenize u t" and ?es = "order (counts_of (Tokenize u t))"
  have "sort (map (\<lambda>(w, c). Entry w c) ?es) = ranking ?ws"
    unfolding ranking_def using iteration_entries(1) [OF assms]
    by (intro properties_for_sort) simp_all
  then show ?thesis
    using iteration_entries(2) [OF assms]
    by (auto simp: Analyze_def Let_def sort_Slice_sort ranking_def length_remdups_card_conv)
qed

text \<open>What the ranking is.\<close>

lemma set_ranking: "set (ranking ws) = (\<lambda>w. Entry w (int (count_list ws w))) ` set ws"
  by (simp add: ranking_def)

lemma length_ranking: "length (ranking ws) = card (set ws)"
  by (simp add: ranking_def length_remdups_card_conv)

lemma ranking_sorted: "sorted_wrt (<) (ranking ws)"
proof -
  have "distinct (map (\<lambda>w. Entry w (int (count_list ws w))) (remdups ws))"
    by (simp add: distinct_map inj_on_def)
  then have "distinct (ranking ws)" by (simp add: ranking_def)
  moreover have "sorted (ranking ws)" by (simp add: ranking_def)
  ultimately show ?thesis by (simp add: strict_sorted_iff)
qed

text \<open>The counts of a ranking add up to the number of words.\<close>

lemma sum_list_counts: "(\<Sum>w \<in> set ws. count_list ws w) = length ws"
  by (rule sum_count_set) simp_all

lemma ranking_total: "sum_list (map en_Count (ranking ws)) = int (length ws)"
proof -
  have "sum_list (map en_Count (ranking ws)) = sum_mset (mset (map en_Count (ranking ws)))"
    by (rule sum_mset_sum_list [symmetric])
  also have "mset (map en_Count (ranking ws))
      = mset (map en_Count (map (\<lambda>w. Entry w (int (count_list ws w))) (remdups ws)))"
    unfolding ranking_def mset_map mset_sort by (rule refl)
  also have "sum_mset \<dots> = sum_list (map (\<lambda>w. int (count_list ws w)) (remdups ws))"
    unfolding sum_mset_sum_list by (simp add: comp_def)
  also have "\<dots> = (\<Sum>w \<in> set ws. int (count_list ws w))"
    by (simp add: sum_list_distinct_conv_sum_set)
  also have "\<dots> = int (length ws)" using sum_list_counts [of ws] by (simp flip: of_nat_sum)
  finally show ?thesis .
qed

end
