(* ===== verification/Stats_Api.thy ===== *)
theory Stats_Api
  imports Stats_Text Go_Process Go_Json
begin

text \<open>
  The text statistics service, \<open>internal/httpapi\<close> and \<open>cmd/api\<close>, from the text of a request body to the
  text of the response. The identifier of a response is an argument, a library draws it.
\<close>

definition defaultTopN :: int where "defaultTopN = 5"

definition Version :: string where "Version = ''dev''"

subsection \<open>Requests\<close>

record analyzeRequest =
  ar_Text :: string
  ar_TopN :: int

fun request_fields :: "(string \<times> json) list \<Rightarrow> analyzeRequest \<Rightarrow> analyzeRequest option" where
  "request_fields [] r = Some r"
| "request_fields ((k, v) # kvs) r =
     (if field_matches ''text'' k then
        (case json_string v (ar_Text r) of
           None \<Rightarrow> None | Some s \<Rightarrow> request_fields kvs (r\<lparr>ar_Text := s\<rparr>))
      else if field_matches ''top_n'' k then
        (case json_int v (ar_TopN r) of
           None \<Rightarrow> None | Some n \<Rightarrow> request_fields kvs (r\<lparr>ar_TopN := n\<rparr>))
      else request_fields kvs r)"

fun decode_request :: "json \<Rightarrow> analyzeRequest option" where
  "decode_request JNull = Some \<lparr>ar_Text = [], ar_TopN = 0\<rparr>"
| "decode_request (JObj kvs) = request_fields kvs \<lparr>ar_Text = [], ar_TopN = 0\<rparr>"
| "decode_request _ = None"

subsection \<open>Responses\<close>

record http_reply =
  rp_status :: nat
  rp_headers :: "(string \<times> string) list"
  rp_body :: string

definition writeJSON :: "nat \<Rightarrow> json \<Rightarrow> http_reply" where
  \<open>writeJSON st b =
     (case json_Marshal b of
        None \<Rightarrow>
          \<lparr>rp_status = 500,
           rp_headers = [(''Content-Type'', ''text/plain; charset=utf-8''), (''X-Content-Type-Options'', ''nosniff'')],
           rp_body = ''{"error":"encoding failure"}'' @ [CHR 0x0A]\<rparr>
      | Some payload \<Rightarrow>
          \<lparr>rp_status = st,
           rp_headers = [(''Content-Type'', ''application/json''), (''Content-Length'', FormatInt (int (length payload)))],
           rp_body = payload\<rparr>)\<close>

definition summary_json :: "Summary \<Rightarrow> json" where
  "summary_json s =
     JObj [(''words'', JNum (FormatInt (sm_Words s))), (''unique'', JNum (FormatInt (sm_Unique s))),
       (''top'', JArr (map (\<lambda>e. JObj [(''word'', JStr (en_Word e)), (''count'', JNum (FormatInt (en_Count e)))])
          (sm_Top s)))]"

definition analyzeResponse :: "string \<Rightarrow> Summary \<Rightarrow> json" where
  "analyzeResponse requestID s = JObj [(''request_id'', JStr requestID), (''summary'', summary_json s)]"

definition error_json :: "string \<Rightarrow> json" where
  "error_json msg = JObj [(''error'', JStr msg)]"

subsection \<open>Handlers\<close>

record stats_env =
  se_tables :: unicode_tables
  se_order :: "(string \<rightharpoonup> int) \<Rightarrow> (string \<times> int) list"

definition health :: http_reply where
  "health = writeJSON 200 (JObj [(''status'', JStr ''ok''), (''version'', JStr Version)])"

definition stats_analyze :: "stats_env \<Rightarrow> string \<Rightarrow> string \<Rightarrow> http_reply" where
  "stats_analyze env requestID reqBody =
     (case Option.bind (json_Decode reqBody) decode_request of
        None \<Rightarrow> writeJSON 400 (error_json ''invalid json body'')
      | Some req \<Rightarrow>
          if ar_Text req = [] then
            writeJSON 400
              (error_json (''field '' @ [CHR 0x27] @ ''text'' @ [CHR 0x27] @ '' is required''))
          else
            (let topN = (if ar_TopN req = 0 then defaultTopN else ar_TopN req)
             in writeJSON 200
                  (analyzeResponse requestID (Analyze (se_tables env) (se_order env) (ar_Text req) topN))))"

text \<open>
  The routes on a path that is already clean (the multiplexer redirects the others to their clean
  form): a pattern for \<open>GET\<close> serves \<open>HEAD\<close> too, and a known path with another method is refused with
  the methods it has. (The body of an answer to \<open>HEAD\<close> is the one a \<open>GET\<close> has; the library does not
  send it.)
\<close>

definition plain_reply :: "nat \<Rightarrow> string \<Rightarrow> http_reply" where
  "plain_reply st msg = \<lparr>rp_status = st,
     rp_headers = [(''Content-Type'', ''text/plain; charset=utf-8''), (''X-Content-Type-Options'', ''nosniff'')],
     rp_body = msg @ [CHR 0x0A]\<rparr>"

definition not_allowed :: "string \<Rightarrow> http_reply" where
  "not_allowed methods =
     (let r = plain_reply 405 ''Method Not Allowed'' in r\<lparr>rp_headers := (''Allow'', methods) # rp_headers r\<rparr>)"

definition stats_NewRouter :: "stats_env \<Rightarrow> string \<Rightarrow> string \<Rightarrow> string \<Rightarrow> string \<Rightarrow> http_reply" where
  "stats_NewRouter env requestID meth path reqBody =
     (if path = ''/health'' then
        (if meth = ''GET'' \<or> meth = ''HEAD'' then health else not_allowed ''GET, HEAD'')
      else if path = ''/v1/analyze'' then
        (if meth = ''POST'' then stats_analyze env requestID reqBody else not_allowed ''POST'')
      else plain_reply 404 ''404 page not found'')"

subsection \<open>The process\<close>

definition api_main :: "string \<Rightarrow> server_event list \<Rightarrow> string list \<times> nat option" where
  "api_main listen_addr events =
     (let addr = (if listen_addr = [] then '':8080'' else listen_addr)
      in serve_until_signal [''listening on '' @ addr @ '' (version '' @ Version @ '')'']
           (\<lambda>err. ''server error: '' @ err) [] (\<lambda>err. ''graceful shutdown failed: '' @ err) events)"

end
