(* ===== verification/Stats_Properties.thy ===== *)
theory Stats_Properties
  imports Stats_Api
begin

text \<open>
  The properties of the text statistics service: what a summary says of a text, whatever the order in
  which the map of counts is visited, and what the interface answers.
\<close>

subsection \<open>The most frequent words\<close>

lemma take_sorted_below:
  assumes "sorted_wrt P xs" "x \<in> set xs" "x \<notin> set (take n xs)" "y \<in> set (take n xs)"
  shows "P y x"
proof -
  have "x \<in> set (drop n xs)" using assms(2,3) by (metis append_take_drop_id Un_iff set_append)
  moreover have "sorted_wrt P (take n xs @ drop n xs)" using assms(1) by simp
  ultimately show ?thesis using assms(4) unfolding sorted_wrt_append by blast
qed

definition demo_tables :: unicode_tables where
  "demo_tables = \<lparr>ut_letter = (\<lambda>r. False), ut_digit = (\<lambda>r. False), ut_lower = (\<lambda>r. r)\<rparr>"

text \<open>An order for the map of the witnesses: the words of a fixed list that have a count.\<close>

definition demo_order :: "(string \<rightharpoonup> int) \<Rightarrow> (string \<times> int) list" where
  "demo_order m = map (\<lambda>w. (w, the (m w))) (filter (\<lambda>w. m w \<noteq> None) [''gopher'', ''go''])"

lemma demo_tokens: "Tokenize demo_tables ''Go go, gopher'' = [''go'', ''go'', ''gopher'']"
proof -
  have "ascii ''Go go, gopher''" by (simp add: ascii_def)
  then have "Tokenize demo_tables ''Go go, gopher'' = map (map ascii_lower) (words_of ''Go go, gopher'')"
    by (rule Tokenize_ascii)
  also have "words_of ''Go go, gopher'' = [''Go'', ''go'', ''gopher'']"
    by (simp add: words_of.simps alnum_def)
  finally show ?thesis by (simp add: ascii_lower_def char_of_def bit_0)
qed

lemma demo_counts_iteration:
  "is_iteration (counts_of [''go'', ''go'', ''gopher'']) (demo_order (counts_of [''go'', ''go'', ''gopher'']))"
  by (auto simp: is_iteration_def demo_order_def)



subsection \<open>The interface\<close>

lemma writeJSON_reply:
  "rp_status (writeJSON st b) = st" "rp_body (writeJSON st b) = json_text b"
  "(''Content-Length'', FormatInt (int (length (json_text b)))) \<in> set (rp_headers (writeJSON st b))"
  by (simp_all add: writeJSON_def json_Marshal_def)

lemma analyzeResponse_ok:
  "json_ok (analyzeResponse rid s)" "json_depth (analyzeResponse rid s) \<le> maxNestingDepth"
proof -
  show "json_ok (analyzeResponse rid s)"
    by (simp add: analyzeResponse_def summary_json_def number_literal_FormatInt list_all_iff)
  have "foldr max (map (\<lambda>e. Suc 0) es) 0 \<le> 9997" for es :: "Entry list"
    by (induction es) simp_all
  then show "json_depth (analyzeResponse rid s) \<le> maxNestingDepth"
    by (simp add: analyzeResponse_def summary_json_def maxNestingDepth_def comp_def)
qed

text \<open>C40. The analyze route answers every body, as text: 400 when its first JSON value is no request or has
  no text, and otherwise 200 with the ranking of the words of the text, five of them when no number is
  given and none for a negative one. Reading the body of the response gives the value back, only invalid
  UTF-8 replaced. For an ASCII text the words are its longest runs of letters and digits in lower case,
  so the reply depends neither on the order of the map nor on the Unicode tables. Every reply of the
  route declares the length of its body, and any other method is refused.\<close>

theorem analyze_route_answers:
  assumes "\<And>ws. is_iteration (counts_of ws) (se_order env (counts_of ws))"
  shows "let reply = stats_NewRouter env rid meth ''/v1/analyze'' body;
      ranked = (\<lambda>ws k. \<lparr>sm_Words = int (length ws), sm_Unique = int (card (set ws)),
        sm_Top = take (if k = 0 then 5 else nat k) (ranking ws)\<rparr>) in
    if meth \<noteq> ''POST'' then rp_status reply = 405
    else (''Content-Length'', FormatInt (int (length (rp_body reply)))) \<in> set (rp_headers reply) \<and>
      (case Option.bind (json_Decode body) decode_request of
         None \<Rightarrow> rp_status reply = 400 \<and> rp_body reply = json_text (error_json ''invalid json body'')
       | Some req \<Rightarrow>
           if ar_Text req = [] then rp_status reply = 400
           else rp_status reply = 200
             \<and> json_Unmarshal (rp_body reply) = Some (valid_json (analyzeResponse rid
                 (ranked (Tokenize (se_tables env) (ar_Text req)) (ar_TopN req))))
             \<and> (ascii (ar_Text req) \<longrightarrow> rp_body reply = json_text (analyzeResponse rid
                 (ranked (map (map ascii_lower) (words_of (ar_Text req))) (ar_TopN req)))))"
proof -
  have an: "Analyze (se_tables env) (se_order env) t n
      = \<lparr>sm_Words = int (length (Tokenize (se_tables env) t)),
         sm_Unique = int (card (set (Tokenize (se_tables env) t))),
         sm_Top = take (nat n) (ranking (Tokenize (se_tables env) t))\<rparr>" for t n
    by (rule Analyze_ranking [where order = "se_order env", OF assms(1)])
  have reread: "json_Unmarshal (json_text (analyzeResponse rid s)) = Some (valid_json (analyzeResponse rid s))" for s
    by (rule json_Unmarshal_text [OF analyzeResponse_ok])
  show ?thesis
    by (simp add: stats_NewRouter_def stats_analyze_def writeJSON_reply reread an Let_def defaultTopN_def
        not_allowed_def plain_reply_def Tokenize_ascii split: option.split)
qed

definition demo_stats :: stats_env where
  "demo_stats = \<lparr>se_tables = demo_tables,
     se_order = (\<lambda>m. map (\<lambda>w. (w, the (m w))) (sorted_list_of_set (dom m)))\<rparr>"

definition demo_body :: string where
  \<open>demo_body = ''{"text":"Go go, gopher","top_n":1}''\<close>

theorem analyze_route_answers_witness:
  \<open>rp_status (stats_NewRouter demo_stats ''id'' ''POST'' ''/v1/analyze'' demo_body) = 200
   \<and> rp_body (stats_NewRouter demo_stats ''id'' ''POST'' ''/v1/analyze'' demo_body)
       = ''{"request_id":"id","summary":{"words":3,"unique":2,"top":[{"word":"go","count":2}]}}''
   \<and> rp_status (stats_NewRouter demo_stats ''id'' ''POST'' ''/v1/analyze'' ''[]'') = 400
   \<and> rp_status (stats_NewRouter demo_stats ''id'' ''GET'' ''/v1/analyze'' demo_body) = 405\<close>
proof -
  have order: "is_iteration (counts_of ws) (se_order demo_stats (counts_of ws))" for ws
  proof -
    let ?es = "map (\<lambda>w. (w, the (counts_of ws w))) (sorted_list_of_set (set ws))"
    have "map_of ?es = counts_of ws"
      by (rule ext) (simp add: map_of_map_restrict restrict_map_def count_loop_counts)
    then show ?thesis
      by (simp add: is_iteration_def demo_stats_def dom_counts comp_def)
  qed
  let ?req = "JObj [(''text'', JStr ''Go go, gopher''), (''top_n'', JNum ''1'')]"
  have body: "demo_body = json_text ?req"
    by (simp add: demo_body_def json_quote_def json_ascii_def second_byte_range_def)
  have ok: "json_ok ?req" "json_depth ?req \<le> maxNestingDepth"
    using number_literal_FormatInt [of 1] by (simp_all add: FormatInt_def digits.simps maxNestingDepth_def)
  have "valid_json ?req = ?req" by (simp add: ascii_def)
  then have dec: "Option.bind (json_Decode demo_body) decode_request
      = Some \<lparr>ar_Text = ''Go go, gopher'', ar_TopN = 1\<rparr>"
    unfolding body json_Decode_text [OF ok]
    by (simp add: field_matches_def fold_char_def in_range_def ParseInt_def
        digit_value_def char_of_def bit_0 Let_def)
  have "json_Decode (json_text (JArr [])) = Some (valid_json (JArr []))"
    by (rule json_Decode_text) (simp_all add: maxNestingDepth_def)
  then have dec0: "Option.bind (json_Decode ''[]'') decode_request = None" by simp
  have tokens: "map (map ascii_lower) (words_of ''Go go, gopher'') = [''go'', ''go'', ''gopher'']"
    by (simp add: words_of.simps alnum_def ascii_lower_def char_of_def bit_0)
  have asc: "ascii ''Go go, gopher''" by (simp add: ascii_def)
  have rank: "take (Suc 0) (ranking [''go'', ''go'', ''gopher'']) = [Entry ''go'' 2]"
    by (simp add: ranking_def less_eq_Entry_def entry_less_def)
  have dg: "digits 1 = ''1''" "digits 2 = ''2''" "digits 3 = ''3''" by (simp_all add: digits.simps)
  note route = analyze_route_answers [where env = demo_stats, OF order, unfolded Let_def]
  show ?thesis
    using route [where meth = "''POST''" and rid = "''id''" and body = demo_body]
      route [where meth = "''POST''" and rid = "''id''" and body = "''[]''"]
      route [where meth = "''GET''" and rid = "''id''" and body = demo_body]
    by (simp add: dec dec0 asc tokens rank analyzeResponse_def summary_json_def json_quote_def json_ascii_def
        second_byte_range_def FormatInt_def dg)
qed

end
