(* ===== verification/Spec2Isabelle.thy ===== *)
theory Spec2Isabelle
  imports Rabbit_Properties Short_Pipeline Short_Startup Nginx_Properties Stats_Properties
begin

text \<open>
  A verification library of the Go programs of the repository. There are four, and they share no code:
  Baby-Rabbit, a message queue with an HTTP interface (\<open>Assignment02\<close>); url-shortener, a link
  shortener of three processes over PostgreSQL, NATS JetStream and Redis (\<open>Assignment03\<close>);
  mini-nginx, a web server over raw TCP connections (\<open>Assignment01\<close>); and a text statistics
  service (\<open>Assignment05\<close>).

  \<^bold>\<open>The language.\<close> \<open>Go_Base\<close> has panics (\<open>'a go\<close>), slices,
  \<open>%\<close>, \<open>make\<close>, times, 64-bit durations as words, and the unspecified order of a
  range over a map (\<open>is_iteration\<close>): a loop over a map takes the order as an argument and a
  theorem quantifies over it. \<open>Go_Strings\<close>, \<open>Go_Text\<close> and \<open>Go_Path\<close>
  have what the programs call of \<open>strings\<close>, \<open>strconv\<close>, \<open>utf8\<close>,
  \<open>path\<close> and of the struct side of \<open>encoding/json\<close>, on byte strings.
  \<open>Go_Json\<close> is the text side of \<open>encoding/json\<close>, a writer and a reader that goes
  token by token over a stack of open values, with the theorem that what is written is read back.
  \<open>Go_Time\<close> is the calendar of package \<open>time\<close> and its RFC 3339 formats,
  \<open>Go_Url\<close> the parser and the renderer of \<open>net/url\<close>, both with their round trips.
  \<open>Go_Duration\<close> is \<open>time.ParseDuration\<close>, with the rounding of its fractions.
  \<open>Go_Gin\<close> states what is assumed of the binding of a request body, and
  \<open>Go_Process\<close> is the life of a program that serves until a signal. These readers end because
  the text they have left gets shorter; none needs fuel. Go errors are values of a sum or option type; a
  run-time panic is a value of \<open>'a go\<close>, so its absence is proved.

  \<^bold>\<open>Baby-Rabbit.\<close> \<open>Rabbit_Domain\<close> (messages, expiry, the queue port as a
  record of operations and the locales of its contract), \<open>Rabbit_Ring\<close>
  (\<open>ring_buffer_queue.go\<close>: buffer, head, tail and size, with the abstraction to the list of its
  messages), \<open>Rabbit_Manager\<close> (\<open>queue_manager.go\<close>: queue objects by reference, an
  index by name), \<open>Rabbit_UseCase\<close>, \<open>Rabbit_Cleaner\<close>
  (\<open>ttl_cleaner.go\<close>), \<open>Rabbit_Http\<close> (handlers, routes, \<open>main\<close>) and
  \<open>Rabbit_Concurrency\<close> (requests that interleave at the locks). C1 to C15 in
  \<open>Rabbit_Properties\<close>: the ring is a FIFO queue that drops expired messages, its indices fit 64
  bits and no operation panics; in every interleaving no message is lost, invented or reordered, and the
  two-step requests are atomic; the service refines a map from names to lists; the sweep removes exactly the
  expired messages and clients cannot see it; the answers of the handlers from the text of a request (C11,
  C12, C14), with the inputs they mishandle: a TTL that wraps around, a capacity beyond the memory (C15).
  C13 belongs to url-shortener. The pop loop ends because the size falls; no fuel is used anywhere.

  \<^bold>\<open>url-shortener.\<close> \<open>Short_Domain\<close> (value objects, events, the
  \<open>Link\<close> aggregate), \<open>Short_Event\<close> (rows and envelopes of an event),
  \<open>Short_Ports\<close> (the ports as records, their laws as locales), \<open>Short_Commands\<close>
  (command and query handlers inside these locales), \<open>Short_Postgres\<close> and
  \<open>Short_Transactions\<close> (adapters as sequences of statements; the database is a record of
  operations with the contract \<open>postgres\<close>), \<open>Short_Redis\<close>,
  \<open>Short_Relay\<close> (outbox to stream), \<open>Short_Projector\<close> (stream to read model),
  \<open>Short_Http\<close> (handlers, configuration, wiring), \<open>Short_Startup\<close> (bounded
  connection attempts, stream creation, the start of the programs). \<open>Short_World\<close>,
  \<open>Short_Invariant\<close>, \<open>Short_Outbox\<close> and \<open>Short_System\<close> put the parts
  together: a history of facts ties links, outbox, stream and read model to one another.
  \<open>Short_Memory\<close> is an executable world on which the locales are interpreted and the witnesses
  run. C13 and C16 to C23 in \<open>Short_Properties\<close> are the write side (destinations that survive
  storage, short codes, life of a link, creation from the text of its request to the text of its answer and
  disabling, with all their errors, the invariant of links and event log, redirects); C24 to C33 in
  \<open>Short_Pipeline\<close> the rest: no committed event is lost, whatever call fails; what the read
  side shows is genuine; the relay publishes in order and, once its servers are healthy, drains the outbox
  in a bounded number of ticks, or panics at once for a poll interval that is not positive; events survive
  their way as bytes of a message; a click counts once under redelivery; the read model converges to the
  write side, as the answers of redirect and statistics show, and C31 says when it does not.

  \<^bold>\<open>mini-nginx.\<close> \<open>Nginx_Logger\<close> (\<open>logger.go\<close>),
  \<open>Nginx_Handlers\<close> (\<open>internal/handlers\<close>: the bytes each handler writes, over a
  record that answers for files, directories, media types and backends), \<open>Nginx_Server\<close>
  (\<open>config.go\<close>, \<open>router.go\<close>, \<open>server.go\<close>, \<open>main.go\<close>),
  \<open>Nginx_Paths\<close> (a reader of responses, the file a request names, links). C34 to C38 in
  \<open>Nginx_Properties\<close>: over all map orders the possible answers are those of the routes that
  match; answers are framed; a served directory contains requests without a \<open>..\<close> element and,
  C37, no others; the links of a listing lead to its entries.

  \<^bold>\<open>Text statistics.\<close> \<open>Stats_Text\<close> (\<open>textstats.go\<close>; entries
  are an instance of \<open>linorder\<close> by the comparison of the sort), \<open>Stats_Api\<close>
  (\<open>handler.go\<close>, \<open>main.go\<close>). C39 and C40 in \<open>Stats_Properties\<close>: the
  summary is the ranking of the words whatever the map order, and the answers of the interface.

  \<^bold>\<open>Parameters.\<close> gin, gorm, the PostgreSQL, Redis and NATS clients, the YAML format,
  random draws, UUIDs and their text, clocks and the local time zone, the layouts \<open>time\<close>
  accepts beyond RFC 3339, the file system and the Unicode tables beyond ASCII are arguments of the
  definitions. What is assumed of them are the locales and named hypotheses, each shown satisfiable by an
  interpretation or a witness.

  \<^bold>\<open>Not modelled.\<close> The delivery of signals, listeners and time-outs of the HTTP library;
  scheduling below the level of a lock, a transaction or a request (in url-shortener whole requests, relay
  batches and deliveries interleave; in mini-nginx a connection's goroutine runs when it is started, as it
  shares only the log); transactions whose sequence numbers become visible out of order; thin wrappers of
  the clock, of UUIDs and of the zap logger. \<open>Go_Url\<close> is the parser of Go 1.25.0, the version
  the module names; later ones also check the address inside brackets. An instant in JSON is read after its
  string is unquoted, where \<open>time\<close> looks at the raw characters, which differs for escaped ones
  only. The remaining directories are course material, not Go code.
\<close>

end
